(* ===== verification/Nova_Prelude.thy ===== *)
theory Nova_Prelude
  imports Main "HOL-Library.Word"
begin

text \<open>
  Shared vocabulary of the development: Rust's fallible results and their sequencing, the
  machine-integer operations the code uses (wrapping, saturating and checked arithmetic at a
  stated width), the entry API of the hash maps behind the global stores, and the interface of
  a transition system with an invariant. Everything here is independent of any one component.
\<close>

named_theorems rust_defs \<open>definitions of Rust arithmetic, unfolded together\<close>
named_theorems rust_results \<open>rewriting of fallible results\<close>

subsection \<open>Fallible results\<close>

text \<open>\<open>Result<T, E>\<close> is \<open>'e + 'a\<close> with \<open>Inl\<close> the error; \<open>?\<close> is \<open>result_bind\<close>.\<close>

type_synonym ('e, 'a) rust_result = "'e + 'a"

definition result_bind :: "'e + 'a \<Rightarrow> ('a \<Rightarrow> 'e + 'b) \<Rightarrow> 'e + 'b" where
  "result_bind r f = (case r of Inl e \<Rightarrow> Inl e | Inr x \<Rightarrow> f x)"

definition ok_or :: "'a option \<Rightarrow> 'e \<Rightarrow> 'e + 'a" where
  "ok_or x e = (case x of None \<Rightarrow> Inl e | Some y \<Rightarrow> Inr y)"

lemma result_bind_simps [simp]:
  "result_bind (Inl e) f = Inl e"
  "result_bind (Inr x) f = f x"
  by (simp_all add: result_bind_def)

lemma ok_or_simps [simp]: "ok_or None e = Inl e" "ok_or (Some x) e = Inr x"
  by (simp_all add: ok_or_def)

lemma result_bind_eq_Inr [rust_results]:
  "result_bind r f = Inr y \<longleftrightarrow> (\<exists>x. r = Inr x \<and> f x = Inr y)"
  by (cases r) auto

lemma ok_or_eq_Inr [rust_results]: "ok_or x e = Inr y \<longleftrightarrow> x = Some y"
  by (cases x) auto

lemma result_bind_assoc [rust_results]:
  "result_bind (result_bind r f) g = result_bind r (\<lambda>x. result_bind (f x) g)"
  by (cases r) auto

lemma result_bind_cong [fundef_cong]:
  "r = r' \<Longrightarrow> (\<And>x. r' = Inr x \<Longrightarrow> f x = g x) \<Longrightarrow> result_bind r f = result_bind r' g"
  by (cases r') auto

subsection \<open>Machine integers\<close>

text \<open>
  Signed 64-bit and 32-bit values are kept as \<open>int\<close> together with the wrap-around or the
  saturation the source asks for. \<open>usize\<close> and \<open>u64\<close> values are \<open>nat\<close> with the 64-bit bound
  written out in the checked operations (the targets the build files name are 64-bit).
\<close>

definition i64_min :: int where "i64_min = - (2 ^ 63)"
definition i64_max :: int where "i64_max = 2 ^ 63 - 1"
definition usize_limit :: nat where "usize_limit = 2 ^ 64"
definition u32_limit :: nat where "u32_limit = 2 ^ 32"

definition in_i64 :: "int \<Rightarrow> bool" where
  "in_i64 x \<longleftrightarrow> i64_min \<le> x \<and> x \<le> i64_max"

definition wrap_i64 :: "int \<Rightarrow> int" where
  "wrap_i64 x = (x + 2 ^ 63) mod 2 ^ 64 - 2 ^ 63"

definition sat_i64 :: "int \<Rightarrow> int" where
  "sat_i64 x = max i64_min (min i64_max x)"

definition checked_add_usize :: "nat \<Rightarrow> nat \<Rightarrow> nat option" where
  "checked_add_usize a b = (if a + b < usize_limit then Some (a + b) else None)"

definition checked_mul_usize :: "nat \<Rightarrow> nat \<Rightarrow> nat option" where
  "checked_mul_usize a b = (if a * b < usize_limit then Some (a * b) else None)"

definition checked_sub_usize :: "nat \<Rightarrow> nat \<Rightarrow> nat option" where
  "checked_sub_usize a b = (if b \<le> a then Some (a - b) else None)"

definition sat_usize :: "nat \<Rightarrow> nat" where
  "sat_usize n = min (usize_limit - 1) n"

definition u32_try_from :: "nat \<Rightarrow> nat option" where
  "u32_try_from n = (if n < u32_limit then Some n else None)"

lemmas [rust_defs] = i64_min_def i64_max_def usize_limit_def u32_limit_def in_i64_def
  checked_add_usize_def checked_mul_usize_def checked_sub_usize_def sat_usize_def
  u32_try_from_def

lemma in_i64_bounds [simp]:
  "in_i64 0" "in_i64 i64_min" "in_i64 i64_max"
  by (simp_all add: rust_defs)

lemma wrap_i64_in [simp]: "in_i64 (wrap_i64 x)"
proof -
  have "0 \<le> (x + 2 ^ 63) mod (2 ^ 64 :: int)" "(x + 2 ^ 63) mod (2 ^ 64 :: int) < 2 ^ 64"
    by simp_all
  then show ?thesis by (simp add: wrap_i64_def rust_defs)
qed

lemma wrap_i64_id [simp]: "in_i64 x \<Longrightarrow> wrap_i64 x = x"
proof -
  assume "in_i64 x"
  then have "(x + 2 ^ 63) mod (2 ^ 64 :: int) = x + 2 ^ 63"
    by (intro mod_pos_pos_trivial) (simp_all add: rust_defs)
  then show ?thesis by (simp add: wrap_i64_def)
qed

lemma wrap_i64_eq_iff: "wrap_i64 x = wrap_i64 y \<longleftrightarrow> x mod 2 ^ 64 = y mod 2 ^ 64"
proof -
  have "wrap_i64 x = wrap_i64 y \<longleftrightarrow> (x + 2 ^ 63) mod 2 ^ 64 = (y + 2 ^ 63) mod 2 ^ 64"
    by (simp add: wrap_i64_def)
  also have "\<dots> \<longleftrightarrow> x mod 2 ^ 64 = y mod 2 ^ 64"
    by (simp only: mod_eq_dvd_iff) (simp add: algebra_simps)
  finally show ?thesis .
qed

lemma wrap_i64_mod: "wrap_i64 x mod 2 ^ 64 = x mod 2 ^ 64"
  by (simp add: wrap_i64_def mod_diff_left_eq)

text \<open>Wrapping is a congruence for addition and subtraction: a chain of wrapped updates is the
  wrap of the exact sum.\<close>

lemma wrap_i64_add_left [simp]: "wrap_i64 (wrap_i64 x + y) = wrap_i64 (x + y)"
  unfolding wrap_i64_eq_iff by (metis mod_add_left_eq wrap_i64_mod)

lemma wrap_i64_add_right [simp]: "wrap_i64 (x + wrap_i64 y) = wrap_i64 (x + y)"
  by (metis add.commute wrap_i64_add_left)

lemma wrap_i64_diff_left [simp]: "wrap_i64 (wrap_i64 x - y) = wrap_i64 (x - y)"
  by (metis diff_conv_add_uminus wrap_i64_add_left)

lemma wrap_i64_diff_right [simp]: "wrap_i64 (x - wrap_i64 y) = wrap_i64 (x - y)"
  unfolding wrap_i64_eq_iff by (metis mod_diff_right_eq wrap_i64_mod)

lemma wrap_i64_add_cong: "wrap_i64 x = wrap_i64 y \<Longrightarrow> wrap_i64 (x + z) = wrap_i64 (y + z)"
  using wrap_i64_add_left by metis

lemma wrap_i64_wrap_i64 [simp]: "wrap_i64 (wrap_i64 x) = wrap_i64 x"
  by simp

lemma sat_i64_in [simp]: "in_i64 (sat_i64 x)"
  by (simp add: sat_i64_def rust_defs)

lemma sat_i64_id [simp]: "in_i64 x \<Longrightarrow> sat_i64 x = x"
  by (simp add: sat_i64_def rust_defs)

lemma checked_usize_Some [rust_results]:
  "checked_add_usize a b = Some c \<longleftrightarrow> c = a + b \<and> a + b < usize_limit"
  "checked_mul_usize a b = Some c \<longleftrightarrow> c = a * b \<and> a * b < usize_limit"
  "checked_sub_usize a b = Some c \<longleftrightarrow> c = a - b \<and> b \<le> a"
  "u32_try_from a = Some c \<longleftrightarrow> c = a \<and> a < u32_limit"
  by (auto simp: checked_add_usize_def checked_mul_usize_def checked_sub_usize_def
      u32_try_from_def)

subsection \<open>Formatting\<close>

text \<open>\<open>{}\<close> on an unsigned integer.\<close>

fun fmt_nat :: "nat \<Rightarrow> string" where
  "fmt_nat n =
     (if n < 10 then [char_of (48 + n)] else fmt_nat (n div 10) @ [char_of (48 + n mod 10)])"

declare fmt_nat.simps [simp del]

subsection \<open>Loops with early return\<close>

text \<open>
  A \<open>for\<close> loop over indices whose body may fail with \<open>?\<close>. The state reached so far survives the
  early return, as the mutations made through \<open>&mut self\<close> do. \<open>None\<close> is \<open>Ok(())\<close>.
\<close>

fun for_each :: "('i \<Rightarrow> 's \<Rightarrow> 'e option \<times> 's) \<Rightarrow> 'i list \<Rightarrow> 's \<Rightarrow> 'e option \<times> 's" where
  "for_each body [] s = (None, s)"
| "for_each body (i # is) s =
     (case body i s of (Some e, s') \<Rightarrow> (Some e, s') | (None, s') \<Rightarrow> for_each body is s')"

lemma for_each_append:
  "for_each body (is @ js) s =
     (case for_each body is s of (Some e, s') \<Rightarrow> (Some e, s') | (None, s') \<Rightarrow> for_each body js s')"
  by (induction "is" arbitrary: s) (auto split: prod.splits option.splits)

text \<open>Invariants of a loop body carry over to the loop, whatever its outcome.\<close>

lemma for_each_inv:
  assumes "P s" and "\<And>i s. i \<in> set is \<Longrightarrow> P s \<Longrightarrow> P (snd (body i s))"
  shows "P (snd (for_each body is s))"
  using assms
proof (induction "is" arbitrary: s)
  case Nil
  then show ?case by simp
next
  case (Cons i js)
  have "P (snd (body i s))" using Cons.prems by simp
  with Cons show ?case by (cases "body i s") (auto split: option.splits)
qed

lemma for_each_rule:
  assumes "P s"
    and "\<And>i s s'. i \<in> set is \<Longrightarrow> P s \<Longrightarrow> body i s = (None, s') \<Longrightarrow> P s'"
    and "\<And>i s s' e. i \<in> set is \<Longrightarrow> P s \<Longrightarrow> body i s = (Some e, s') \<Longrightarrow> Q s'"
  shows "case for_each body is s of (None, s') \<Rightarrow> P s' | (Some e, s') \<Rightarrow> Q s'"
  using assms
proof (induction "is" arbitrary: s)
  case Nil
  then show ?case by simp
next
  case (Cons i js)
  obtain r s' where b: "body i s = (r, s')" by fastforce
  show ?case
  proof (cases r)
    case None
    with b Cons.prems have "P s'" by (meson list.set_intros(1))
    then have "case for_each body js s' of (None, s') \<Rightarrow> P s' | (Some e, s') \<Rightarrow> Q s'"
      by (rule Cons.IH) (meson Cons.prems list.set_intros(2))+
    with b None show ?thesis by simp
  next
    case (Some e)
    with b Cons.prems show ?thesis by (auto intro: Cons.prems(3))
  qed
qed

text \<open>A counting loop that never fails runs through its states.\<close>

lemma for_each_upt:
  assumes "\<And>i. i < n \<Longrightarrow> body i (s i) = (None, s (Suc i))"
  shows "for_each body [0..<n] (s 0) = (None, s n)"
  using assms by (induction n) (simp_all add: for_each_append)

lemma for_each_upt_rule:
  assumes "for_each body [0..<n] s = (None, s')" and "P 0 s"
    and "\<And>i s s'. i < n \<Longrightarrow> P i s \<Longrightarrow> body i s = (None, s') \<Longrightarrow> P (Suc i) s'"
  shows "P n s'"
  using assms
proof (induction n arbitrary: s')
  case (Suc n)
  from Suc.prems(1) obtain t where "for_each body [0..<n] s = (None, t)" "body n t = (None, s')"
    by (auto simp: for_each_append split: prod.splits option.splits)
  with Suc.IH [of t] Suc.prems(2,3) show ?case by (meson less_Suc_eq)
qed simp

subsection \<open>Hash maps with the entry API\<close>

text \<open>
  The global stores are \<open>Mutex<HashMap<K, V>>\<close>, updated through \<open>entry(k).or_default()\<close>. The
  locale states what such a store promises its clients; \<open>entry_update\<close> on HOL maps provides it.
\<close>

definition entry_update :: "'v \<Rightarrow> ('k \<rightharpoonup> 'v) \<Rightarrow> 'k \<Rightarrow> ('v \<Rightarrow> 'v) \<Rightarrow> ('k \<rightharpoonup> 'v)" where
  "entry_update dflt m k f = m(k \<mapsto> f (case m k of None \<Rightarrow> dflt | Some v \<Rightarrow> v))"

definition get_or_default :: "'v \<Rightarrow> ('k \<rightharpoonup> 'v) \<Rightarrow> 'k \<Rightarrow> 'v" where
  "get_or_default dflt m k = (case m k of None \<Rightarrow> dflt | Some v \<Rightarrow> v)"

locale entry_store =
  fixes read :: "'s \<Rightarrow> 'k \<Rightarrow> 'v"
    and upd :: "'s \<Rightarrow> 'k \<Rightarrow> ('v \<Rightarrow> 'v) \<Rightarrow> 's"
    and del :: "'s \<Rightarrow> 'k \<Rightarrow> 's"
    and dflt :: 'v
  assumes read_upd: "read (upd s k f) k' = (if k' = k then f (read s k) else read s k')"
    and read_del: "read (del s k) k' = (if k' = k then dflt else read s k')"
begin

lemma read_upd_same [simp]: "read (upd s k f) k = f (read s k)"
  by (simp add: read_upd)

lemma read_upd_other [simp]: "k' \<noteq> k \<Longrightarrow> read (upd s k f) k' = read s k'"
  by (simp add: read_upd)

lemma read_upd_fold: "read (fold (\<lambda>f s. upd s k f) fs s) k = fold (\<lambda>f v. f v) fs (read s k)"
  by (induction fs arbitrary: s) simp_all

lemma read_upd_fold_other:
  "k' \<noteq> k \<Longrightarrow> read (fold (\<lambda>f s. upd s k f) fs s) k' = read s k'"
  by (induction fs arbitrary: s) simp_all

lemma read_invariant:
  "(\<And>k. P (read s k)) \<Longrightarrow> (\<And>v. P v \<Longrightarrow> P (f v)) \<Longrightarrow> P (read (upd s k f) k')"
  by (simp add: read_upd)

lemma read_del_invariant: "(\<And>k. P (read s k)) \<Longrightarrow> P dflt \<Longrightarrow> P (read (del s k) k')"
  by (simp add: read_del)

end

interpretation hash_map: entry_store
  "get_or_default dflt" "entry_update dflt" "\<lambda>m k. m(k := None)" dflt
  for dflt :: 'v
  by unfold_locales (simp_all add: get_or_default_def entry_update_def)

subsection \<open>Transition systems with an invariant\<close>

text \<open>
  A component with state is a set of start states and a step function per request. The locale
  carries an invariant from single requests to every run.
\<close>

locale request_machine =
  fixes init :: "'s \<Rightarrow> bool"
    and step :: "'r \<Rightarrow> 's \<Rightarrow> 's"
    and inv :: "'s \<Rightarrow> bool"
  assumes inv_init: "init s \<Longrightarrow> inv s"
    and inv_step: "inv s \<Longrightarrow> inv (step r s)"
begin

lemma inv_run_from: "inv s \<Longrightarrow> inv (fold step rs s)"
  by (induction rs arbitrary: s) (simp_all add: inv_step)

lemma inv_run: "init s \<Longrightarrow> inv (fold step rs s)"
  by (simp add: inv_init inv_run_from)

end

end
