(* ===== verification/Mem_Tracker.thy ===== *)
theory Mem_Tracker
  imports Nova_Prelude
begin

text \<open>
  The hierarchical memory accounting of \<open>src/src/runtime/mem_tracker.rs\<close> and the chunk side of
  it in \<open>src/src/exec/chunk/memory.rs\<close>. A tracker handle is the immutable part of the Rust
  struct, its parent handle included; the atomics live in a store indexed by the tracker's
  identity. Holders of bytes (\<open>TrackedBytes\<close>, \<open>ChunkAccounting\<close>) charge one tracker and all its
  ancestors; the ledger theorem says that each tracker's current value is exactly what its
  subtree holds, at the 64-bit width of the counter.
\<close>

subsection \<open>Trackers and their counters\<close>

datatype mem_tracker =
  MemTracker (tracker_id: nat) (tracker_label: string) (tracker_limit: int)
    (tracker_parent: "mem_tracker option")

record tracker_counters =
  current :: int
  peak :: int
  allocated :: int
  deallocated :: int
  tracker_children :: "nat list"

definition zero_counters :: tracker_counters where
  "zero_counters =
     \<lparr>current = 0, peak = 0, allocated = 0, deallocated = 0, tracker_children = []\<rparr>"

record mem_store =
  next_tracker :: nat
  counters :: "nat \<Rightarrow> tracker_counters"

definition empty_mem_store :: mem_store where
  "empty_mem_store = \<lparr>next_tracker = 0, counters = (\<lambda>_. zero_counters)\<rparr>"

definition map_counters :: "nat \<Rightarrow> (tracker_counters \<Rightarrow> tracker_counters) \<Rightarrow> mem_store \<Rightarrow> mem_store" where
  "map_counters i f s = s\<lparr>counters := (counters s)(i := f (counters s i))\<rparr>"

definition new_root :: "string \<Rightarrow> mem_store \<Rightarrow> mem_tracker \<times> mem_store" where
  "new_root label s =
     (let i = next_tracker s in
      (MemTracker i label (-1) None,
       s\<lparr>next_tracker := Suc i, counters := (counters s)(i := zero_counters)\<rparr>))"

definition new_child :: "string \<Rightarrow> mem_tracker \<Rightarrow> mem_store \<Rightarrow> mem_tracker \<times> mem_store" where
  "new_child label parent s =
     (let i = next_tracker s;
          s1 = s\<lparr>next_tracker := Suc i, counters := (counters s)(i := zero_counters)\<rparr>
      in (MemTracker i label (-1) (Some parent),
          map_counters (tracker_id parent)
            (\<lambda>c. c\<lparr>tracker_children := tracker_children c @ [i]\<rparr>) s1))"

text \<open>\<open>children()\<close> upgrades the weak references that are still alive.\<close>

definition live_children :: "(nat \<Rightarrow> bool) \<Rightarrow> mem_tracker \<Rightarrow> mem_store \<Rightarrow> nat list" where
  "live_children alive t s = filter alive (tracker_children (counters s (tracker_id t)))"

definition update_peak :: "int \<Rightarrow> tracker_counters \<Rightarrow> tracker_counters" where
  "update_peak v c = (if v > peak c then c\<lparr>peak := v\<rparr> else c)"

definition consume_one :: "int \<Rightarrow> tracker_counters \<Rightarrow> tracker_counters" where
  "consume_one bytes c =
     (let new_value = wrap_i64 (current c + bytes)
      in update_peak new_value
           (c\<lparr>current := wrap_i64 (current c + bytes),
              allocated := wrap_i64 (allocated c + bytes)\<rparr>))"

definition release_one :: "int \<Rightarrow> tracker_counters \<Rightarrow> tracker_counters" where
  "release_one bytes c =
     c\<lparr>current := wrap_i64 (current c - bytes),
        deallocated := wrap_i64 (deallocated c + bytes)\<rparr>"

fun consume_walk :: "mem_tracker \<Rightarrow> int \<Rightarrow> mem_store \<Rightarrow> mem_store" where
  "consume_walk (MemTracker i l m p) bytes s =
     (let s1 = map_counters i (consume_one bytes) s
      in case p of None \<Rightarrow> s1 | Some q \<Rightarrow> consume_walk q bytes s1)"

fun release_walk :: "mem_tracker \<Rightarrow> int \<Rightarrow> mem_store \<Rightarrow> mem_store" where
  "release_walk (MemTracker i l m p) bytes s =
     (let s1 = map_counters i (release_one bytes) s
      in case p of None \<Rightarrow> s1 | Some q \<Rightarrow> release_walk q bytes s1)"

definition consume :: "mem_tracker \<Rightarrow> int \<Rightarrow> mem_store \<Rightarrow> mem_store" where
  "consume t bytes s = (if bytes \<le> 0 then s else consume_walk t bytes s)"

definition release :: "mem_tracker \<Rightarrow> int \<Rightarrow> mem_store \<Rightarrow> mem_store" where
  "release t bytes s = (if bytes \<le> 0 then s else release_walk t bytes s)"

definition tracker_ptr_eq :: "mem_tracker \<Rightarrow> mem_tracker \<Rightarrow> bool" where
  "tracker_ptr_eq a b \<longleftrightarrow> tracker_id a = tracker_id b"

subsection \<open>Holders: tracked byte buffers and chunk accounting\<close>

record tracked_bytes =
  tb_bytes :: int
  tb_tracker :: mem_tracker

definition tracked_new :: "nat \<Rightarrow> mem_tracker \<Rightarrow> mem_store \<Rightarrow> tracked_bytes \<times> mem_store" where
  "tracked_new n t s =
     (let bytes = (if int n \<le> i64_max then int n else i64_max)
      in (\<lparr>tb_bytes = bytes, tb_tracker = t\<rparr>, consume t bytes s))"

definition tracked_transfer_to ::
  "mem_tracker \<Rightarrow> tracked_bytes \<Rightarrow> mem_store \<Rightarrow> tracked_bytes \<times> mem_store" where
  "tracked_transfer_to t h s =
     (if tracker_ptr_eq (tb_tracker h) t then (h, s)
      else (h\<lparr>tb_tracker := t\<rparr>, consume t (tb_bytes h) (release (tb_tracker h) (tb_bytes h) s)))"

definition tracked_drop :: "tracked_bytes \<Rightarrow> mem_store \<Rightarrow> mem_store" where
  "tracked_drop h s = release (tb_tracker h) (tb_bytes h) s"

text \<open>
  A chunk carries its Arrow batch (abstract here), the byte count \<open>chunk_bytes_i64\<close> computes for
  that batch, and the tracker it is charged to, if any. \<open>ChunkAccounting::transfer_to\<close> is the
  same release-then-consume move as for tracked bytes. The source shares the accounting between
  clones of a chunk; here each chunk has its own, so a transfer made through a clone is not seen.
\<close>

record 'd chunk =
  chunk_data :: 'd
  chunk_rows :: nat
  chunk_bytes :: int
  chunk_acct :: "mem_tracker option"

definition acct_transfer_to :: "mem_tracker \<Rightarrow> mem_tracker \<Rightarrow> int \<Rightarrow> mem_store \<Rightarrow> mem_tracker \<times> mem_store" where
  "acct_transfer_to t held bytes s =
     (if tracker_ptr_eq held t then (held, s)
      else (t, consume t bytes (release held bytes s)))"

definition chunk_transfer_to :: "mem_tracker \<Rightarrow> 'd chunk \<Rightarrow> mem_store \<Rightarrow> 'd chunk \<times> mem_store" where
  "chunk_transfer_to t c s =
     (case chunk_acct c of
        Some held \<Rightarrow>
          (let (held', s') = acct_transfer_to t held (chunk_bytes c) s
           in (c\<lparr>chunk_acct := Some held'\<rparr>, s'))
      | None \<Rightarrow>
          if chunk_bytes c \<le> 0 then (c, s)
          else (c\<lparr>chunk_acct := Some t\<rparr>, consume t (chunk_bytes c) s))"

definition chunk_drop :: "'d chunk \<Rightarrow> mem_store \<Rightarrow> mem_store" where
  "chunk_drop c s =
     (case chunk_acct c of None \<Rightarrow> s | Some held \<Rightarrow> release held (chunk_bytes c) s)"

subsection \<open>The effect of a walk on every counter\<close>

fun tracker_chain :: "mem_tracker \<Rightarrow> nat list" where
  "tracker_chain (MemTracker i l m p) =
     i # (case p of None \<Rightarrow> [] | Some q \<Rightarrow> tracker_chain q)"

definition wf_tracker :: "nat \<Rightarrow> mem_tracker \<Rightarrow> bool" where
  "wf_tracker n t \<longleftrightarrow> sorted_wrt (>) (tracker_chain t) \<and> (\<forall>i \<in> set (tracker_chain t). i < n)"

lemma tracker_chain_id [simp]: "tracker_id t \<in> set (tracker_chain t)"
  by (cases t) simp

lemma strictly_decreasing_distinct: "sorted_wrt (>) (xs :: nat list) \<Longrightarrow> distinct xs"
  by (induction xs) auto

lemma wf_tracker_distinct [intro]: "wf_tracker n t \<Longrightarrow> distinct (tracker_chain t)"
  by (simp add: wf_tracker_def strictly_decreasing_distinct)

lemma wf_tracker_mono: "wf_tracker n t \<Longrightarrow> n \<le> m \<Longrightarrow> wf_tracker m t"
  by (auto simp: wf_tracker_def)

lemma counters_map_counters [simp]:
  "counters (map_counters i f s) j = (if j = i then f (counters s i) else counters s j)"
  "next_tracker (map_counters i f s) = next_tracker s"
  by (simp_all add: map_counters_def)

text \<open>One lemma for both walks: every counter of the chain is updated once, no other is touched.\<close>

lemma consume_walk_effect:
  "distinct (tracker_chain t) \<Longrightarrow>
   counters (consume_walk t b s) j =
     (if j \<in> set (tracker_chain t) then consume_one b (counters s j) else counters s j)"
  by (induction t b s rule: consume_walk.induct) (auto simp: Let_def split: option.splits)

lemma release_walk_effect:
  "distinct (tracker_chain t) \<Longrightarrow>
   counters (release_walk t b s) j =
     (if j \<in> set (tracker_chain t) then release_one b (counters s j) else counters s j)"
  by (induction t b s rule: release_walk.induct) (auto simp: Let_def split: option.splits)

lemma next_tracker_consume_walk [simp]: "next_tracker (consume_walk t b s) = next_tracker s"
  by (induction t b s rule: consume_walk.induct) (auto simp: Let_def split: option.splits)

lemma next_tracker_release_walk [simp]: "next_tracker (release_walk t b s) = next_tracker s"
  by (induction t b s rule: release_walk.induct) (auto simp: Let_def split: option.splits)

lemma next_tracker_ops [simp]:
  "next_tracker (consume t b s) = next_tracker s"
  "next_tracker (release t b s) = next_tracker s"
  by (simp_all add: consume_def release_def)

lemma update_peak_fields [simp]:
  "current (update_peak v c) = current c" "allocated (update_peak v c) = allocated c"
  "deallocated (update_peak v c) = deallocated c" "peak (update_peak v c) = max (peak c) v"
  by (auto simp: update_peak_def)

text \<open>
  What a consume or release does to the counters of tracker \<open>j\<close>, in the terms the ledger
  invariant uses: the exact change of the current value and of the balance of the two totals.
\<close>

abbreviation balance :: "mem_store \<Rightarrow> nat \<Rightarrow> int" where
  "balance s j \<equiv> allocated (counters s j) - deallocated (counters s j)"

definition delta :: "mem_tracker \<Rightarrow> int \<Rightarrow> nat \<Rightarrow> int" where
  "delta t b j = (if j \<in> set (tracker_chain t) then max 0 b else 0)"

lemma delta_outside [simp]: "wf_tracker n t \<Longrightarrow> n \<le> j \<Longrightarrow> delta t b j = 0"
  by (auto simp: delta_def wf_tracker_def)

lemma consume_current:
  assumes "wf_tracker n t" and "in_i64 (current (counters s j))"
  shows "current (counters (consume t b s) j) = wrap_i64 (current (counters s j) + delta t b j)"
    and "wrap_i64 (balance (consume t b s) j) = wrap_i64 (balance s j + delta t b j)"
  using wf_tracker_distinct [OF assms(1)] assms(2)
  by (simp_all add: consume_def consume_walk_effect consume_one_def delta_def Let_def
      algebra_simps)

lemma release_current:
  assumes "wf_tracker n t" and "in_i64 (current (counters s j))"
  shows "current (counters (release t b s) j) = wrap_i64 (current (counters s j) - delta t b j)"
    and "wrap_i64 (balance (release t b s) j) = wrap_i64 (balance s j - delta t b j)"
  using wf_tracker_distinct [OF assms(1)] assms(2)
  by (simp_all add: release_def release_walk_effect release_one_def delta_def algebra_simps)

subsection \<open>The ledger: what each tracker should show\<close>

text \<open>
  A ledger is a store together with the handles in circulation: the trackers created so far and
  the live holders of bytes. \<open>held hs i\<close> is the specification: the bytes held anywhere below
  tracker \<open>i\<close>.
\<close>

record ledger =
  led_store :: mem_store
  led_trackers :: "mem_tracker list"
  led_holders :: "tracked_bytes list"

definition empty_ledger :: ledger where
  "empty_ledger = \<lparr>led_store = empty_mem_store, led_trackers = [], led_holders = []\<rparr>"

datatype mem_op =
    OpRoot string
  | OpChild string nat
  | OpTrack nat nat
  | OpTransfer nat nat
  | OpDrop nat

definition remove_nth :: "nat \<Rightarrow> 'a list \<Rightarrow> 'a list" where
  "remove_nth n xs = take n xs @ drop (Suc n) xs"

text \<open>Indices name handles the program holds; a request naming no handle cannot be made.\<close>

fun ledger_step :: "mem_op \<Rightarrow> ledger \<Rightarrow> ledger" where
  "ledger_step (OpRoot label) g =
     (let (t, s) = new_root label (led_store g)
      in g\<lparr>led_store := s, led_trackers := led_trackers g @ [t]\<rparr>)"
| "ledger_step (OpChild label k) g =
     (if k < length (led_trackers g)
      then (let (t, s) = new_child label (led_trackers g ! k) (led_store g)
            in g\<lparr>led_store := s, led_trackers := led_trackers g @ [t]\<rparr>)
      else g)"
| "ledger_step (OpTrack n k) g =
     (if k < length (led_trackers g)
      then (let (h, s) = tracked_new n (led_trackers g ! k) (led_store g)
            in g\<lparr>led_store := s, led_holders := led_holders g @ [h]\<rparr>)
      else g)"
| "ledger_step (OpTransfer j k) g =
     (if j < length (led_holders g) \<and> k < length (led_trackers g)
      then (let (h, s) = tracked_transfer_to (led_trackers g ! k) (led_holders g ! j) (led_store g)
            in g\<lparr>led_store := s, led_holders := (led_holders g)[j := h]\<rparr>)
      else g)"
| "ledger_step (OpDrop j) g =
     (if j < length (led_holders g)
      then g\<lparr>led_store := tracked_drop (led_holders g ! j) (led_store g),
             led_holders := remove_nth j (led_holders g)\<rparr>
      else g)"

definition run_ledger :: "mem_op list \<Rightarrow> ledger" where
  "run_ledger ops = fold ledger_step ops empty_ledger"

definition held :: "tracked_bytes list \<Rightarrow> nat \<Rightarrow> int" where
  "held hs i = sum_list (map (\<lambda>h. delta (tb_tracker h) (tb_bytes h) i) hs)"

definition ledger_inv :: "ledger \<Rightarrow> bool" where
  "ledger_inv g \<longleftrightarrow>
     (\<forall>t \<in> set (led_trackers g). wf_tracker (next_tracker (led_store g)) t) \<and>
     (\<forall>h \<in> set (led_holders g). wf_tracker (next_tracker (led_store g)) (tb_tracker h)) \<and>
     (\<forall>i. current (counters (led_store g) i) = wrap_i64 (held (led_holders g) i)) \<and>
     (\<forall>i. wrap_i64 (allocated (counters (led_store g) i) - deallocated (counters (led_store g) i)) =
            wrap_i64 (held (led_holders g) i))"

lemma held_Nil [simp]: "held [] i = 0"
  by (simp add: held_def)

lemma held_append [simp]: "held (hs @ hs') i = held hs i + held hs' i"
  by (simp add: held_def)

lemma held_Cons [simp]: "held (h # hs) i = delta (tb_tracker h) (tb_bytes h) i + held hs i"
  by (simp add: held_def)

lemma held_remove_nth:
  assumes "j < length hs"
  shows "held (remove_nth j hs) i = held hs i - delta (tb_tracker (hs ! j)) (tb_bytes (hs ! j)) i"
proof -
  have "hs = take j hs @ [hs ! j] @ drop (Suc j) hs"
    using assms by (simp add: id_take_nth_drop)
  then have "held hs i = held (take j hs) i + held [hs ! j] i + held (drop (Suc j) hs) i"
    by (metis held_append add.assoc)
  then show ?thesis by (simp add: remove_nth_def)
qed

lemma held_update:
  assumes "j < length hs"
  shows "held (hs[j := h]) i =
    held hs i - delta (tb_tracker (hs ! j)) (tb_bytes (hs ! j)) i + delta (tb_tracker h) (tb_bytes h) i"
proof -
  have "hs[j := h] = take j hs @ [h] @ drop (Suc j) hs"
    using assms by (simp add: upd_conv_take_nth_drop)
  then have "held (hs[j := h]) i = held (remove_nth j hs) i + held [h] i"
    by (simp add: remove_nth_def)
  then show ?thesis by (simp add: held_remove_nth [OF assms])
qed

lemma set_remove_nth: "set (remove_nth j hs) \<subseteq> set hs"
  by (auto simp: remove_nth_def dest: in_set_takeD in_set_dropD)

lemma held_outside:
  assumes "\<forall>h \<in> set hs. wf_tracker n (tb_tracker h)" and "n \<le> i"
  shows "held hs i = 0"
  using assms by (induction hs) (auto simp: held_def)

lemma ledger_inv_empty: "ledger_inv empty_ledger"
  by (simp add: ledger_inv_def empty_ledger_def empty_mem_store_def zero_counters_def)

text \<open>The shape of every accounting move: all counters of a chain change by the same amount as
  the specification does.\<close>

lemma ledger_inv_move:
  assumes "ledger_inv g"
    and "next_tracker s' = next_tracker (led_store g)"
    and "\<forall>h \<in> set hs'. wf_tracker (next_tracker (led_store g)) (tb_tracker h)"
    and "\<And>i. current (counters s' i) = wrap_i64 (current (counters (led_store g) i) + d i)"
    and "\<And>i. wrap_i64 (balance s' i) = wrap_i64 (balance (led_store g) i + d i)"
    and "\<And>i. held hs' i = held (led_holders g) i + d i"
  shows "ledger_inv (g\<lparr>led_store := s', led_holders := hs'\<rparr>)"
proof -
  have "wrap_i64 (balance s' i) = wrap_i64 (held hs' i)" for i
    using assms(1,5,6) wrap_i64_add_cong [of "balance (led_store g) i" _ "d i"]
    by (simp add: ledger_inv_def)
  then show ?thesis
    using assms by (simp add: ledger_inv_def)
qed

lemma ledger_inv_current_in: "ledger_inv g \<Longrightarrow> in_i64 (current (counters (led_store g) i))"
  by (simp add: ledger_inv_def)

lemma ledger_inv_new_tracker:
  assumes "ledger_inv g" and "wf_tracker (Suc (next_tracker (led_store g))) t"
    and "next_tracker s' = Suc (next_tracker (led_store g))"
    and "\<And>i. i \<noteq> next_tracker (led_store g) \<Longrightarrow>
           current (counters s' i) = current (counters (led_store g) i) \<and>
           balance s' i = balance (led_store g) i"
    and "current (counters s' (next_tracker (led_store g))) = 0"
    and "balance s' (next_tracker (led_store g)) = 0"
  shows "ledger_inv (g\<lparr>led_store := s', led_trackers := led_trackers g @ [t]\<rparr>)"
proof -
  let ?n = "next_tracker (led_store g)"
  have h: "held (led_holders g) ?n = 0"
    using assms(1) by (intro held_outside [where n = ?n]) (simp_all add: ledger_inv_def)
  have "current (counters s' i) = wrap_i64 (held (led_holders g) i)"
    and "wrap_i64 (balance s' i) = wrap_i64 (held (led_holders g) i)" for i
    using assms(1,5,6) h assms(4) [of i] by (cases "i = ?n"; simp add: ledger_inv_def)+
  moreover have "wf_tracker (Suc ?n) u" if "wf_tracker ?n u" for u
    using that by (rule wf_tracker_mono) simp
  ultimately show ?thesis
    using assms(1-3) by (simp add: ledger_inv_def)
qed

lemma tracked_new_inv:
  assumes "ledger_inv g" and "t \<in> set (led_trackers g)"
    and "tracked_new n t (led_store g) = (h, s')"
  shows "ledger_inv (g\<lparr>led_store := s', led_holders := led_holders g @ [h]\<rparr>)"
proof -
  have wf: "wf_tracker (next_tracker (led_store g)) t"
    using assms(1,2) by (simp add: ledger_inv_def)
  have h: "tb_tracker h = t" "s' = consume t (tb_bytes h) (led_store g)"
    using assms(3) by (auto simp: tracked_new_def Let_def)
  show ?thesis
    by (rule ledger_inv_move [OF assms(1), where d = "delta t (tb_bytes h)"])
      (use assms(1) wf h consume_current [OF wf ledger_inv_current_in [OF assms(1)]]
       in \<open>auto simp: ledger_inv_def\<close>)
qed

lemma tracked_transfer_inv:
  assumes "ledger_inv g" and "t \<in> set (led_trackers g)" and "j < length (led_holders g)"
    and "tracked_transfer_to t (led_holders g ! j) (led_store g) = (h, s')"
  shows "ledger_inv (g\<lparr>led_store := s', led_holders := (led_holders g)[j := h]\<rparr>)"
proof (cases "tracker_ptr_eq (tb_tracker (led_holders g ! j)) t")
  case True
  then have "h = led_holders g ! j" "s' = led_store g"
    using assms(4) by (simp_all add: tracked_transfer_to_def)
  then show ?thesis using assms(1,3) by simp
next
  case False
  let ?o = "led_holders g ! j" and ?n = "next_tracker (led_store g)"
  let ?s1 = "release (tb_tracker ?o) (tb_bytes ?o) (led_store g)"
  have wf: "wf_tracker ?n t" "wf_tracker ?n (tb_tracker ?o)"
    using assms(1-3) by (simp_all add: ledger_inv_def)
  have h: "h = ?o\<lparr>tb_tracker := t\<rparr>" "s' = consume t (tb_bytes ?o) ?s1"
    using False assms(4) by (auto simp: tracked_transfer_to_def)
  note r = release_current [OF wf(2) ledger_inv_current_in [OF assms(1)], where b = "tb_bytes ?o"]
  have c: "current (counters s' i) =
      wrap_i64 (current (counters (led_store g) i) +
        (delta t (tb_bytes ?o) i - delta (tb_tracker ?o) (tb_bytes ?o) i))" for i
    using consume_current(1) [OF wf(1), of ?s1 i "tb_bytes ?o"] r(1) [of i] h(2)
    by (simp add: algebra_simps)
  have b: "wrap_i64 (balance s' i) =
      wrap_i64 (balance (led_store g) i +
        (delta t (tb_bytes ?o) i - delta (tb_tracker ?o) (tb_bytes ?o) i))" for i
    using consume_current(2) [OF wf(1), of ?s1 i "tb_bytes ?o"] r(1) [of i] h(2)
      wrap_i64_add_cong [OF r(2) [of i], of "delta t (tb_bytes ?o) i"]
    by (simp add: algebra_simps)
  show ?thesis
    by (rule ledger_inv_move [OF assms(1), where
          d = "\<lambda>i. delta t (tb_bytes ?o) i - delta (tb_tracker ?o) (tb_bytes ?o) i"])
      (use assms(1,3) wf h c b in
        \<open>auto simp: ledger_inv_def held_update dest: set_update_subset_insert [THEN subsetD]\<close>)
qed

lemma tracked_drop_inv:
  assumes "ledger_inv g" and "j < length (led_holders g)"
  shows "ledger_inv (g\<lparr>led_store := tracked_drop (led_holders g ! j) (led_store g),
                       led_holders := remove_nth j (led_holders g)\<rparr>)"
proof -
  let ?h = "led_holders g ! j"
  have wf: "wf_tracker (next_tracker (led_store g)) (tb_tracker ?h)"
    using assms by (simp add: ledger_inv_def)
  have "\<forall>h \<in> set (remove_nth j (led_holders g)). wf_tracker (next_tracker (led_store g)) (tb_tracker h)"
    using assms(1) set_remove_nth [of j "led_holders g"] by (auto simp: ledger_inv_def)
  then show ?thesis
    by (intro ledger_inv_move [OF assms(1), where d = "\<lambda>i. - delta (tb_tracker ?h) (tb_bytes ?h) i"])
      (simp_all add: tracked_drop_def held_remove_nth [OF assms(2)]
        release_current [OF wf ledger_inv_current_in [OF assms(1)]])
qed

lemma new_root_inv:
  assumes "ledger_inv g"
  shows "ledger_inv (ledger_step (OpRoot label) g)"
  using ledger_inv_new_tracker [OF assms, of "MemTracker (next_tracker (led_store g)) label (-1) None"]
  by (simp add: new_root_def Let_def wf_tracker_def zero_counters_def)

lemma wf_tracker_child:
  "wf_tracker n t \<Longrightarrow> wf_tracker (Suc n) (MemTracker n label m (Some t))"
  by (auto simp: wf_tracker_def)

lemma new_child_inv:
  assumes "ledger_inv g"
  shows "ledger_inv (ledger_step (OpChild label k) g)"
proof (cases "k < length (led_trackers g)")
  case True
  let ?n = "next_tracker (led_store g)" and ?p = "led_trackers g ! k"
  have wf: "wf_tracker ?n ?p" using assms True by (simp add: ledger_inv_def)
  then have "tracker_id ?p \<noteq> ?n" by (auto simp: wf_tracker_def dest: bspec [OF _ tracker_chain_id])
  then show ?thesis
    using True ledger_inv_new_tracker [OF assms wf_tracker_child [OF wf, of label "-1"]]
    by (simp add: new_child_def Let_def zero_counters_def)
next
  case False
  with assms show ?thesis by simp
qed

lemma ledger_inv_step: "ledger_inv g \<Longrightarrow> ledger_inv (ledger_step r g)"
proof (cases r)
  case (OpRoot label)
  assume "ledger_inv g"
  then show ?thesis by (simp only: OpRoot new_root_inv)
next
  case (OpChild label k)
  assume "ledger_inv g"
  then show ?thesis by (simp only: OpChild new_child_inv)
next
  case (OpTrack n k)
  assume "ledger_inv g"
  then show ?thesis
    using OpTrack by (auto intro: tracked_new_inv nth_mem split: prod.splits)
next
  case (OpTransfer j k)
  assume "ledger_inv g"
  then show ?thesis
    using OpTransfer by (auto intro: tracked_transfer_inv nth_mem split: prod.splits)
next
  case (OpDrop j)
  assume "ledger_inv g"
  then show ?thesis
    using OpDrop by (simp add: tracked_drop_inv)
qed

interpretation mem_ledger: request_machine "\<lambda>g. g = empty_ledger" ledger_step ledger_inv
  by unfold_locales (simp_all add: ledger_inv_empty ledger_inv_step)

text \<open>
  (C1) Hierarchical accounting is exact: after any sequence of creating trackers, charging,
  transferring and dropping byte holders, every tracker's current value is the total held in
  its subtree, and so is the difference of its allocated and deallocated totals, both at the
  64-bit width of the counters.
\<close>

theorem mem_ledger_exact:
  "current (counters (led_store (run_ledger ops)) i) =
     wrap_i64 (held (led_holders (run_ledger ops)) i) \<and>
   wrap_i64 (allocated (counters (led_store (run_ledger ops)) i) -
             deallocated (counters (led_store (run_ledger ops)) i)) =
     current (counters (led_store (run_ledger ops)) i)"
  using mem_ledger.inv_run [of empty_ledger ops] by (simp add: run_ledger_def ledger_inv_def)

end
