(* ===== verification/Pipeline_Driver.thy ===== *)
theory Pipeline_Driver
  imports Mem_Tracker
begin

text \<open>
  The pipeline driver of \<open>src/src/exec/pipeline/driver.rs\<close> over the operator interface of
  \<open>src/src/exec/pipeline/operator.rs\<close>. A driver owns a chain of operators with a one-chunk edge
  buffer between neighbours and is run in time slices. The operators are trait objects, so the
  driver is modelled over a table of their methods; an operator method returns the operator's
  new state, because \<open>has_output\<close> and \<open>need_input\<close> may advance it as well. Profiling timers are
  left out; the transfer of a chunk's memory accounting is kept.
\<close>

subsection \<open>The operator interface\<close>

datatype blocked_reason = InputEmpty | OutputFull | Dependency nat

record ('o, 'd) operator_vt =
  op_name :: "'o \<Rightarrow> string"
  op_is_finished :: "'o \<Rightarrow> bool"
  op_pending_finish :: "'o \<Rightarrow> bool"
  op_is_processor :: "'o \<Rightarrow> bool"
  op_precondition :: "'o \<Rightarrow> nat option"
  op_need_input :: "'o \<Rightarrow> bool \<times> 'o"
  op_has_output :: "'o \<Rightarrow> bool \<times> 'o"
  op_push_chunk :: "'o \<Rightarrow> 'd chunk \<Rightarrow> (string + unit) \<times> 'o"
  op_pull_chunk :: "'o \<Rightarrow> (string + 'd chunk option) \<times> 'o"
  op_set_finishing :: "'o \<Rightarrow> (string + unit) \<times> 'o"
  op_cancel :: "'o \<Rightarrow> 'o"
  op_close :: "'o \<Rightarrow> (string + unit) \<times> 'o"

subsection \<open>Driver state\<close>

datatype driver_error =
    RuntimeError string
  | SourceMissingProcessor
  | SinkMissingProcessor
  | MissingProcessor string
  | OperatorIndexOutOfBounds
  | PushFailed string nat nat string
  | PullFailed string nat nat string
  | SetFinishingFailed string nat string
  | DriverPanic string

datatype driver_state =
    Ready
  | Running
  | Blocked blocked_reason
  | PendingFinish
  | Finished
  | Canceled
  | Failed driver_error

definition is_terminal :: "driver_state \<Rightarrow> bool" where
  "is_terminal st \<longleftrightarrow> (case st of Finished \<Rightarrow> True | Canceled \<Rightarrow> True | Failed _ \<Rightarrow> True | _ \<Rightarrow> False)"

record ('o, 'd) driver =
  driver_id :: int
  operators :: "'o list"
  fragment_instance_id :: "(int \<times> int) option"
  dstate :: driver_state
  closed :: bool
  pending_finish_state :: "driver_state option"
  edge_chunks :: "'d chunk option list"
  edge_closed :: "bool list"
  operator_finishing_set :: "bool list"
  operator_mem_trackers :: "mem_tracker option list"
  edge_mem_trackers :: "mem_tracker option list"
  dmem :: mem_store

text \<open>What one pass of the driver loop reads from the outside: the shared runtime error, whether
  the time slice is used up, and which dependencies are ready.\<close>

record loop_env =
  rt_error :: "string option"
  slice_over :: bool
  dep_ready :: "nat \<Rightarrow> bool"

subsection \<open>Construction\<close>

fun new_trackers :: "mem_tracker \<Rightarrow> string list \<Rightarrow> mem_store \<Rightarrow> mem_tracker list \<times> mem_store" where
  "new_trackers root [] s = ([], s)"
| "new_trackers root (l # ls) s =
     (let (t, s1) = new_child l root s; (ts, s2) = new_trackers root ls s1 in (t # ts, s2))"

definition operator_label :: "nat \<Rightarrow> string \<Rightarrow> string" where
  "operator_label idx name = ''operator '' @ fmt_nat idx @ '': '' @ name"

definition edge_label :: "nat \<Rightarrow> string \<Rightarrow> string \<Rightarrow> string" where
  "edge_label idx up down = ''edge '' @ fmt_nat idx @ '': '' @ up @ '' -> '' @ down"

text \<open>
  \<open>PipelineDriver::new\<close>: with a root tracker every operator and every edge gets a child tracker,
  operators first; without one there is no accounting. \<open>set_mem_tracker\<close> on the operators is
  their own affair and not part of the driver's state.
\<close>

definition new_driver ::
  "('o, 'd) operator_vt \<Rightarrow> int \<Rightarrow> 'o list \<Rightarrow> (int \<times> int) option \<Rightarrow> mem_tracker option \<Rightarrow>
   mem_store \<Rightarrow> ('o, 'd) driver" where
  "new_driver vt did ops fid mem_root s =
     (let n = length ops; m = n - 1;
          names = map (op_name vt) ops;
          (ots, s1) = (case mem_root of
              None \<Rightarrow> (replicate n None, s)
            | Some root \<Rightarrow>
                (let (ts, s') = new_trackers root
                       (map (\<lambda>i. operator_label i (names ! i)) [0..<n]) s
                 in (map Some ts, s')));
          (ets, s2) = (case mem_root of
              None \<Rightarrow> (replicate m None, s1)
            | Some root \<Rightarrow>
                (let (ts, s') = new_trackers root
                       (map (\<lambda>i. edge_label i (names ! i) (names ! (i + 1))) [0..<m]) s1
                 in (map Some ts, s')))
      in \<lparr>driver_id = did, operators = ops, fragment_instance_id = fid, dstate = Ready,
          closed = False, pending_finish_state = None, edge_chunks = replicate m None,
          edge_closed = replicate m False, operator_finishing_set = replicate n False,
          operator_mem_trackers = ots, edge_mem_trackers = ets, dmem = s2\<rparr>)"

subsection \<open>Queries\<close>

definition has_pending_finish :: "('o, 'd) operator_vt \<Rightarrow> ('o, 'd) driver \<Rightarrow> bool" where
  "has_pending_finish vt d \<longleftrightarrow> (\<exists>o' \<in> set (operators d). op_pending_finish vt o')"

definition is_finished :: "('o, 'd) operator_vt \<Rightarrow> ('o, 'd) driver \<Rightarrow> bool" where
  "is_finished vt d \<longleftrightarrow> (operators d = [] \<or> op_is_finished vt (last (operators d)))"

text \<open>\<open>?\<close> on an \<open>Option\<close> leaves the whole function, so the search ends with no dependency at the
  first unfinished operator that is not a processor or has no precondition.\<close>

fun find_precondition :: "('o, 'd) operator_vt \<Rightarrow> (nat \<Rightarrow> bool) \<Rightarrow> 'o list \<Rightarrow> nat option" where
  "find_precondition vt rdy [] = None"
| "find_precondition vt rdy (o' # os) =
     (if op_is_finished vt o' then find_precondition vt rdy os
      else if \<not> op_is_processor vt o' then None
      else case op_precondition vt o' of
             None \<Rightarrow> None
           | Some dep \<Rightarrow> if rdy dep then find_precondition vt rdy os else Some dep)"

definition find_precondition_dependency ::
  "('o, 'd) operator_vt \<Rightarrow> (nat \<Rightarrow> bool) \<Rightarrow> ('o, 'd) driver \<Rightarrow> nat option" where
  "find_precondition_dependency vt rdy d = find_precondition vt rdy (operators d)"

definition set_operator :: "nat \<Rightarrow> 'o \<Rightarrow> ('o, 'd) driver \<Rightarrow> ('o, 'd) driver" where
  "set_operator i o' d = d\<lparr>operators := (operators d)[i := o']\<rparr>"

definition source_ready :: "('o, 'd) operator_vt \<Rightarrow> ('o, 'd) driver \<Rightarrow> bool \<times> ('o, 'd) driver" where
  "source_ready vt d =
     (case operators d of
        [] \<Rightarrow> (True, d)
      | o' # _ \<Rightarrow>
          if op_is_finished vt o' then (True, d)
          else if \<not> op_is_processor vt o' then (True, d)
          else (let (out, o1) = op_has_output vt o'; d1 = set_operator 0 o1 d
                in if out then (True, d1) else (op_is_finished vt o1, d1)))"

definition sink_ready :: "('o, 'd) operator_vt \<Rightarrow> ('o, 'd) driver \<Rightarrow> bool \<times> ('o, 'd) driver" where
  "sink_ready vt d =
     (if operators d = [] then (True, d)
      else let o' = last (operators d); k = length (operators d) - 1 in
          if op_is_finished vt o' then (True, d)
          else if \<not> op_is_processor vt o' then (True, d)
          else (let (need, o1) = op_need_input vt o'; d1 = set_operator k o1 d
                in if need then (True, d1) else (op_is_finished vt o1, d1)))"

definition finishing_work_at :: "('o, 'd) driver \<Rightarrow> nat \<Rightarrow> bool" where
  "finishing_work_at d idx \<longleftrightarrow>
     \<not> operator_finishing_set d ! idx \<and> idx - 1 < length (edge_closed d) \<and>
     edge_closed d ! (idx - 1) \<and> edge_chunks d ! (idx - 1) = None"

definition has_ready_finishing_work :: "('o, 'd) driver \<Rightarrow> bool" where
  "has_ready_finishing_work d \<longleftrightarrow>
     2 \<le> length (operators d) \<and> (\<exists>idx \<in> set [1..<length (operators d)]. finishing_work_at d idx)"

text \<open>The disjunctions short-circuit; the queries after the poll read the polled state.\<close>

definition check_is_ready ::
  "('o, 'd) operator_vt \<Rightarrow> (nat \<Rightarrow> bool) \<Rightarrow> ('o, 'd) driver \<Rightarrow> bool \<times> ('o, 'd) driver" where
  "check_is_ready vt rdy d =
     (case dstate d of
        Blocked InputEmpty \<Rightarrow>
          (let (r, d1) = source_ready vt d
           in (r \<or> is_finished vt d1 \<or> has_ready_finishing_work d1, d1))
      | Blocked OutputFull \<Rightarrow>
          (let (r, d1) = sink_ready vt d
           in (r \<or> is_finished vt d1 \<or> has_ready_finishing_work d1, d1))
      | Blocked (Dependency dep) \<Rightarrow> (rdy dep, d)
      | PendingFinish \<Rightarrow> (\<not> has_pending_finish vt d, d)
      | _ \<Rightarrow> (True, d))"

definition set_ready :: "('o, 'd) driver \<Rightarrow> ('o, 'd) driver" where
  "set_ready d = d\<lparr>dstate := Ready\<rparr>"

subsection \<open>Leaving the loop\<close>

definition cancel_operators :: "('o, 'd) operator_vt \<Rightarrow> ('o, 'd) driver \<Rightarrow> ('o, 'd) driver" where
  "cancel_operators vt d = d\<lparr>operators := map (op_cancel vt) (operators d)\<rparr>"

definition release_edge_buffers :: "('o, 'd) driver \<Rightarrow> ('o, 'd) driver" where
  "release_edge_buffers d =
     d\<lparr>edge_chunks := map (\<lambda>_. None) (edge_chunks d),
       dmem := fold (\<lambda>c s. case c of None \<Rightarrow> s | Some ch \<Rightarrow> chunk_drop ch s) (edge_chunks d) (dmem d)\<rparr>"

definition close_operators :: "('o, 'd) operator_vt \<Rightarrow> ('o, 'd) driver \<Rightarrow> ('o, 'd) driver" where
  "close_operators vt d =
     (if closed d then d
      else (let d1 = release_edge_buffers (d\<lparr>closed := True\<rparr>)
            in fold (\<lambda>idx e. set_operator idx (snd (op_close vt (operators e ! idx))) e)
                 (rev [0..<length (operators d1)]) d1))"

definition finish_with_state ::
  "('o, 'd) operator_vt \<Rightarrow> driver_state \<Rightarrow> ('o, 'd) driver \<Rightarrow> driver_state \<times> ('o, 'd) driver" where
  "finish_with_state vt st d =
     (let d1 = (case st of
                  Canceled \<Rightarrow> cancel_operators vt d
                | Failed _ \<Rightarrow> cancel_operators vt d
                | _ \<Rightarrow> d)
      in if is_terminal st \<and> pending_finish_state d1 = None \<and> has_pending_finish vt d1
         then (PendingFinish, d1\<lparr>pending_finish_state := Some st, dstate := PendingFinish\<rparr>)
         else (let d2 = (if is_terminal st then close_operators vt d1 else d1)
               in (st, d2\<lparr>dstate := st\<rparr>)))"

definition block_or_fail :: "blocked_reason \<Rightarrow> ('o, 'd) driver \<Rightarrow> driver_state \<times> ('o, 'd) driver" where
  "block_or_fail reason d = (Blocked reason, d\<lparr>dstate := Blocked reason\<rparr>)"

subsection \<open>One pass over the operators\<close>

text \<open>The bodies of the four loops. The state is the driver with the \<open>made_progress\<close> flag.\<close>

type_synonym ('o, 'd) pass_state = "('o, 'd) driver \<times> bool"
type_synonym ('o, 'd) pass_result = "driver_error option \<times> ('o, 'd) pass_state"

definition propagate_edge ::
  "('o, 'd) operator_vt \<Rightarrow> nat \<Rightarrow> ('o, 'd) pass_state \<Rightarrow> ('o, 'd) pass_state" where
  "propagate_edge vt e ds =
     (case ds of (d, p) \<Rightarrow>
        if edge_closed d ! e then (d, p)
        else if edge_chunks d ! e \<noteq> None then (d, p)
        else if e < length (operators d) \<and> op_is_finished vt (operators d ! e)
        then (d\<lparr>edge_closed := (edge_closed d)[e := True]\<rparr>, True)
        else (d, p))"

definition propagate_edge_closure ::
  "('o, 'd) operator_vt \<Rightarrow> ('o, 'd) pass_state \<Rightarrow> ('o, 'd) pass_state" where
  "propagate_edge_closure vt ds =
     fold (propagate_edge vt) [0..<length (edge_chunks (fst ds))] ds"

definition set_finishing_at ::
  "('o, 'd) operator_vt \<Rightarrow> nat \<Rightarrow> ('o, 'd) pass_state \<Rightarrow> ('o, 'd) pass_result" where
  "set_finishing_at vt idx ds =
     (case ds of (d, p) \<Rightarrow>
        if operator_finishing_set d ! idx then (None, d, p)
        else if length (edge_closed d) \<le> idx - 1 then (None, d, p)
        else if \<not> edge_closed d ! (idx - 1) \<or> edge_chunks d ! (idx - 1) \<noteq> None then (None, d, p)
        else if length (operators d) \<le> idx then (Some OperatorIndexOutOfBounds, d, p)
        else let o' = operators d ! idx in
          if \<not> op_is_processor vt o' then (Some (MissingProcessor (op_name vt o')), d, p)
          else case op_set_finishing vt o' of
            (Inl err, o1) \<Rightarrow>
              (Some (SetFinishingFailed (op_name vt o') idx err), set_operator idx o1 d, p)
          | (Inr _, o1) \<Rightarrow>
              (None, (set_operator idx o1 d)\<lparr>operator_finishing_set :=
                        (operator_finishing_set d)[idx := True]\<rparr>, True))"

definition drive_set_finishing ::
  "('o, 'd) operator_vt \<Rightarrow> ('o, 'd) pass_state \<Rightarrow> ('o, 'd) pass_result" where
  "drive_set_finishing vt ds =
     (if length (operators (fst ds)) < 2 then (None, ds)
      else for_each (set_finishing_at vt) [1..<length (operators (fst ds))] ds)"

definition charge_chunk ::
  "mem_tracker option list \<Rightarrow> nat \<Rightarrow> 'd chunk \<Rightarrow> mem_store \<Rightarrow> 'd chunk \<times> mem_store" where
  "charge_chunk trackers i c s =
     (if i < length trackers
      then case trackers ! i of None \<Rightarrow> (c, s) | Some t \<Rightarrow> chunk_transfer_to t c s
      else (c, s))"

definition push_edge ::
  "('o, 'd) operator_vt \<Rightarrow> nat \<Rightarrow> ('o, 'd) pass_state \<Rightarrow> ('o, 'd) pass_result" where
  "push_edge vt e ds =
     (case ds of (d, p) \<Rightarrow>
      case edge_chunks d ! e of
        None \<Rightarrow> (None, d, p)
      | Some c \<Rightarrow>
          if length (operators d) \<le> e + 1 then (Some OperatorIndexOutOfBounds, d, p)
          else let o' = operators d ! (e + 1) in
            if \<not> op_is_processor vt o' then (Some (MissingProcessor (op_name vt o')), d, p)
            else let (need, o1) = op_need_input vt o'; d1 = set_operator (e + 1) o1 d in
              if \<not> need then (None, d1, p)
              else let (c', s') = charge_chunk (operator_mem_trackers d1) (e + 1) c (dmem d1);
                       (res, o2) = op_push_chunk vt o1 c';
                       d2 = (set_operator (e + 1) o2 d1)\<lparr>
                              edge_chunks := (edge_chunks d1)[e := None], dmem := s'\<rparr>
                   in case res of
                        Inr _ \<Rightarrow> (None, d2, True)
                      | Inl err \<Rightarrow> (Some (PushFailed (op_name vt o') e (e + 1) err), d2, p))"

definition drive_push_edges ::
  "('o, 'd) operator_vt \<Rightarrow> ('o, 'd) pass_state \<Rightarrow> ('o, 'd) pass_result" where
  "drive_push_edges vt ds =
     (if length (edge_chunks (fst ds)) = 0 then (None, ds)
      else for_each (push_edge vt) (rev [0..<length (edge_chunks (fst ds))]) ds)"

definition pull_edge ::
  "('o, 'd) operator_vt \<Rightarrow> nat \<Rightarrow> ('o, 'd) pass_state \<Rightarrow> ('o, 'd) pass_result" where
  "pull_edge vt e ds =
     (case ds of (d, p) \<Rightarrow>
        if edge_chunks d ! e \<noteq> None then (None, d, p)
        else let up = operators d ! e; down = operators d ! (e + 1) in
          if \<not> op_is_processor vt up then (Some (MissingProcessor (op_name vt up)), d, p)
          else if \<not> op_is_processor vt down then (Some (MissingProcessor (op_name vt down)), d, p)
          else let (out, up1) = op_has_output vt up; d1 = set_operator e up1 d in
            if \<not> out then (None, d1, p)
            else let (need, down1) = op_need_input vt down; d2 = set_operator (e + 1) down1 d1 in
              if \<not> need then (None, d2, p)
              else let (res, up2) = op_pull_chunk vt up1; d3 = set_operator e up2 d2 in
                case res of
                  Inl err \<Rightarrow> (Some (PullFailed (op_name vt up) e e err), d3, p)
                | Inr None \<Rightarrow> (None, d3, p)
                | Inr (Some c) \<Rightarrow>
                    (let (c', s') = charge_chunk (edge_mem_trackers d3) e c (dmem d3)
                     in (None, d3\<lparr>edge_chunks := (edge_chunks d3)[e := Some c'], dmem := s'\<rparr>, True)))"

definition drive_pull_edges ::
  "('o, 'd) operator_vt \<Rightarrow> ('o, 'd) pass_state \<Rightarrow> ('o, 'd) pass_result" where
  "drive_pull_edges vt ds =
     (if length (edge_chunks (fst ds)) = 0 then (None, ds)
      else for_each (pull_edge vt) [0..<length (edge_chunks (fst ds))] ds)"

definition drive_dataflow ::
  "('o, 'd) operator_vt \<Rightarrow> ('o, 'd) pass_state \<Rightarrow> ('o, 'd) pass_result" where
  "drive_dataflow vt ds =
     (if length (edge_chunks (fst ds)) = 0 then (None, ds)
      else for_each (\<lambda>f s. f vt s) [drive_push_edges, drive_pull_edges, drive_push_edges] ds)"

subsection \<open>The driver loop\<close>

text \<open>No progress was made: decide which side the driver waits for.\<close>

definition blocks_on_source ::
  "('o, 'd) operator_vt \<Rightarrow> ('o, 'd) driver \<Rightarrow>
   (driver_state \<times> ('o, 'd) driver) option \<times> ('o, 'd) driver" where
  "blocks_on_source vt d =
     (case operators d of
        [] \<Rightarrow> (None, d)
      | o' # _ \<Rightarrow>
          if op_is_finished vt o' then (None, d)
          else if \<not> op_is_processor vt o'
          then (Some (finish_with_state vt (Failed SourceMissingProcessor) d), d)
          else (let (out, o1) = op_has_output vt o'; d1 = set_operator 0 o1 d
                in if \<not> out then (Some (block_or_fail InputEmpty d1), d1) else (None, d1)))"

definition blocks_on_sink ::
  "('o, 'd) operator_vt \<Rightarrow> ('o, 'd) driver \<Rightarrow>
   (driver_state \<times> ('o, 'd) driver) option \<times> ('o, 'd) driver" where
  "blocks_on_sink vt d =
     (if operators d = [] then (None, d)
      else let o' = last (operators d) in
          if op_is_finished vt o' then (None, d)
          else if \<not> op_is_processor vt o'
          then (Some (finish_with_state vt (Failed SinkMissingProcessor) d), d)
          else (let (need, o1) = op_need_input vt o';
                    d1 = set_operator (length (operators d) - 1) o1 d
                in if \<not> need then (Some (block_or_fail OutputFull d1), d1) else (None, d1)))"

definition no_progress_outcome ::
  "('o, 'd) operator_vt \<Rightarrow> ('o, 'd) driver \<Rightarrow> driver_state \<times> ('o, 'd) driver" where
  "no_progress_outcome vt d =
     (let has_buffered = (\<exists>c \<in> set (edge_chunks d). c \<noteq> None);
          (r1, d1) = (if has_buffered then (None, d) else blocks_on_source vt d)
      in case r1 of Some out \<Rightarrow> out
         | None \<Rightarrow>
             (let (r2, d2) = blocks_on_sink vt d1
              in case r2 of Some out \<Rightarrow> out
                 | None \<Rightarrow>
                     (let (r3, d3) = (if has_buffered then blocks_on_source vt d2 else (None, d2))
                      in case r3 of Some out \<Rightarrow> out
                         | None \<Rightarrow> (Ready, d3\<lparr>dstate := Ready\<rparr>))))"

text \<open>The three passes of one iteration, in the order of the loop, stopped by the first error.\<close>

definition drive_once ::
  "('o, 'd) operator_vt \<Rightarrow> ('o, 'd) driver \<Rightarrow> ('o, 'd) pass_result" where
  "drive_once vt d =
     (let ds1 = propagate_edge_closure vt (d, False)
      in case drive_set_finishing vt ds1 of
           (Some err, ds2) \<Rightarrow> (Some err, ds2)
         | (None, ds2) \<Rightarrow> drive_dataflow vt ds2)"

text \<open>
  The loop of \<open>process_inner\<close>. Each iteration reads one environment; with the list used up the
  driver is still inside its time slice and has not returned, which is \<open>None\<close>.
\<close>

fun process_loop ::
  "('o, 'd) operator_vt \<Rightarrow> loop_env list \<Rightarrow> ('o, 'd) driver \<Rightarrow>
   (driver_state \<times> ('o, 'd) driver) option" where
  "process_loop vt [] d = None"
| "process_loop vt (ev # evs) d =
     (case rt_error ev of
        Some err \<Rightarrow> Some (finish_with_state vt (Failed (RuntimeError err)) d)
      | None \<Rightarrow>
        if slice_over ev then Some (Ready, d\<lparr>dstate := Ready\<rparr>)
        else if is_finished vt d then Some (finish_with_state vt Finished d)
        else case find_precondition_dependency vt (dep_ready ev) d of
          Some dep \<Rightarrow> Some (block_or_fail (Dependency dep) d)
        | None \<Rightarrow>
            (case drive_once vt d of
               (Some err, d1, _) \<Rightarrow> Some (finish_with_state vt (Failed err) d1)
             | (None, d1, progress) \<Rightarrow>
                 if progress then process_loop vt evs d1
                 else Some (no_progress_outcome vt d1)))"

definition process_inner ::
  "('o, 'd) operator_vt \<Rightarrow> loop_env list \<Rightarrow> ('o, 'd) driver \<Rightarrow>
   (driver_state \<times> ('o, 'd) driver) option" where
  "process_inner vt evs d =
     (case pending_finish_state d of
        Some final \<Rightarrow>
          if has_pending_finish vt d
          then Some (PendingFinish, d\<lparr>dstate := PendingFinish\<rparr>)
          else Some (finish_with_state vt final (d\<lparr>pending_finish_state := None\<rparr>))
      | None \<Rightarrow> process_loop vt evs (d\<lparr>dstate := Running\<rparr>))"

definition drop_driver :: "('o, 'd) operator_vt \<Rightarrow> ('o, 'd) driver \<Rightarrow> ('o, 'd) driver" where
  "drop_driver vt d = close_operators vt d"

subsection \<open>Well-formed drivers\<close>

definition driver_wf :: "('o, 'd) driver \<Rightarrow> bool" where
  "driver_wf d \<longleftrightarrow>
     length (edge_chunks d) = length (operators d) - 1 \<and>
     length (edge_closed d) = length (operators d) - 1 \<and>
     length (operator_finishing_set d) = length (operators d) \<and>
     length (operator_mem_trackers d) = length (operators d) \<and>
     length (edge_mem_trackers d) = length (operators d) - 1"

lemma length_new_trackers [simp]: "length (fst (new_trackers root ls s)) = length ls"
  by (induction root ls s rule: new_trackers.induct) (auto split: prod.splits)

lemma new_driver_wf: "driver_wf (new_driver vt did ops fid mr s)"
  by (cases mr) (auto simp: new_driver_def driver_wf_def Let_def split: prod.splits
      dest!: arg_cong [where f = "\<lambda>x. length (fst x)" and x = "new_trackers _ _ _"])

lemma set_operator_fields [simp]:
  "operators (set_operator i o' d) = (operators d)[i := o']"
  "edge_chunks (set_operator i o' d) = edge_chunks d"
  "edge_closed (set_operator i o' d) = edge_closed d"
  "operator_finishing_set (set_operator i o' d) = operator_finishing_set d"
  "operator_mem_trackers (set_operator i o' d) = operator_mem_trackers d"
  "edge_mem_trackers (set_operator i o' d) = edge_mem_trackers d"
  "closed (set_operator i o' d) = closed d"
  "pending_finish_state (set_operator i o' d) = pending_finish_state d"
  "dstate (set_operator i o' d) = dstate d"
  "dmem (set_operator i o' d) = dmem d"
  by (simp_all add: set_operator_def)

lemma chunk_data_charge [simp]: "chunk_data (fst (charge_chunk ts i c s)) = chunk_data c"
  by (auto simp: charge_chunk_def chunk_transfer_to_def acct_transfer_to_def
      split: option.splits prod.splits)

subsection \<open>What the passes leave alone\<close>

text \<open>The number of operators never changes, so the index ranges of the loops stay valid.\<close>

lemma length_operators_bodies:
  "length (operators (fst (propagate_edge vt e ds))) = length (operators (fst ds))"
  "length (operators (fst (snd (set_finishing_at vt e ds)))) = length (operators (fst ds))"
  "length (operators (fst (snd (push_edge vt e ds)))) = length (operators (fst ds))"
  "length (operators (fst (snd (pull_edge vt e ds)))) = length (operators (fst ds))"
  by (auto simp: propagate_edge_def set_finishing_at_def push_edge_def pull_edge_def Let_def
      split: prod.splits option.splits sum.splits)

text \<open>The passes neither close the driver nor touch its pending final state.\<close>

lemma body_status:
  "closed (fst (propagate_edge vt e ds)) = closed (fst ds)"
  "closed (fst (snd (set_finishing_at vt e ds))) = closed (fst ds)"
  "closed (fst (snd (push_edge vt e ds))) = closed (fst ds)"
  "closed (fst (snd (pull_edge vt e ds))) = closed (fst ds)"
  "pending_finish_state (fst (propagate_edge vt e ds)) = pending_finish_state (fst ds)"
  "pending_finish_state (fst (snd (set_finishing_at vt e ds))) = pending_finish_state (fst ds)"
  "pending_finish_state (fst (snd (push_edge vt e ds))) = pending_finish_state (fst ds)"
  "pending_finish_state (fst (snd (pull_edge vt e ds))) = pending_finish_state (fst ds)"
  by (auto simp: propagate_edge_def set_finishing_at_def push_edge_def pull_edge_def Let_def
      split: prod.splits option.splits sum.splits)

lemma loop_status:
  fixes body :: "'i \<Rightarrow> ('o, 'd) pass_state \<Rightarrow> ('o, 'd) pass_result"
  assumes "\<And>i s. closed (fst (snd (body i s))) = closed (fst s)"
    and "\<And>i s. pending_finish_state (fst (snd (body i s))) = pending_finish_state (fst s)"
  shows "closed (fst (snd (for_each body is ds))) = closed (fst ds)"
    and "pending_finish_state (fst (snd (for_each body is ds))) = pending_finish_state (fst ds)"
  by (rule for_each_inv [where P = "\<lambda>s. closed (fst s) = closed (fst ds)"]; simp add: assms)
    (rule for_each_inv [where P = "\<lambda>s. pending_finish_state (fst s) = pending_finish_state (fst ds)"];
      simp add: assms)

lemma drive_edges_status:
  "closed (fst (snd (drive_push_edges vt ds))) = closed (fst ds)"
  "closed (fst (snd (drive_pull_edges vt ds))) = closed (fst ds)"
  "pending_finish_state (fst (snd (drive_push_edges vt ds))) = pending_finish_state (fst ds)"
  "pending_finish_state (fst (snd (drive_pull_edges vt ds))) = pending_finish_state (fst ds)"
  by (simp_all add: drive_push_edges_def drive_pull_edges_def loop_status body_status)

lemma drive_dataflow_status:
  "closed (fst (snd (drive_dataflow vt ds))) = closed (fst ds)"
  "pending_finish_state (fst (snd (drive_dataflow vt ds))) = pending_finish_state (fst ds)"
proof -
  let ?fs = "[drive_push_edges, drive_pull_edges, drive_push_edges]"
  have "closed (fst (snd (for_each (\<lambda>f s. f vt s) ?fs ds))) = closed (fst ds)"
    by (rule for_each_inv [where P = "\<lambda>s. closed (fst s) = closed (fst ds)"])
      (auto simp: drive_edges_status)
  then show "closed (fst (snd (drive_dataflow vt ds))) = closed (fst ds)"
    by (simp add: drive_dataflow_def)
  have "pending_finish_state (fst (snd (for_each (\<lambda>f s. f vt s) ?fs ds))) = pending_finish_state (fst ds)"
    by (rule for_each_inv [where P = "\<lambda>s. pending_finish_state (fst s) = pending_finish_state (fst ds)"])
      (auto simp: drive_edges_status)
  then show "pending_finish_state (fst (snd (drive_dataflow vt ds))) = pending_finish_state (fst ds)"
    by (simp add: drive_dataflow_def)
qed

lemma drive_once_status:
  "closed (fst (snd (drive_once vt d))) = closed d"
  "pending_finish_state (fst (snd (drive_once vt d))) = pending_finish_state d"
proof -
  have fold: "closed (fst (fold (propagate_edge vt) es ds)) = closed (fst ds) \<and>
    pending_finish_state (fst (fold (propagate_edge vt) es ds)) = pending_finish_state (fst ds)" for es ds
    by (induction es arbitrary: ds) (simp_all add: body_status)
  let ?ds1 = "propagate_edge_closure vt (d, False)"
  obtain r ds2 where sf: "drive_set_finishing vt ?ds1 = (r, ds2)" by (rule prod.exhaust)
  have "closed (fst (snd (drive_set_finishing vt ?ds1))) = closed d \<and>
     pending_finish_state (fst (snd (drive_set_finishing vt ?ds1))) = pending_finish_state d"
    by (simp add: drive_set_finishing_def loop_status body_status propagate_edge_closure_def fold)
  then have "closed (fst ds2) = closed d" "pending_finish_state (fst ds2) = pending_finish_state d"
    by (simp_all add: sf)
  then show "closed (fst (snd (drive_once vt d))) = closed d"
    "pending_finish_state (fst (snd (drive_once vt d))) = pending_finish_state d"
    by (simp_all add: drive_once_def sf drive_dataflow_status split: option.splits)
qed

text \<open>Closing: every operator is closed once, last one first, and the edge buffers are given up.\<close>

lemma fold_set_operator:
  "fold (\<lambda>i e. set_operator i (f (operators e ! i)) e) is d =
     d\<lparr>operators := fold (\<lambda>i os. os[i := f (os ! i)]) is (operators d)\<rparr>"
  by (induction "is" arbitrary: d) (simp_all add: set_operator_def)

lemma fold_update_prefix:
  "n \<le> length os \<Longrightarrow>
   fold (\<lambda>i os. os[i := f (os ! i)]) (rev [0..<n]) os = map f (take n os) @ drop n os"
proof (induction n arbitrary: os)
  case (Suc n)
  then have "take n (os[n := f (os ! n)]) = take n os"
    "drop n (os[n := f (os ! n)]) = f (os ! n) # drop (Suc n) os"
    by (simp_all add: take_update_cancel drop_update_swap Cons_nth_drop_Suc [symmetric] flip: upd_conv_take_nth_drop)
  with Suc show ?case by (simp add: take_Suc_conv_app_nth)
qed simp

lemma close_operators_open:
  assumes "\<not> closed d"
  shows "close_operators vt d =
    (release_edge_buffers d)\<lparr>closed := True, operators := map (\<lambda>o'. snd (op_close vt o')) (operators d)\<rparr>"
  using assms
  by (simp add: close_operators_def release_edge_buffers_def
      fold_set_operator [where f = "\<lambda>o'. snd (op_close vt o')"]
      fold_update_prefix [where f = "\<lambda>o'. snd (op_close vt o')"])

text \<open>The outcome without progress: what both polls establish holds of it.\<close>

lemma no_progress_cases:
  assumes "P d"
    and src: "\<And>e. P e \<Longrightarrow> case blocks_on_source vt e of (Some out, _) \<Rightarrow> Q out | (None, e') \<Rightarrow> P e'"
    and snk: "\<And>e. P e \<Longrightarrow> case blocks_on_sink vt e of (Some out, _) \<Rightarrow> Q out | (None, e') \<Rightarrow> P e'"
    and rdy: "\<And>e. P e \<Longrightarrow> Q (Ready, e\<lparr>dstate := Ready\<rparr>)"
  shows "Q (no_progress_outcome vt d)"
proof -
  define b where "b \<longleftrightarrow> (\<exists>c \<in> set (edge_chunks d). c \<noteq> None)"
  obtain r1 d1 where s1: "(if b then (None, d) else blocks_on_source vt d) = (r1, d1)"
    by (rule prod.exhaust)
  obtain r2 d2 where s2: "blocks_on_sink vt d1 = (r2, d2)" by (rule prod.exhaust)
  obtain r3 d3 where s3: "(if b then blocks_on_source vt d2 else (None, d2)) = (r3, d3)"
    by (rule prod.exhaust)
  have c1: "case r1 of Some out \<Rightarrow> Q out | None \<Rightarrow> P d1"
    using src [of d] assms(1) s1 by (auto split: if_splits prod.splits option.splits)
  have c2: "P d1 \<Longrightarrow> case r2 of Some out \<Rightarrow> Q out | None \<Rightarrow> P d2"
    using snk [of d1] s2 by (auto split: option.splits)
  have c3: "P d2 \<Longrightarrow> case r3 of Some out \<Rightarrow> Q out | None \<Rightarrow> P d3"
    using src [of d2] s3 by (auto split: if_splits prod.splits option.splits)
  have "no_progress_outcome vt d = (case r1 of Some out \<Rightarrow> out | None \<Rightarrow>
     (case r2 of Some out \<Rightarrow> out | None \<Rightarrow> (case r3 of Some out \<Rightarrow> out | None \<Rightarrow> (Ready, d3\<lparr>dstate := Ready\<rparr>))))"
    unfolding no_progress_outcome_def b_def [symmetric]
    using s1 s2 s3 by (auto split: option.splits)
  then show ?thesis using c1 c2 c3 rdy by (auto split: option.splits)
qed

subsection \<open>What the driver may rely on, and what it guarantees about the data\<close>

text \<open>
  The contract names four observations of an operator: the data pushed into it, the data pulled
  out of it, and how often it was told to finish and to close. Only the method of that name
  changes an observation. The driver's guarantees are stated and proved against this contract.
\<close>

locale operator_contract =
  fixes vt :: "('o, 'd) operator_vt"
    and inp outp :: "'o \<Rightarrow> 'd list"
    and fins closes :: "'o \<Rightarrow> nat"
  assumes need_input_obs:
      "inp (snd (op_need_input vt o')) = inp o'" "outp (snd (op_need_input vt o')) = outp o'"
      "fins (snd (op_need_input vt o')) = fins o'" "closes (snd (op_need_input vt o')) = closes o'"
    and has_output_obs:
      "inp (snd (op_has_output vt o')) = inp o'" "outp (snd (op_has_output vt o')) = outp o'"
      "fins (snd (op_has_output vt o')) = fins o'" "closes (snd (op_has_output vt o')) = closes o'"
    and push_obs:
      "inp (snd (op_push_chunk vt o' c)) = inp o' @ [chunk_data c]"
      "outp (snd (op_push_chunk vt o' c)) = outp o'"
      "fins (snd (op_push_chunk vt o' c)) = fins o'"
      "closes (snd (op_push_chunk vt o' c)) = closes o'"
    and pull_obs:
      "inp (snd (op_pull_chunk vt o')) = inp o'"
      "outp (snd (op_pull_chunk vt o')) =
         outp o' @ (case fst (op_pull_chunk vt o') of Inr (Some c) \<Rightarrow> [chunk_data c] | _ \<Rightarrow> [])"
      "fins (snd (op_pull_chunk vt o')) = fins o'"
      "closes (snd (op_pull_chunk vt o')) = closes o'"
    and set_finishing_obs:
      "inp (snd (op_set_finishing vt o')) = inp o'" "outp (snd (op_set_finishing vt o')) = outp o'"
      "fins (snd (op_set_finishing vt o')) = Suc (fins o')"
      "closes (snd (op_set_finishing vt o')) = closes o'"
    and cancel_obs:
      "inp (op_cancel vt o') = inp o'" "outp (op_cancel vt o') = outp o'"
      "fins (op_cancel vt o') = fins o'" "closes (op_cancel vt o') = closes o'"
    and close_obs:
      "inp (snd (op_close vt o')) = inp o'" "outp (snd (op_close vt o')) = outp o'"
      "fins (snd (op_close vt o')) = fins o'" "closes (snd (op_close vt o')) = Suc (closes o')"

definition buffered :: "'d chunk option \<Rightarrow> 'd list" where
  "buffered c = (case c of None \<Rightarrow> [] | Some ch \<Rightarrow> [chunk_data ch])"

lemma buffered_simps [simp]: "buffered None = []" "buffered (Some c) = [chunk_data c]"
  by (simp_all add: buffered_def)

definition edge_flow :: "('o \<Rightarrow> 'd list) \<Rightarrow> ('o \<Rightarrow> 'd list) \<Rightarrow> ('o, 'd) driver \<Rightarrow> bool" where
  "edge_flow inp outp d \<longleftrightarrow>
     (\<forall>e < length (edge_chunks d).
        outp (operators d ! e) = inp (operators d ! Suc e) @ buffered (edge_chunks d ! e))"

definition finishing_calls :: "('o \<Rightarrow> nat) \<Rightarrow> ('o, 'd) driver \<Rightarrow> bool" where
  "finishing_calls fins d \<longleftrightarrow>
     (\<forall>i < length (operators d).
        fins (operators d ! i) = (if operator_finishing_set d ! i then 1 else 0))"

definition close_calls :: "('o \<Rightarrow> nat) \<Rightarrow> ('o, 'd) driver \<Rightarrow> bool" where
  "close_calls closes d \<longleftrightarrow>
     (\<forall>i < length (operators d). closes (operators d ! i) = (if closed d then 1 else 0))"

text \<open>A finishing step is legal only where the input edge is closed and drained.\<close>

definition finishing_legal :: "('o, 'd) driver \<Rightarrow> bool" where
  "finishing_legal d \<longleftrightarrow>
     (\<forall>i < length (operators d). operator_finishing_set d ! i \<longrightarrow> 0 < i \<and> edge_closed d ! (i - 1))"

definition finishing_bound :: "('o \<Rightarrow> nat) \<Rightarrow> ('o, 'd) driver \<Rightarrow> bool" where
  "finishing_bound fins d \<longleftrightarrow> (\<forall>i < length (operators d). fins (operators d ! i) \<le> 1)"

definition driver_core ::
  "('o \<Rightarrow> 'd list) \<Rightarrow> ('o \<Rightarrow> 'd list) \<Rightarrow> ('o \<Rightarrow> nat) \<Rightarrow> ('o \<Rightarrow> nat) \<Rightarrow> ('o, 'd) driver \<Rightarrow> bool" where
  "driver_core inp outp fins closes d \<longleftrightarrow>
     driver_wf d \<and> edge_flow inp outp d \<and> close_calls closes d \<and> finishing_legal d \<and>
     finishing_bound fins d"

text \<open>
  The invariant of a driver between two calls. While the driver is open nothing is lost or
  reordered on any edge and an operator was told to finish exactly when the driver says so; a
  failed \<open>set_finishing\<close> breaks the latter, and then a terminal state is already pending. A closed
  driver holds no chunk; on each edge at most the one chunk then buffered was discarded.
\<close>

definition edge_prefix :: "('o \<Rightarrow> 'd list) \<Rightarrow> ('o \<Rightarrow> 'd list) \<Rightarrow> ('o, 'd) driver \<Rightarrow> bool" where
  "edge_prefix inp outp d \<longleftrightarrow>
     (\<forall>e < length (edge_chunks d). \<exists>dropped. length dropped \<le> 1 \<and>
        outp (operators d ! e) = inp (operators d ! Suc e) @ dropped)"

definition driver_inv ::
  "('o \<Rightarrow> 'd list) \<Rightarrow> ('o \<Rightarrow> 'd list) \<Rightarrow> ('o \<Rightarrow> nat) \<Rightarrow> ('o \<Rightarrow> nat) \<Rightarrow> ('o, 'd) driver \<Rightarrow> bool" where
  "driver_inv inp outp fins closes d \<longleftrightarrow>
     driver_wf d \<and> close_calls closes d \<and> finishing_legal d \<and> finishing_bound fins d \<and>
     (if closed d
      then edge_prefix inp outp d \<and> set (edge_chunks d) \<subseteq> {None}
      else edge_flow inp outp d \<and> (pending_finish_state d = None \<longrightarrow> finishing_calls fins d)) \<and>
     (\<forall>st. pending_finish_state d = Some st \<longrightarrow> is_terminal st)"

lemmas driver_inv_defs = driver_core_def driver_wf_def edge_flow_def close_calls_def
  finishing_legal_def finishing_bound_def

context operator_contract
begin

abbreviation core :: "('o, 'd) driver \<Rightarrow> bool" where
  "core \<equiv> driver_core inp outp fins closes"

abbreviation exact :: "('o, 'd) driver \<Rightarrow> bool" where
  "exact d \<equiv> core d \<and> finishing_calls fins d"

text \<open>Replacing an operator by one with the same observations changes nothing the driver counts.\<close>

lemma nth_update_obs: "f o' = f (xs ! i) \<Longrightarrow> f (xs[i := o'] ! j) = f (xs ! j)"
  by (cases "i < length xs"; cases "i = j") (auto simp: list_update_beyond)

lemma edge_flow_set_operator:
  assumes "edge_flow inp outp d" and "inp o' = inp (operators d ! i)" "outp o' = outp (operators d ! i)"
  shows "edge_flow inp outp (set_operator i o' d)"
  using assms by (simp add: edge_flow_def nth_update_obs)

lemma core_set_operator:
  assumes "core d" and "inp o' = inp (operators d ! i)" "outp o' = outp (operators d ! i)"
    and "closes o' = closes (operators d ! i)" and "fins o' \<le> 1"
  shows "core (set_operator i o' d)"
proof -
  have "fins ((operators d)[i := o'] ! j) \<le> 1" if "j < length (operators d)" for j
    using assms(1,5) that by (cases "i = j") (simp_all add: driver_core_def finishing_bound_def)
  then show ?thesis
    using assms edge_flow_set_operator [of d o' i]
    by (simp add: driver_core_def driver_wf_def close_calls_def finishing_legal_def
        finishing_bound_def nth_update_obs)
qed

lemma core_fins_le: "core d \<Longrightarrow> i < length (operators d) \<Longrightarrow> fins (operators d ! i) \<le> 1"
  by (simp add: driver_core_def finishing_bound_def)

lemma finishing_calls_set_operator:
  assumes "finishing_calls fins d" and "fins o' = fins (operators d ! i)"
  shows "finishing_calls fins (set_operator i o' d)"
  using assms by (simp add: finishing_calls_def nth_update_obs)

lemma exact_set_operator:
  assumes "exact d" and "i < length (operators d)"
    and "inp o' = inp (operators d ! i)" "outp o' = outp (operators d ! i)"
    and "fins o' = fins (operators d ! i)" "closes o' = closes (operators d ! i)"
  shows "exact (set_operator i o' d)"
  using assms core_fins_le [of d i]
  by (simp add: core_set_operator finishing_calls_set_operator)

lemma exact_poll:
  assumes "exact d" and "i < length (operators d)"
  shows "exact (set_operator i (snd (op_need_input vt (operators d ! i))) d)"
    and "exact (set_operator i (snd (op_has_output vt (operators d ! i))) d)"
  by (rule exact_set_operator [OF assms]; simp add: need_input_obs has_output_obs)+

lemma propagate_edge_exact:
  assumes "exact d" and "e < length (edge_chunks d)"
  shows "exact (fst (propagate_edge vt e (d, p))) \<and>
    length (edge_chunks (fst (propagate_edge vt e (d, p)))) = length (edge_chunks d)"
  using assms by (auto simp: propagate_edge_def driver_inv_defs finishing_calls_def nth_list_update)

text \<open>Marking an operator as told to finish, after it was told.\<close>

lemma exact_mark_finishing:
  assumes "exact d" and "0 < idx" and "idx < length (operators d)"
    and "\<not> operator_finishing_set d ! idx" and "edge_closed d ! (idx - 1)"
    and "fins o1 = Suc (fins (operators d ! idx))"
    and "core (set_operator idx o1 d)"
  shows "exact ((set_operator idx o1 d)\<lparr>operator_finishing_set :=
                   (operator_finishing_set d)[idx := True]\<rparr>)"
proof -
  have len: "length (operator_finishing_set d) = length (operators d)"
    using assms(1) by (simp add: driver_core_def driver_wf_def)
  have "finishing_calls fins ((set_operator idx o1 d)\<lparr>operator_finishing_set :=
                   (operator_finishing_set d)[idx := True]\<rparr>)"
    using assms(1,3,4,6) len by (auto simp: finishing_calls_def nth_list_update)
  moreover have "finishing_legal ((set_operator idx o1 d)\<lparr>operator_finishing_set :=
                   (operator_finishing_set d)[idx := True]\<rparr>)"
    using assms(1-3,5) len by (auto simp: driver_core_def finishing_legal_def nth_list_update)
  ultimately show ?thesis
    using assms(7) by (simp add: driver_core_def driver_wf_def edge_flow_def close_calls_def
        finishing_bound_def)
qed

lemma set_finishing_at_exact:
  assumes "exact d" and "0 < idx" and "idx < length (operators d)"
    and "set_finishing_at vt idx (d, p) = (r, d', p')"
  shows "case r of None \<Rightarrow> exact d' | Some _ \<Rightarrow> core d'"
proof -
  let ?o = "operators d ! idx"
  obtain res o1 where sf: "op_set_finishing vt ?o = (res, o1)" by fastforce
  note obs = set_finishing_obs [of ?o, unfolded sf snd_conv]
  show ?thesis
  proof (cases "operator_finishing_set d ! idx")
    case True
    with assms show ?thesis by (auto simp: set_finishing_at_def)
  next
    case False
    then have "fins o1 \<le> 1" using assms(1,3) obs(3) by (simp add: finishing_calls_def)
    with assms(1) obs have c: "core (set_operator idx o1 d)"
      by (intro core_set_operator) simp_all
    show ?thesis
    proof (cases "edge_closed d ! (idx - 1)")
      case True
      show ?thesis
        using assms False sf c exact_mark_finishing [OF assms(1-3) False True obs(3) c]
        by (auto simp: set_finishing_at_def Let_def split: if_splits sum.splits)
    next
      case False
      with assms show ?thesis by (auto simp: set_finishing_at_def split: if_splits)
    qed
  qed
qed

text \<open>The two data moves: an edge buffer is emptied into its sink, or filled from its source.\<close>

lemma exact_edge_move:
  assumes "exact d" and "e < length (edge_chunks d)" and "k < length (operators d)"
    and flow: "edge_flow inp outp (d\<lparr>operators := (operators d)[k := o'], edge_chunks := (edge_chunks d)[e := c], dmem := s'\<rparr>)"
    and "fins o' = fins (operators d ! k)" and "closes o' = closes (operators d ! k)"
  shows "exact ((set_operator k o' d)\<lparr>edge_chunks := (edge_chunks d)[e := c], dmem := s'\<rparr>)"
  using assms
  by (simp add: driver_core_def driver_wf_def close_calls_def finishing_legal_def
      finishing_bound_def finishing_calls_def nth_update_obs edge_flow_def)

lemma flow_push:
  assumes "edge_flow inp outp d" and "driver_wf d" and "e < length (edge_chunks d)"
    and "edge_chunks d ! e = Some c" and "chunk_data c' = chunk_data c"
    and "inp o' = inp (operators d ! Suc e) @ [chunk_data c']" and "outp o' = outp (operators d ! Suc e)"
  shows "edge_flow inp outp (d\<lparr>operators := (operators d)[Suc e := o'],
           edge_chunks := (edge_chunks d)[e := None], dmem := s'\<rparr>)"
  using assms by (auto simp: edge_flow_def driver_wf_def nth_list_update)

lemma flow_pull:
  assumes "edge_flow inp outp d" and "driver_wf d" and "e < length (edge_chunks d)"
    and "edge_chunks d ! e = None" and "chunk_data c' = chunk_data c"
    and "outp o' = outp (operators d ! e) @ [chunk_data c]" and "inp o' = inp (operators d ! e)"
  shows "edge_flow inp outp (d\<lparr>operators := (operators d)[e := o'],
           edge_chunks := (edge_chunks d)[e := Some c'], dmem := s'\<rparr>)"
  using assms by (auto simp: edge_flow_def driver_wf_def nth_list_update)

lemma push_edge_exact:
  assumes "exact d" and "e < length (edge_chunks d)"
  shows "exact (fst (snd (push_edge vt e (d, p))))"
proof (cases "edge_chunks d ! e")
  case None
  with assms show ?thesis by (simp add: push_edge_def)
next
  case (Some c)
  let ?o = "operators d ! Suc e"
  have k: "Suc e < length (operators d)"
    using assms by (simp add: driver_core_def driver_wf_def)
  obtain need o1 where n: "op_need_input vt ?o = (need, o1)" by fastforce
  let ?d1 = "set_operator (Suc e) o1 d"
  have d1: "exact ?d1" using exact_poll(1) [OF assms(1) k] by (simp add: n)
  obtain c' s' where ch: "charge_chunk (operator_mem_trackers d) (Suc e) c (dmem d) = (c', s')"
    by fastforce
  obtain res o2 where pu: "op_push_chunk vt o1 c' = (res, o2)" by fastforce
  have data: "chunk_data c' = chunk_data c" by (metis ch chunk_data_charge fst_conv)
  note obs = push_obs [of o1 c', unfolded pu snd_conv]
  have "edge_flow inp outp (?d1\<lparr>operators := (operators ?d1)[Suc e := o2],
      edge_chunks := (edge_chunks ?d1)[e := None], dmem := s'\<rparr>)"
    by (rule flow_push [where c = c]) (use d1 assms(2) Some data obs k in \<open>simp_all add: driver_core_def\<close>)
  from exact_edge_move [OF d1 _ _ this]
  have "exact ((set_operator (Suc e) o2 ?d1)\<lparr>edge_chunks := (edge_chunks d)[e := None], dmem := s'\<rparr>)"
    using assms(2) k obs by simp
  then show ?thesis
    using assms(1) Some k d1 n ch pu
    by (auto simp: push_edge_def Let_def split: sum.splits)
qed

lemma pull_edge_exact:
  assumes "exact d" and "e < length (edge_chunks d)"
  shows "exact (fst (snd (pull_edge vt e (d, p))))"
proof (cases "edge_chunks d ! e")
  case (Some c)
  with assms show ?thesis by (simp add: pull_edge_def)
next
  case None
  let ?up = "operators d ! e" and ?dn = "operators d ! Suc e"
  have k: "Suc e < length (operators d)"
    using assms by (simp add: driver_core_def driver_wf_def)
  obtain out up1 where ho: "op_has_output vt ?up = (out, up1)" by fastforce
  let ?d1 = "set_operator e up1 d"
  have d1: "exact ?d1" using exact_poll(2) [OF assms(1), of e] k by (simp add: ho)
  obtain need dn1 where ni: "op_need_input vt ?dn = (need, dn1)" by fastforce
  let ?d2 = "set_operator (Suc e) dn1 ?d1"
  have d2: "exact ?d2" using exact_poll(1) [OF d1, of "Suc e"] k by (simp add: ni)
  obtain res up2 where pl: "op_pull_chunk vt up1 = (res, up2)" by fastforce
  note obs = pull_obs [of up1, unfolded pl fst_conv snd_conv]
  have at: "operators ?d2 ! e = up1" using k by simp
  show ?thesis
  proof (cases "\<exists>c. res = Inr (Some c)")
    case True
    then obtain c where c: "res = Inr (Some c)" by blast
    obtain c' s' where ch: "charge_chunk (edge_mem_trackers d) e c (dmem d) = (c', s')" by fastforce
    have data: "chunk_data c' = chunk_data c" by (metis ch chunk_data_charge fst_conv)
    have "edge_flow inp outp (?d2\<lparr>operators := (operators ?d2)[e := up2],
        edge_chunks := (edge_chunks ?d2)[e := Some c'], dmem := s'\<rparr>)"
      by (rule flow_pull [where c = c])
        (use d2 assms(2) None data obs c at in \<open>simp_all add: driver_core_def\<close>)
    from exact_edge_move [OF d2 _ _ this]
    have "exact ((set_operator e up2 ?d2)\<lparr>edge_chunks := (edge_chunks d)[e := Some c'], dmem := s'\<rparr>)"
      using assms(2) k obs at by simp
    then show ?thesis
      using assms(1) None d1 d2 ho ni pl c ch by (simp add: pull_edge_def Let_def)
  next
    case False
    have "exact (set_operator e up2 ?d2)"
      by (rule exact_set_operator [OF d2]) (use False k obs at in \<open>auto split: sum.splits option.splits\<close>)
    then show ?thesis
      using assms(1) None d1 d2 ho ni pl False
      by (auto simp: pull_edge_def Let_def split: sum.splits option.splits)
  qed
qed

lemma core_edges: "core d \<Longrightarrow> length (edge_chunks d) = length (operators d) - 1"
  by (simp add: driver_core_def driver_wf_def)

lemma propagate_edge_closure_exact:
  assumes "exact d"
  shows "exact (fst (propagate_edge_closure vt (d, p)))"
proof -
  have "exact (fst (fold (propagate_edge vt) es ds))"
    if "exact (fst ds)" and "\<forall>e \<in> set es. e < length (edge_chunks (fst ds))" for es ds
    using that
  proof (induction es arbitrary: ds)
    case Nil
    then show ?case by simp
  next
    case (Cons e es)
    obtain d p where ds: "ds = (d, p)" by fastforce
    have "exact (fst (propagate_edge vt e (d, p))) \<and>
        length (edge_chunks (fst (propagate_edge vt e (d, p)))) = length (edge_chunks d)"
      using Cons.prems ds by (intro propagate_edge_exact) simp_all
    with Cons ds show ?case by simp
  qed
  then show ?thesis using assms by (simp add: propagate_edge_closure_def)
qed

text \<open>A loop over the edges whose body keeps the invariant keeps it, also when it stops early.\<close>

lemma for_each_edge_exact:
  fixes ds :: "('o, 'd) pass_state"
    and body :: "nat \<Rightarrow> ('o, 'd) pass_state \<Rightarrow> ('o, 'd) pass_result"
  assumes "exact (fst ds)" and "\<forall>e \<in> set es. e < length (edge_chunks (fst ds))"
    and body: "\<And>d p e. exact d \<Longrightarrow> e < length (edge_chunks d) \<Longrightarrow> exact (fst (snd (body e (d, p))))"
    and len: "\<And>ds e. length (operators (fst (snd (body e ds)))) = length (operators (fst ds))"
  shows "exact (fst (snd (for_each body es ds)))"
proof -
  let ?P = "\<lambda>s :: ('o, 'd) pass_state. exact (fst s) \<and> length (operators (fst s)) = length (operators (fst ds))"
  have "?P (snd (for_each body es ds))"
  proof (rule for_each_inv)
    show "?P ds" using assms(1) by simp
  next
    fix e s assume "e \<in> set es" and "?P s"
    then have "e < length (edge_chunks (fst s))" using assms(1,2) core_edges by simp
    with \<open>?P s\<close> body [of "fst s" e "snd s"] len [of e s] show "?P (snd (body e s))" by simp
  qed
  then show ?thesis by blast
qed

lemma drive_push_edges_exact:
  assumes "exact (fst ds)"
  shows "exact (fst (snd (drive_push_edges vt ds)))"
proof -
  have "exact (fst (snd (for_each (push_edge vt) (rev [0..<length (edge_chunks (fst ds))]) ds)))"
    by (rule for_each_edge_exact [OF assms])
      (simp_all add: length_operators_bodies push_edge_exact)
  then show ?thesis using assms by (simp add: drive_push_edges_def)
qed

lemma drive_pull_edges_exact:
  assumes "exact (fst ds)"
  shows "exact (fst (snd (drive_pull_edges vt ds)))"
proof -
  have "exact (fst (snd (for_each (pull_edge vt) [0..<length (edge_chunks (fst ds))] ds)))"
    by (rule for_each_edge_exact [OF assms])
      (simp_all add: length_operators_bodies pull_edge_exact)
  then show ?thesis using assms by (simp add: drive_pull_edges_def)
qed

lemma drive_dataflow_exact:
  assumes "exact (fst ds)"
  shows "exact (fst (snd (drive_dataflow vt ds)))"
proof -
  have "exact (fst (snd (for_each (\<lambda>f s. f vt s)
      [drive_push_edges, drive_pull_edges, drive_push_edges] ds)))"
    by (rule for_each_inv [where P = "\<lambda>s. exact (fst s)"])
      (auto simp: assms drive_push_edges_exact drive_pull_edges_exact)
  then show ?thesis using assms by (simp add: drive_dataflow_def)
qed

lemma drive_set_finishing_exact:
  assumes "exact (fst ds)"
  shows "case drive_set_finishing vt ds of (None, s) \<Rightarrow> exact (fst s) | (Some e, s) \<Rightarrow> core (fst s)"
proof -
  let ?P = "\<lambda>s :: ('o, 'd) pass_state. exact (fst s) \<and> length (operators (fst s)) = length (operators (fst ds))"
  have step: "case r of None \<Rightarrow> ?P s' | Some _ \<Rightarrow> core (fst s')"
    if "idx \<in> set [1..<length (operators (fst ds))]" and "?P s"
      and b: "set_finishing_at vt idx s = (r, s')" for idx s r s'
  proof -
    have "length (operators (fst s')) = length (operators (fst ds))"
      using length_operators_bodies(2) [of vt idx s] b that(2) by simp
    moreover have "case r of None \<Rightarrow> exact (fst s') | Some _ \<Rightarrow> core (fst s')"
      using set_finishing_at_exact [of "fst s" idx "snd s" r "fst s'" "snd s'"] that by auto
    ultimately show ?thesis by (cases r) auto
  qed
  have "case for_each (set_finishing_at vt) [1..<length (operators (fst ds))] ds of
      (None, s) \<Rightarrow> ?P s | (Some e, s) \<Rightarrow> core (fst s)"
    by (rule for_each_rule [where P = ?P and Q = "\<lambda>s. core (fst s)"])
      (use assms step in \<open>fastforce split: option.splits\<close>)+
  then show ?thesis
    using assms by (auto simp: drive_set_finishing_def split: prod.splits option.splits)
qed

lemma drive_once_core:
  assumes "exact d" and "drive_once vt d = (r, d', p)"
  shows "core d' \<and> (r = None \<longrightarrow> exact d')"
proof -
  have "exact (fst (propagate_edge_closure vt (d, False)))"
    by (rule propagate_edge_closure_exact [OF assms(1)])
  note sf = drive_set_finishing_exact [OF this]
  obtain r2 ds2 where ds2: "drive_set_finishing vt (propagate_edge_closure vt (d, False)) = (r2, ds2)"
    by (rule prod.exhaust)
  show ?thesis
  proof (cases r2)
    case None
    then have "exact (fst ds2)" using sf ds2 by simp
    from drive_dataflow_exact [OF this] show ?thesis
      using assms(2) ds2 None by (simp add: drive_once_def)
  next
    case (Some err)
    then show ?thesis using assms(2) sf ds2 by (auto simp: drive_once_def)
  qed
qed

lemma close_operators_inv:
  assumes "core d" and "\<not> closed d" and "\<forall>st. pending_finish_state d = Some st \<longrightarrow> is_terminal st"
  shows "driver_inv inp outp fins closes (close_operators vt d)"
proof -
  have "edge_prefix inp outp (close_operators vt d)"
    unfolding edge_prefix_def
  proof (intro allI impI)
    fix e assume "e < length (edge_chunks (close_operators vt d))"
    then have "e < length (edge_chunks d)" and "Suc e < length (operators d)"
      using assms(1,2) by (auto simp: close_operators_open release_edge_buffers_def driver_inv_defs)
    moreover have "length (buffered (edge_chunks d ! e)) \<le> 1" by (cases "edge_chunks d ! e") simp_all
    ultimately show "\<exists>dropped. length dropped \<le> 1 \<and> outp (operators (close_operators vt d) ! e) =
        inp (operators (close_operators vt d) ! Suc e) @ dropped"
      using assms(1,2)
      by (intro exI [of _ "buffered (edge_chunks d ! e)"])
        (simp add: close_operators_open release_edge_buffers_def close_obs driver_core_def edge_flow_def)
  qed
  then show ?thesis
    using assms
    by (auto simp: driver_inv_def close_operators_open release_edge_buffers_def close_obs
        driver_core_def driver_wf_def close_calls_def finishing_legal_def finishing_bound_def)
qed

lemma cancel_operators_core:
  "core d \<Longrightarrow> core (cancel_operators vt d)"
  "finishing_calls fins d \<Longrightarrow> finishing_calls fins (cancel_operators vt d)"
  by (auto simp: cancel_operators_def driver_inv_defs finishing_calls_def cancel_obs)

lemma core_status_update [simp]:
  "core (d\<lparr>dstate := st\<rparr>) = core d" "core (d\<lparr>pending_finish_state := x\<rparr>) = core d"
  "finishing_calls fins (d\<lparr>dstate := st\<rparr>) = finishing_calls fins d"
  "finishing_calls fins (d\<lparr>pending_finish_state := x\<rparr>) = finishing_calls fins d"
  by (simp_all add: driver_inv_defs finishing_calls_def)

lemma driver_inv_dstate [simp]:
  "driver_inv inp outp fins closes (d\<lparr>dstate := st\<rparr>) = driver_inv inp outp fins closes d"
  by (simp add: driver_inv_def driver_inv_defs finishing_calls_def edge_prefix_def)

lemma driver_inv_open:
  "\<not> closed d \<Longrightarrow> driver_inv inp outp fins closes d \<longleftrightarrow>
     core d \<and> (pending_finish_state d = None \<longrightarrow> finishing_calls fins d) \<and>
     (\<forall>st. pending_finish_state d = Some st \<longrightarrow> is_terminal st)"
  by (auto simp: driver_inv_def driver_core_def)

lemma finish_with_state_inv:
  assumes "core d" and "\<not> closed d" and "pending_finish_state d = None" and "is_terminal st"
  shows "driver_inv inp outp fins closes (snd (finish_with_state vt st d))"
proof -
  define d1 where "d1 = (case st of Canceled \<Rightarrow> cancel_operators vt d
                                  | Failed _ \<Rightarrow> cancel_operators vt d | _ \<Rightarrow> d)"
  have d1: "core d1" "\<not> closed d1" "pending_finish_state d1 = None"
    using assms cancel_operators_core(1) [of d]
    by (auto simp: d1_def cancel_operators_def split: driver_state.split)
  have "driver_inv inp outp fins closes (d1\<lparr>pending_finish_state := Some st, dstate := PendingFinish\<rparr>)"
    using d1 assms(4) by (subst driver_inv_open) simp_all
  moreover have "driver_inv inp outp fins closes ((close_operators vt d1)\<lparr>dstate := st\<rparr>)"
    using close_operators_inv [OF d1(1,2)] d1(3) by simp
  ultimately show ?thesis
    using assms(4) d1 by (simp add: finish_with_state_def flip: d1_def)
qed

lemma no_progress_outcome_inv:
  assumes "exact d" and "\<not> closed d" and "pending_finish_state d = None"
  shows "driver_inv inp outp fins closes (snd (no_progress_outcome vt d))"
proof -
  let ?P = "\<lambda>d. exact d \<and> \<not> closed d \<and> pending_finish_state d = None"
  have fin: "driver_inv inp outp fins closes (snd (finish_with_state vt (Failed err) d))" if "?P d" for err d
    by (rule finish_with_state_inv) (use that in \<open>simp_all add: is_terminal_def\<close>)
  have blk: "driver_inv inp outp fins closes (snd (block_or_fail r d))" if "?P d" for r d
    using that by (simp add: block_or_fail_def driver_inv_open)
  have src: "case blocks_on_source vt d of (Some out, _) \<Rightarrow> driver_inv inp outp fins closes (snd out)
                                        | (None, d') \<Rightarrow> ?P d'" if "?P d" for d
    using that exact_poll(2) [of d 0] fin [OF that]
    by (auto simp: blocks_on_source_def blk Let_def split: list.splits prod.splits if_splits)
  have snk: "case blocks_on_sink vt d of (Some out, _) \<Rightarrow> driver_inv inp outp fins closes (snd out)
                                        | (None, d') \<Rightarrow> ?P d'" if "?P d" for d
    using that exact_poll(1) [of d "length (operators d) - 1"] fin [OF that]
    by (auto simp: blocks_on_sink_def blk Let_def last_conv_nth split: prod.splits if_splits)
  have rdy: "driver_inv inp outp fins closes (snd (Ready, d\<lparr>dstate := Ready\<rparr>))" if "?P d" for d
    using that by (simp add: driver_inv_open)
  show ?thesis
    by (rule no_progress_cases [where P = ?P]) (use assms src snk rdy in auto)
qed

lemma process_loop_inv:
  assumes "exact d" and "\<not> closed d" and "pending_finish_state d = None"
    and "process_loop vt evs d = Some (st, d')"
  shows "driver_inv inp outp fins closes d'"
  using assms
proof (induction evs arbitrary: d)
  case (Cons ev evs)
  note d = Cons.prems(1-3)
  have fin: "driver_inv inp outp fins closes (snd (finish_with_state vt st' e))"
    if "is_terminal st'" "core e" "\<not> closed e" "pending_finish_state e = None" for st' e
    by (rule finish_with_state_inv) (use that in simp_all)
  obtain r d1 p where dr: "drive_once vt d = (r, d1, p)" by (metis prod.exhaust)
  have d1: "core d1" "r = None \<longrightarrow> exact d1" "\<not> closed d1" "pending_finish_state d1 = None"
    using drive_once_core [OF d(1) dr] drive_once_status [of vt d] d dr by simp_all
  note tm = is_terminal_def [of "Failed _", simplified] is_terminal_def [of Finished, simplified]
  consider (err) e where "rt_error ev = Some e"
    | (slice) "rt_error ev = None" "slice_over ev"
    | (fin) "rt_error ev = None" "\<not> slice_over ev" "is_finished vt d"
    | (dep) k where "rt_error ev = None" "\<not> slice_over ev" "\<not> is_finished vt d"
        "find_precondition_dependency vt (dep_ready ev) d = Some k"
    | (run) "rt_error ev = None" "\<not> slice_over ev" "\<not> is_finished vt d"
        "find_precondition_dependency vt (dep_ready ev) d = None"
    by fastforce
  then show ?case
  proof cases
    case err
    with Cons.prems(4) fin [of "Failed (RuntimeError e)" d] d show ?thesis by (simp add: tm)
  next
    case slice
    with Cons.prems show ?thesis by (auto simp: driver_inv_open)
  next
    case fin
    with Cons.prems(4) \<open>is_finished vt d\<close> finish_with_state_inv [of d Finished] d
    show ?thesis by (simp add: tm)
  next
    case dep
    with Cons.prems show ?thesis by (auto simp: block_or_fail_def driver_inv_open)
  next
    case run
    show ?thesis
    proof (cases r)
      case None
      then have e: "exact d1" using d1 by blast
      show ?thesis
        using Cons.IH [OF e d1(3,4)] no_progress_outcome_inv [OF e d1(3,4)] Cons.prems(4) run dr None
        by (auto split: if_splits)
    next
      case (Some err)
      with Cons.prems(4) run dr fin [of "Failed err" d1] d1 show ?thesis by (simp add: tm)
    qed
  qed
qed simp

lemma process_inner_inv:
  assumes "driver_inv inp outp fins closes d" and "\<not> closed d"
    and "process_inner vt evs d = Some (st, d')"
  shows "driver_inv inp outp fins closes d'"
proof (cases "pending_finish_state d")
  case None
  have "exact (d\<lparr>dstate := Running\<rparr>)" using assms(1,2) None by (simp add: driver_inv_open)
  from process_loop_inv [OF this] assms(2,3) None show ?thesis by (simp add: process_inner_def)
next
  case (Some final)
  have "core (d\<lparr>pending_finish_state := None\<rparr>)" "is_terminal final"
    using assms(1,2) Some by (simp_all add: driver_inv_open)
  from finish_with_state_inv [OF this(1) _ _ this(2)] assms Some
  show ?thesis by (auto simp: process_inner_def driver_inv_open split: if_splits)
qed

lemma check_is_ready_inv:
  assumes "driver_inv inp outp fins closes d" and "\<not> closed d" and "check_is_ready vt rdy d = (b, d')"
  shows "driver_inv inp outp fins closes d' \<and> closed d' = closed d"
proof -
  have poll: "driver_inv inp outp fins closes (set_operator i o' d)"
    if "i < length (operators d)" "inp o' = inp (operators d ! i)" "outp o' = outp (operators d ! i)"
      "fins o' = fins (operators d ! i)" "closes o' = closes (operators d ! i)" for i o'
    using assms(1,2) that core_fins_le [of d i]
    by (simp add: driver_inv_open core_set_operator finishing_calls_set_operator)
  have src: "driver_inv inp outp fins closes (snd (source_ready vt d)) \<and>
      closed (snd (source_ready vt d)) = closed d"
    using assms(1) poll [of 0 "snd (op_has_output vt (operators d ! 0))"]
    by (auto simp: source_ready_def Let_def has_output_obs split: list.splits prod.splits)
  have snk: "driver_inv inp outp fins closes (snd (sink_ready vt d)) \<and>
      closed (snd (sink_ready vt d)) = closed d"
    using assms(1) poll [of "length (operators d) - 1" "snd (op_need_input vt (last (operators d)))"]
    by (auto simp: sink_ready_def Let_def need_input_obs last_conv_nth split: prod.splits)
  show ?thesis
    using assms(1,3) src snk
    by (auto simp: check_is_ready_def Let_def split: driver_state.splits blocked_reason.splits prod.splits)
qed

lemma drop_driver_inv:
  assumes "driver_inv inp outp fins closes d"
  shows "driver_inv inp outp fins closes (drop_driver vt d)"
proof (cases "closed d")
  case True
  with assms show ?thesis by (simp add: drop_driver_def close_operators_def)
next
  case False
  with assms close_operators_inv [of d] show ?thesis by (simp add: drop_driver_def driver_inv_open)
qed

end

subsection \<open>Operators with a record of their calls\<close>

text \<open>
  Any operator can be observed by writing down the calls made to it. \<open>traced_vt\<close> wraps an
  arbitrary method table this way and meets the contract, so the guarantees hold for drivers
  over every implementation of the operator interface.
\<close>

record ('o, 'd) traced =
  traced_op :: 'o
  t_in :: "'d list"
  t_out :: "'d list"
  t_fins :: nat
  t_closes :: nat

definition untouched :: "'o \<Rightarrow> ('o, 'd) traced" where
  "untouched o' = \<lparr>traced_op = o', t_in = [], t_out = [], t_fins = 0, t_closes = 0\<rparr>"

definition traced_vt :: "('o, 'd) operator_vt \<Rightarrow> (('o, 'd) traced, 'd) operator_vt" where
  "traced_vt vt =
     \<lparr>op_name = (\<lambda>t. op_name vt (traced_op t)),
      op_is_finished = (\<lambda>t. op_is_finished vt (traced_op t)),
      op_pending_finish = (\<lambda>t. op_pending_finish vt (traced_op t)),
      op_is_processor = (\<lambda>t. op_is_processor vt (traced_op t)),
      op_precondition = (\<lambda>t. op_precondition vt (traced_op t)),
      op_need_input = (\<lambda>t. let (b, o1) = op_need_input vt (traced_op t) in (b, t\<lparr>traced_op := o1\<rparr>)),
      op_has_output = (\<lambda>t. let (b, o1) = op_has_output vt (traced_op t) in (b, t\<lparr>traced_op := o1\<rparr>)),
      op_push_chunk = (\<lambda>t c. let (r, o1) = op_push_chunk vt (traced_op t) c
         in (r, t\<lparr>traced_op := o1, t_in := t_in t @ [chunk_data c]\<rparr>)),
      op_pull_chunk = (\<lambda>t. let (r, o1) = op_pull_chunk vt (traced_op t)
         in (r, t\<lparr>traced_op := o1,
               t_out := t_out t @ (case r of Inr (Some c) \<Rightarrow> [chunk_data c] | _ \<Rightarrow> [])\<rparr>)),
      op_set_finishing = (\<lambda>t. let (r, o1) = op_set_finishing vt (traced_op t)
         in (r, t\<lparr>traced_op := o1, t_fins := Suc (t_fins t)\<rparr>)),
      op_cancel = (\<lambda>t. t\<lparr>traced_op := op_cancel vt (traced_op t)\<rparr>),
      op_close = (\<lambda>t. let (r, o1) = op_close vt (traced_op t)
         in (r, t\<lparr>traced_op := o1, t_closes := Suc (t_closes t)\<rparr>))\<rparr>"

interpretation tr: operator_contract "traced_vt vt" t_in t_out t_fins t_closes
  for vt :: "('o, 'd) operator_vt"
  by unfold_locales (simp_all add: traced_vt_def split: prod.splits)

subsection \<open>The life of a driver\<close>

text \<open>
  The calls the executor and the schedulers make on a driver. A closed driver is only dropped:
  the worker hands a terminal driver to the fragment's completion and never runs it again.
\<close>

datatype driver_call =
    Process "loop_env list"
  | CheckIsReady "nat \<Rightarrow> bool"
  | SetReady
  | DropDriver

definition driver_step ::
  "('o, 'd) operator_vt \<Rightarrow> driver_call \<Rightarrow> ('o, 'd) driver \<Rightarrow> ('o, 'd) driver" where
  "driver_step vt call d =
     (case call of
        Process evs \<Rightarrow>
          (if closed d then d
           else case process_inner vt evs d of None \<Rightarrow> d | Some (_, d') \<Rightarrow> d')
      | CheckIsReady rdy \<Rightarrow> (if closed d then d else snd (check_is_ready vt rdy d))
      | SetReady \<Rightarrow> set_ready d
      | DropDriver \<Rightarrow> drop_driver vt d)"

definition fresh_driver :: "('o, 'd) operator_vt \<Rightarrow> (('o, 'd) traced, 'd) driver \<Rightarrow> bool" where
  "fresh_driver vt d \<longleftrightarrow>
     (\<exists>did ops fid mr s. d = new_driver (traced_vt vt) did (map untouched ops) fid mr s)"

lemma new_driver_fields:
  "operators (new_driver vt did ops fid mr s) = ops"
  "edge_chunks (new_driver vt did ops fid mr s) = replicate (length ops - 1) None"
  "operator_finishing_set (new_driver vt did ops fid mr s) = replicate (length ops) False"
  "closed (new_driver vt did ops fid mr s) = False"
  "pending_finish_state (new_driver vt did ops fid mr s) = None"
  by (simp_all add: new_driver_def Let_def split: prod.splits)

interpretation driver_life: request_machine "fresh_driver vt" "driver_step (traced_vt vt)"
  "driver_inv t_in t_out t_fins t_closes"
  for vt :: "('o, 'd) operator_vt"
proof unfold_locales
  fix d :: "(('o, 'd) traced, 'd) driver"
  assume "fresh_driver vt d"
  then show "driver_inv t_in t_out t_fins t_closes d"
    by (auto simp: fresh_driver_def driver_inv_def new_driver_wf new_driver_fields close_calls_def
        finishing_legal_def finishing_bound_def edge_flow_def finishing_calls_def untouched_def)
next
  fix d :: "(('o, 'd) traced, 'd) driver" and call
  assume "driver_inv t_in t_out t_fins t_closes d"
  then show "driver_inv t_in t_out t_fins t_closes (driver_step (traced_vt vt) call d)"
    using tr.process_inner_inv [of d vt] tr.drop_driver_inv [of d vt]
      tr.check_is_ready_inv [of d vt, OF _ _ prod.collapse [symmetric]]
    by (auto simp: driver_step_def set_ready_def split: driver_call.split option.split)
qed

text \<open>
  (C2) Whatever the operators do and in whatever order the driver is run, polled, re-armed and
  dropped: on every edge the chunks taken from the upstream operator are, in order, the chunks
  given to the downstream operator followed by the one still buffered; only closing may discard
  that last one, and a closed driver holds no chunk. No operator is told to finish twice, none
  before its input edge is closed, the source never; every operator is closed exactly once, and
  only when the driver closes.
\<close>

theorem driver_conserves_chunks:
  "driver_inv t_in t_out t_fins t_closes
     (fold (driver_step (traced_vt vt)) calls
        (new_driver (traced_vt vt) did (map untouched ops) fid mem_root s))"
  by (rule driver_life.inv_run) (unfold fresh_driver_def, blast)

subsection \<open>What a result of the driver means\<close>

text \<open>Every return is the return of one iteration, reached by iterations that made progress.\<close>

definition progresses :: "('o, 'd) operator_vt \<Rightarrow> ('o, 'd) driver \<Rightarrow> ('o, 'd) driver \<Rightarrow> bool" where
  "progresses vt d d' \<longleftrightarrow> drive_once vt d = (None, d', True)"

lemma process_loop_exit:
  assumes "process_loop vt evs d = Some out"
  obtains e ev where "(progresses vt)\<^sup>*\<^sup>* d e" and "ev \<in> set evs" and "process_loop vt [ev] e = Some out"
  using assms
proof (induction evs arbitrary: d thesis)
  case (Cons ev evs)
  show ?case
  proof (cases "process_loop vt [ev] d")
    case None
    then obtain d1 where d1: "drive_once vt d = (None, d1, True)" "process_loop vt evs d1 = Some out"
      using Cons.prems(2)
      by (auto split: option.splits if_splits prod.splits)
    from Cons.IH [OF _ d1(2)] obtain e ev' where "(progresses vt)\<^sup>*\<^sup>* d1 e" "ev' \<in> set evs"
      "process_loop vt [ev'] e = Some out" by blast
    moreover have "progresses vt d d1" using d1(1) by (simp add: progresses_def)
    ultimately show ?thesis
      by (intro Cons.prems(1) [of e ev']) (auto intro: converse_rtranclp_into_rtranclp)
  next
    case (Some out')
    then have "out' = out"
      using Cons.prems(2) by (auto split: option.splits if_splits prod.splits)
    with Some show ?thesis by (intro Cons.prems(1) [of d ev]) simp_all
  qed
qed simp

text \<open>An invariant of the progressing iterations holds where the loop is left.\<close>

lemma progresses_status:
  "(progresses vt)\<^sup>*\<^sup>* d e \<Longrightarrow> closed e = closed d \<and> pending_finish_state e = pending_finish_state d"
proof (induction rule: rtranclp_induct)
  case (step e e')
  then show ?case
    using drive_once_status [of vt e] by (auto simp: progresses_def)
qed simp

definition result_sound :: "('o, 'd) operator_vt \<Rightarrow> driver_state \<times> ('o, 'd) driver \<Rightarrow> bool" where
  "result_sound vt res \<longleftrightarrow>
     (case res of (r, d') \<Rightarrow>
        dstate d' = r \<and> r \<noteq> Running \<and> (closed d' \<longleftrightarrow> is_terminal r) \<and>
        (r = PendingFinish \<longleftrightarrow> pending_finish_state d' \<noteq> None) \<and>
        (r = PendingFinish \<longrightarrow> has_pending_finish vt d'))"

lemma finish_with_state_sound:
  assumes "is_terminal st" and "\<not> closed d" and "pending_finish_state d = None"
  shows "result_sound vt (finish_with_state vt st d)"
proof -
  define d1 where "d1 = (case st of Canceled \<Rightarrow> cancel_operators vt d
                                  | Failed _ \<Rightarrow> cancel_operators vt d | _ \<Rightarrow> d)"
  have "\<not> closed d1" "pending_finish_state d1 = None"
    using assms by (auto simp: d1_def cancel_operators_def split: driver_state.split)
  moreover have "has_pending_finish vt (d1\<lparr>pending_finish_state := x, dstate := y\<rparr>) = has_pending_finish vt d1" for x y
    by (simp add: has_pending_finish_def)
  ultimately show ?thesis
    using assms
    by (auto simp: finish_with_state_def result_sound_def is_terminal_def close_operators_open
        release_edge_buffers_def simp flip: d1_def)
qed

lemma block_or_fail_sound:
  "\<not> closed d \<Longrightarrow> pending_finish_state d = None \<Longrightarrow> result_sound vt (block_or_fail r d)"
  by (simp add: block_or_fail_def result_sound_def is_terminal_def)

lemma terminal_simps [simp]: "is_terminal (Failed err)" "is_terminal Finished"
  by (simp_all add: is_terminal_def)

lemma no_progress_outcome_sound:
  assumes "\<not> closed d" and "pending_finish_state d = None"
  shows "result_sound vt (no_progress_outcome vt d)"
proof -
  have src: "case blocks_on_source vt e of (Some out, _) \<Rightarrow> result_sound vt out
        | (None, e') \<Rightarrow> \<not> closed e' \<and> pending_finish_state e' = None"
    if "\<not> closed e" "pending_finish_state e = None" for e
    using that
    by (auto simp: blocks_on_source_def Let_def finish_with_state_sound block_or_fail_sound
        split: list.splits prod.splits if_splits)
  have snk: "case blocks_on_sink vt e of (Some out, _) \<Rightarrow> result_sound vt out
        | (None, e') \<Rightarrow> \<not> closed e' \<and> pending_finish_state e' = None"
    if "\<not> closed e" "pending_finish_state e = None" for e
    using that
    by (auto simp: blocks_on_sink_def Let_def finish_with_state_sound block_or_fail_sound
        split: prod.splits if_splits)
  have rdy: "result_sound vt (Ready, e\<lparr>dstate := Ready\<rparr>)"
    if "\<not> closed e" "pending_finish_state e = None" for e
    using that by (simp add: result_sound_def is_terminal_def)
  show ?thesis
    by (rule no_progress_cases [where P = "\<lambda>e. \<not> closed e \<and> pending_finish_state e = None"])
      (use assms src snk rdy in auto)
qed

lemma process_inner_sound:
  assumes "\<not> closed d" and "\<forall>st. pending_finish_state d = Some st \<longrightarrow> is_terminal st"
    and "process_inner vt evs d = Some out"
  shows "result_sound vt out"
proof (cases "pending_finish_state d")
  case None
  let ?d = "d\<lparr>dstate := Running\<rparr>"
  have "process_loop vt evs ?d = Some out" using assms(3) None by (simp add: process_inner_def)
  then obtain e ev where e: "(progresses vt)\<^sup>*\<^sup>* ?d e" "process_loop vt [ev] e = Some out"
    by (rule process_loop_exit)
  have st: "\<not> closed e" "pending_finish_state e = None"
    using progresses_status [OF e(1)] assms(1) None by simp_all
  obtain r e1 p where dr: "drive_once vt e = (r, e1, p)" by (metis prod.exhaust)
  have st1: "\<not> closed e1" "pending_finish_state e1 = None"
    using drive_once_status [of vt e] st dr by simp_all
  have "result_sound vt (Ready, e\<lparr>dstate := Ready\<rparr>)"
    using st by (simp add: result_sound_def is_terminal_def)
  then show ?thesis
    using e(2) dr finish_with_state_sound [OF _ st, of _ vt] finish_with_state_sound [OF _ st1, of _ vt]
      block_or_fail_sound [OF st] no_progress_outcome_sound [OF st1]
    by (auto split: option.splits if_splits)
next
  case (Some final)
  have "has_pending_finish vt (d\<lparr>dstate := PendingFinish\<rparr>) = has_pending_finish vt d"
    by (simp add: has_pending_finish_def)
  with Some assms finish_with_state_sound [of final "d\<lparr>pending_finish_state := None\<rparr>" vt]
  show ?thesis
    by (auto simp: process_inner_def result_sound_def is_terminal_def split: if_splits)
qed

subsection \<open>When the driver blocks\<close>

text \<open>The poll that made the driver give up: what it waits for was really missing.\<close>

definition source_empty :: "('o, 'd) operator_vt \<Rightarrow> ('o, 'd) driver \<Rightarrow> bool" where
  "source_empty vt d \<longleftrightarrow>
     (\<exists>src. operators d \<noteq> [] \<and> hd (operators d) = snd (op_has_output vt src) \<and>
        \<not> op_is_finished vt src \<and> op_is_processor vt src \<and> \<not> fst (op_has_output vt src))"

definition sink_full :: "('o, 'd) operator_vt \<Rightarrow> ('o, 'd) driver \<Rightarrow> bool" where
  "sink_full vt d \<longleftrightarrow>
     (\<exists>snk. operators d \<noteq> [] \<and> last (operators d) = snd (op_need_input vt snk) \<and>
        \<not> op_is_finished vt snk \<and> op_is_processor vt snk \<and> \<not> fst (op_need_input vt snk))"

definition dependency_missing ::
  "('o, 'd) operator_vt \<Rightarrow> (nat \<Rightarrow> bool) \<Rightarrow> nat \<Rightarrow> ('o, 'd) driver \<Rightarrow> bool" where
  "dependency_missing vt rdy dep d \<longleftrightarrow>
     \<not> rdy dep \<and> (\<exists>o' \<in> set (operators d). \<not> op_is_finished vt o' \<and> op_is_processor vt o' \<and>
        op_precondition vt o' = Some dep)"

definition block_justified ::
  "('o, 'd) operator_vt \<Rightarrow> loop_env list \<Rightarrow> driver_state \<times> ('o, 'd) driver \<Rightarrow> bool" where
  "block_justified vt evs out \<longleftrightarrow>
     (case out of
        (Blocked InputEmpty, d') \<Rightarrow> source_empty vt d'
      | (Blocked OutputFull, d') \<Rightarrow> sink_full vt d'
      | (Blocked (Dependency dep), d') \<Rightarrow> (\<exists>ev \<in> set evs. dependency_missing vt (dep_ready ev) dep d')
      | _ \<Rightarrow> True)"

lemma find_precondition_Some_iff:
  "find_precondition vt rdy os = Some dep \<longleftrightarrow>
     (\<exists>i < length os.
        \<not> op_is_finished vt (os ! i) \<and> op_is_processor vt (os ! i) \<and>
        op_precondition vt (os ! i) = Some dep \<and> \<not> rdy dep \<and>
        (\<forall>j < i. op_is_finished vt (os ! j) \<or>
           (op_is_processor vt (os ! j) \<and> (\<exists>k. op_precondition vt (os ! j) = Some k \<and> rdy k))))"
proof (induction os)
  case (Cons o' os)
  show ?case
    by (simp add: Cons.IH Ex_less_Suc2 All_less_Suc2 split: option.splits) blast
qed simp

lemma finish_with_state_justified: "is_terminal st \<Longrightarrow> block_justified vt evs (finish_with_state vt st d)"
  by (cases st) (simp_all add: finish_with_state_def block_justified_def Let_def is_terminal_def)

lemma blocks_on_source_justified:
  "fst (blocks_on_source vt d) = Some out \<Longrightarrow> block_justified vt evs out"
proof (cases "operators d")
  case (Cons src os)
  assume "fst (blocks_on_source vt d) = Some out"
  moreover have "source_empty vt (set_operator 0 (snd (op_has_output vt src)) d\<lparr>dstate := st\<rparr>)"
    if "\<not> op_is_finished vt src" "op_is_processor vt src" "\<not> fst (op_has_output vt src)" for st
    unfolding source_empty_def by (rule exI [of _ src]) (use that Cons in simp)
  ultimately show ?thesis
    using Cons finish_with_state_justified [of "Failed SourceMissingProcessor" vt evs d]
    by (auto simp: blocks_on_source_def block_or_fail_def block_justified_def Let_def
        split: if_splits prod.splits)
qed (simp add: blocks_on_source_def)

lemma blocks_on_sink_justified:
  "fst (blocks_on_sink vt d) = Some out \<Longrightarrow> block_justified vt evs out"
proof (cases "operators d = []")
  case False
  let ?snk = "last (operators d)"
  assume "fst (blocks_on_sink vt d) = Some out"
  moreover have "sink_full vt (set_operator (length (operators d) - 1) (snd (op_need_input vt ?snk)) d\<lparr>dstate := st\<rparr>)"
    if "\<not> op_is_finished vt ?snk" "op_is_processor vt ?snk" "\<not> fst (op_need_input vt ?snk)" for st
    unfolding sink_full_def
    by (rule exI [of _ ?snk]) (use that False in \<open>simp add: last_list_update\<close>)
  ultimately show ?thesis
    using False finish_with_state_justified [of "Failed SinkMissingProcessor" vt evs d]
    by (auto simp: blocks_on_sink_def block_or_fail_def block_justified_def Let_def
        split: if_splits prod.splits)
qed (simp add: blocks_on_sink_def)

lemma no_progress_outcome_justified: "block_justified vt evs (no_progress_outcome vt d)"
proof (rule no_progress_cases [where P = "\<lambda>_. True"])
  fix e
  show "case blocks_on_source vt e of (None, e') \<Rightarrow> True | (Some out, x) \<Rightarrow> block_justified vt evs out"
    using blocks_on_source_justified [of vt e] by (auto split: prod.splits option.splits)
  show "case blocks_on_sink vt e of (None, e') \<Rightarrow> True | (Some out, x) \<Rightarrow> block_justified vt evs out"
    using blocks_on_sink_justified [of vt e] by (auto split: prod.splits option.splits)
qed (simp_all add: block_justified_def)

lemma process_inner_justified:
  assumes "\<forall>st. pending_finish_state d = Some st \<longrightarrow> is_terminal st"
    and "process_inner vt evs d = Some out"
  shows "block_justified vt evs out"
proof (cases "pending_finish_state d")
  case (Some final)
  have "block_justified vt evs (PendingFinish, d\<lparr>dstate := PendingFinish\<rparr>)"
    by (simp add: block_justified_def)
  with Some assms finish_with_state_justified show ?thesis
    by (auto simp: process_inner_def split: if_splits)
next
  case None
  then have "process_loop vt evs (d\<lparr>dstate := Running\<rparr>) = Some out"
    using assms by (simp add: process_inner_def)
  then obtain e ev where e: "ev \<in> set evs" "process_loop vt [ev] e = Some out"
    by (rule process_loop_exit)
  have dep: "block_justified vt evs (block_or_fail (Dependency k) e)"
    if "find_precondition_dependency vt (dep_ready ev) e = Some k" for k
    using that e(1)
    by (auto simp: find_precondition_dependency_def find_precondition_Some_iff block_or_fail_def
        block_justified_def dependency_missing_def)
  have "block_justified vt evs (Ready, e\<lparr>dstate := Ready\<rparr>)" by (simp add: block_justified_def)
  then show ?thesis
    using e(2) dep
    by (auto simp: finish_with_state_justified no_progress_outcome_justified
        split: option.splits if_splits prod.splits)
qed

lemma process_inner_returns:
  assumes "\<exists>ev \<in> set evs. slice_over ev \<or> rt_error ev \<noteq> None"
  shows "\<exists>out. process_inner vt evs d = Some out"
proof -
  have "process_loop vt evs e \<noteq> None" for e
    using assms
  proof (induction evs arbitrary: e)
    case (Cons ev evs)
    show ?case
    proof (cases "slice_over ev \<or> rt_error ev \<noteq> None")
      case True
      then show ?thesis by (auto split: option.splits)
    next
      case False
      then have "process_loop vt evs e' \<noteq> None" for e' using Cons by simp
      with False show ?thesis by (simp split: option.splits prod.splits)
    qed
  qed simp
  then show ?thesis by (auto simp: process_inner_def split: option.splits)
qed

subsection \<open>Properties\<close>

text \<open>
  A pass-through stage, for evaluating drivers: it queues what is pushed, gives it out again
  unless it is the sink, which takes \<open>room\<close> chunks, and is finished once told and drained.
\<close>

record stage =
  queue :: "nat chunk list"
  told :: bool
  is_sink :: bool
  room :: nat
  waits_for :: "nat option"
  busy :: bool

definition stage_vt :: "(stage, nat) operator_vt" where
  "stage_vt =
     \<lparr>op_name = (\<lambda>_. ''stage''),
      op_is_finished = (\<lambda>s. told s \<and> (is_sink s \<or> queue s = [])),
      op_pending_finish = busy,
      op_is_processor = (\<lambda>_. True),
      op_precondition = waits_for,
      op_need_input = (\<lambda>s. (\<not> told s \<and> length (queue s) < room s, s)),
      op_has_output = (\<lambda>s. (\<not> is_sink s \<and> queue s \<noteq> [], s)),
      op_push_chunk = (\<lambda>s c. (Inr (), s\<lparr>queue := queue s @ [c]\<rparr>)),
      op_pull_chunk = (\<lambda>s. case queue s of [] \<Rightarrow> (Inr None, s) | c # q \<Rightarrow> (Inr (Some c), s\<lparr>queue := q\<rparr>)),
      op_set_finishing = (\<lambda>s. (Inr (), s\<lparr>told := True\<rparr>)),
      op_cancel = (\<lambda>s. s\<lparr>queue := []\<rparr>),
      op_close = (\<lambda>s. (Inr (), s))\<rparr>"

definition plain_chunk :: "nat \<Rightarrow> nat chunk" where
  "plain_chunk n = \<lparr>chunk_data = n, chunk_rows = 1, chunk_bytes = 8, chunk_acct = None\<rparr>"

definition example_driver :: "nat list \<Rightarrow> nat \<Rightarrow> nat option \<Rightarrow> bool \<Rightarrow> (stage, nat) driver" where
  "example_driver xs cap dep bsy =
     new_driver stage_vt 0
       [\<lparr>queue = map plain_chunk xs, told = True, is_sink = False, room = 0, waits_for = dep, busy = bsy\<rparr>,
        \<lparr>queue = [], told = False, is_sink = True, room = cap, waits_for = None, busy = False\<rparr>]
       None None empty_mem_store"

definition quiet_env :: loop_env where
  "quiet_env = \<lparr>rt_error = None, slice_over = False, dep_ready = (\<lambda>_. False)\<rparr>"

text \<open>
  (C3) The state \<open>process\<close> returns is the state the driver is left in. The driver is closed
  exactly when that state is terminal, it never returns \<open>Running\<close>, and it returns
  \<open>PendingFinish\<close> exactly when a final state is kept for later, with some operator still pending.
\<close>

theorem driver_result_sound:
  assumes "\<not> closed d" and "\<forall>st. pending_finish_state d = Some st \<longrightarrow> is_terminal st"
    and "process_inner vt evs d = Some (r, d')"
  shows "dstate d' = r \<and> r \<noteq> Running \<and> (closed d' \<longleftrightarrow> is_terminal r) \<and>
    (r = PendingFinish \<longleftrightarrow> pending_finish_state d' \<noteq> None) \<and>
    (r = PendingFinish \<longrightarrow> has_pending_finish vt d')"
  using process_inner_sound [OF assms] by (simp add: result_sound_def)

lemma example_pending:
  "map_option fst (process_inner stage_vt (replicate 9 quiet_env) (example_driver [1, 2] 5 None True)) =
     Some PendingFinish"
  by code_simp

lemma example_driver_open:
  "\<not> closed (example_driver xs cap dep bsy) \<and> pending_finish_state (example_driver xs cap dep bsy) = None"
  by (simp add: example_driver_def new_driver_fields)

theorem driver_result_sound_witness:
  "\<exists>d'. process_inner stage_vt (replicate 9 quiet_env) (example_driver [1, 2] 5 None True) =
     Some (PendingFinish, d') \<and> \<not> closed d' \<and> has_pending_finish stage_vt d'"
proof -
  obtain d' where "process_inner stage_vt (replicate 9 quiet_env) (example_driver [1, 2] 5 None True) =
     Some (PendingFinish, d')"
    using example_pending by auto
  with driver_result_sound [OF _ _ this] example_driver_open show ?thesis
    by (auto simp: is_terminal_def)
qed

text \<open>
  (C4) A time slice ends: as soon as one iteration sees the slice used up or an error of the
  fragment, the call returns, whatever the operators do and however much progress they make.
\<close>

theorem driver_returns:
  assumes "\<exists>ev \<in> set evs. slice_over ev \<or> rt_error ev \<noteq> None"
  shows "\<exists>r d'. process_inner vt evs d = Some (r, d')"
  using process_inner_returns [OF assms, of vt d] by auto

theorem driver_returns_witness:
  "\<exists>r d'. process_inner stage_vt [quiet_env, quiet_env\<lparr>slice_over := True\<rparr>]
     (example_driver [1, 2] 5 None False) = Some (r, d')"
  by (rule driver_returns) simp

text \<open>
  (C5) When the driver blocks, what it waits for is missing: on \<open>InputEmpty\<close> the source is an
  unfinished processor whose last poll had no output, on \<open>OutputFull\<close> the sink is one whose last
  poll wanted no input, on a dependency an unfinished operator names it and it is not ready.
\<close>

theorem driver_blocks_justified:
  assumes "\<forall>st. pending_finish_state d = Some st \<longrightarrow> is_terminal st"
    and "process_inner vt evs d = Some (Blocked reason, d')"
  shows "case reason of
      InputEmpty \<Rightarrow> source_empty vt d'
    | OutputFull \<Rightarrow> sink_full vt d'
    | Dependency dep \<Rightarrow> \<exists>ev \<in> set evs. dependency_missing vt (dep_ready ev) dep d'"
  using process_inner_justified [OF assms] by (simp add: block_justified_def split: blocked_reason.splits)

lemma example_blocked:
  "map_option fst (process_inner stage_vt (replicate 9 quiet_env) (example_driver [1, 2] 1 None False)) =
     Some (Blocked OutputFull)"
  by code_simp

theorem driver_blocks_justified_witness:
  "\<exists>d'. process_inner stage_vt (replicate 9 quiet_env) (example_driver [1, 2] 1 None False) =
     Some (Blocked OutputFull, d') \<and> sink_full stage_vt d'"
proof -
  obtain d' where "process_inner stage_vt (replicate 9 quiet_env) (example_driver [1, 2] 1 None False) =
     Some (Blocked OutputFull, d')"
    using example_blocked by auto
  with driver_blocks_justified [OF _ this] example_driver_open show ?thesis by auto
qed

text \<open>
  (C6) The dependency the driver waits for is the one of the first operator that is neither
  finished nor a processor with a ready dependency, and only if that operator has one. An
  unfinished operator without a precondition therefore hides every unready dependency behind it.
\<close>

theorem find_precondition_exact:
  "find_precondition_dependency vt rdy d =
     (case dropWhile (\<lambda>o'. op_is_finished vt o' \<or>
             (op_is_processor vt o' \<and> (case op_precondition vt o' of None \<Rightarrow> False | Some k \<Rightarrow> rdy k)))
         (operators d) of
        [] \<Rightarrow> None
      | o' # _ \<Rightarrow> if op_is_processor vt o' then op_precondition vt o' else None)"
proof -
  have "find_precondition vt rdy os =
     (case dropWhile (\<lambda>o'. op_is_finished vt o' \<or>
             (op_is_processor vt o' \<and> (case op_precondition vt o' of None \<Rightarrow> False | Some k \<Rightarrow> rdy k))) os of
        [] \<Rightarrow> None | o' # _ \<Rightarrow> if op_is_processor vt o' then op_precondition vt o' else None)" for os
    by (induction os) (auto split: option.splits)
  then show ?thesis by (simp add: find_precondition_dependency_def)
qed





end
