(* ===== verification/Driver_Scheduler.thy ===== *)
theory Driver_Scheduler
  imports Pipeline_Driver "HOL-Library.Multiset"
begin

text \<open>
  Scheduling of drivers: \<open>src/src/exec/pipeline/dependency.rs\<close>, \<open>schedule/observer.rs\<close>,
  \<open>schedule/event_scheduler.rs\<close>, \<open>blocked_driver_poller.rs\<close>, \<open>global_driver_executor.rs\<close> and the
  status part of \<open>fragment_context.rs\<close>. The code is concurrent: every operation is cut where it
  takes a lock or touches an atomic, each piece is a definition, and the relation \<open>sys_step\<close> runs
  the pieces of all threads in any order. Thread-local positions are part of the state: the
  worker that holds a task, the scheduler thread between two critical sections, a thread that is
  parking a driver, notifying an observer or failing the fragment.
\<close>

subsection \<open>Tasks and the shared state\<close>

text \<open>
  What a task asks its driver: \<open>ready_now\<close> is the check of a driver blocked on its source or sink,
  \<open>pending_finish_now\<close> and \<open>has_observable\<close> are the methods of the same names. They read operator
  state that other threads change, hence the environment.
\<close>

record ('env, 'd) task_ops =
  ready_now :: "'env \<Rightarrow> 'd \<Rightarrow> blocked_reason \<Rightarrow> bool"
  pending_finish_now :: "'env \<Rightarrow> 'd \<Rightarrow> bool"
  has_observable :: "'d \<Rightarrow> blocked_reason \<Rightarrow> bool"

record 'd task =
  task_key :: nat
  task_driver :: 'd
  task_state :: driver_state

datatype worker_pc = WTaken | WRun | WRan | WPark
datatype park_pc = PMark | PReady | PAdd | PRecheck | PEnqueue
datatype observer_pc = OIdle | OUpdate | OEnqueue | OSub
datatype fail_pc = FStatus | FCancel | FCollect | FPush "nat list" | FAbort
datatype 'd scheduler_pc = SIdle | STaken "'d task" | SChecked "'d task" | SReady "'d task" | SPut "'d task"

record ('env, 'd) sys =
  shared_env :: 'env
  exec_queue :: "'d task list"
  workers :: "('d task \<times> worker_pc) multiset"
  blocked_tasks :: "nat \<rightharpoonup> 'd task"
  reschedule_queue :: "nat list"
  sched_shutdown :: bool
  sched_thread :: "'d scheduler_pc"
  in_blocked :: "nat \<Rightarrow> bool"
  need_check_reschedule :: "nat \<Rightarrow> bool"
  parkers :: "(nat \<times> nat option \<times> park_pc) multiset"
  obs_notifying :: "nat multiset"
  obs_pending :: "nat \<Rightarrow> nat"
  obs_pc :: "nat \<Rightarrow> observer_pc"
  dep_ready :: "nat \<Rightarrow> bool"
  dep_waiters :: "nat \<Rightarrow> nat list"
  dep_notifying :: "nat multiset"
  closures :: "nat multiset"
  poller_tasks :: "('d task \<times> nat) list"
  poll_out :: "'d task list"
  finishing :: "'d task multiset"
  failers :: "(string \<times> fail_pc \<times> 'd task option) multiset"
  remaining :: nat
  aborting :: bool
  completion_error :: "string option"
  final_error :: "string option"
  fragment_cancelled :: bool

definition task_pending_finish :: "('env, 'd) task_ops \<Rightarrow> ('env, 'd) sys \<Rightarrow> 'd task \<Rightarrow> bool" where
  "task_pending_finish ops s t = pending_finish_now ops (shared_env s) (task_driver t)"

definition should_abort_immediately :: "('env, 'd) task_ops \<Rightarrow> ('env, 'd) sys \<Rightarrow> 'd task \<Rightarrow> bool" where
  "should_abort_immediately ops s t \<longleftrightarrow> aborting s \<and> \<not> task_pending_finish ops s t"

definition task_is_ready :: "('env, 'd) task_ops \<Rightarrow> 'env \<Rightarrow> (nat \<Rightarrow> bool) \<Rightarrow> 'd task \<Rightarrow> bool" where
  "task_is_ready ops e deps t =
     (case task_state t of
        Blocked r \<Rightarrow> (case r of Dependency d \<Rightarrow> deps d | _ \<Rightarrow> ready_now ops e (task_driver t) r)
      | PendingFinish \<Rightarrow> \<not> pending_finish_now ops e (task_driver t)
      | _ \<Rightarrow> True)"

abbreviation task_check :: "('env, 'd) task_ops \<Rightarrow> ('env, 'd) sys \<Rightarrow> 'd task \<Rightarrow> bool" where
  "task_check ops s t \<equiv> task_is_ready ops (shared_env s) (dep_ready s) t"

definition task_set_ready :: "'d task \<Rightarrow> 'd task" where
  "task_set_ready t = t\<lparr>task_state := Ready\<rparr>"

subsection \<open>The event scheduler\<close>

text \<open>The load of the shutdown flag and the push are one step.\<close>

definition enqueue :: "nat \<Rightarrow> ('env, 'd) sys \<Rightarrow> ('env, 'd) sys" where
  "enqueue k s = (if sched_shutdown s then s else s\<lparr>reschedule_queue := reschedule_queue s @ [k]\<rparr>)"

definition enqueue_ready :: "'d task \<Rightarrow> ('env, 'd) sys \<Rightarrow> ('env, 'd) sys" where
  "enqueue_ready t s = s\<lparr>exec_queue := exec_queue s @ [t]\<rparr>"

text \<open>\<open>try_schedule_key\<close>: remove the task, test for abort, test readiness, hand over or put back.\<close>

definition schedule_take :: "nat \<Rightarrow> ('env, 'd) sys \<Rightarrow> ('env, 'd) sys" where
  "schedule_take k s =
     (case blocked_tasks s k of
        None \<Rightarrow> s
      | Some t \<Rightarrow> s\<lparr>blocked_tasks := (blocked_tasks s)(k := None), sched_thread := STaken t\<rparr>)"

definition clear_blocked :: "nat \<Rightarrow> ('env, 'd) sys \<Rightarrow> ('env, 'd) sys" where
  "clear_blocked k s =
     s\<lparr>in_blocked := (in_blocked s)(k := False), need_check_reschedule := (need_check_reschedule s)(k := False)\<rparr>"

definition schedule_abort :: "('env, 'd) task_ops \<Rightarrow> 'd task \<Rightarrow> ('env, 'd) sys \<Rightarrow> ('env, 'd) sys" where
  "schedule_abort ops t s =
     (if should_abort_immediately ops s t
      then (clear_blocked (task_key t) s)\<lparr>finishing := add_mset t (finishing s), sched_thread := SIdle\<rparr>
      else s\<lparr>sched_thread := SChecked t\<rparr>)"

definition schedule_check :: "('env, 'd) task_ops \<Rightarrow> 'd task \<Rightarrow> ('env, 'd) sys \<Rightarrow> ('env, 'd) sys" where
  "schedule_check ops t s =
     (if task_check ops s t
      then (clear_blocked (task_key t) s)\<lparr>sched_thread := SReady (task_set_ready t)\<rparr>
      else s\<lparr>sched_thread := SPut t\<rparr>)"

definition schedule_put :: "'d task \<Rightarrow> ('env, 'd) sys \<Rightarrow> ('env, 'd) sys" where
  "schedule_put t s = s\<lparr>blocked_tasks := (blocked_tasks s)(task_key t \<mapsto> t), sched_thread := SIdle\<rparr>"

text \<open>One pass of the scheduler thread's loop when no other thread runs in between.\<close>

definition try_schedule_key :: "('env, 'd) task_ops \<Rightarrow> nat \<Rightarrow> ('env, 'd) sys \<Rightarrow> ('env, 'd) sys" where
  "try_schedule_key ops k s =
     (let s1 = schedule_take k s
      in case sched_thread s1 of
           STaken t \<Rightarrow>
             (let s2 = schedule_abort ops t s1
              in case sched_thread s2 of
                   SChecked t \<Rightarrow>
                     (let s3 = schedule_check ops t s2
                      in case sched_thread s3 of
                           SReady t \<Rightarrow> enqueue_ready t (s3\<lparr>sched_thread := SIdle\<rparr>)
                         | SPut t \<Rightarrow> schedule_put t s3
                         | _ \<Rightarrow> s3)
                 | _ \<Rightarrow> s2)
         | _ \<Rightarrow> s1)"

definition scheduler_pass :: "('env, 'd) task_ops \<Rightarrow> ('env, 'd) sys \<Rightarrow> ('env, 'd) sys" where
  "scheduler_pass ops s =
     (case reschedule_queue s of
        [] \<Rightarrow> s
      | k # ks \<Rightarrow> try_schedule_key ops k (s\<lparr>reschedule_queue := ks\<rparr>))"

text \<open>\<open>park_blocked\<close> and \<open>park_blocked_with_dependency\<close>: insert, mark, register the waiter, enqueue.\<close>

definition dep_of :: "driver_state \<Rightarrow> nat option" where
  "dep_of st = (case st of Blocked (Dependency d) \<Rightarrow> Some d | _ \<Rightarrow> None)"

definition park_insert :: "'d task \<Rightarrow> ('env, 'd) sys \<Rightarrow> ('env, 'd) sys" where
  "park_insert t s =
     s\<lparr>blocked_tasks := (blocked_tasks s)(task_key t \<mapsto> t),
       parkers := add_mset (task_key t, dep_of (task_state t), PMark) (parkers s)\<rparr>"

definition park_mark :: "nat \<Rightarrow> ('env, 'd) sys \<Rightarrow> ('env, 'd) sys" where
  "park_mark k s = s\<lparr>in_blocked := (in_blocked s)(k := True)\<rparr>"

text \<open>\<open>enqueue_all_blocked\<close>: the keys are read under one lock and pushed under another.\<close>

definition collect_blocked :: "nat list \<Rightarrow> ('env, 'd) sys \<Rightarrow> ('env, 'd) sys" where
  "collect_blocked ks s = s\<lparr>need_check_reschedule := (\<lambda>k. k \<in> set ks \<or> need_check_reschedule s k)\<rparr>"

definition push_blocked_keys :: "nat list \<Rightarrow> ('env, 'd) sys \<Rightarrow> ('env, 'd) sys" where
  "push_blocked_keys ks s = s\<lparr>reschedule_queue := reschedule_queue s @ ks\<rparr>"

subsection \<open>Observers and dependencies\<close>

text \<open>\<open>trigger\<close> and \<open>update\<close>: only the thread that raises the count from 0 runs the loop.\<close>

definition observer_trigger :: "nat \<Rightarrow> ('env, 'd) sys \<Rightarrow> ('env, 'd) sys" where
  "observer_trigger k s =
     s\<lparr>obs_pending := (obs_pending s)(k := obs_pending s k + 1),
       obs_pc := (if obs_pending s k = 0 then (obs_pc s)(k := OUpdate) else obs_pc s)\<rparr>"

definition observer_do_update :: "nat \<Rightarrow> ('env, 'd) sys \<Rightarrow> ('env, 'd) sys" where
  "observer_do_update k s =
     (if in_blocked s k then s\<lparr>obs_pc := (obs_pc s)(k := OEnqueue)\<rparr>
      else s\<lparr>need_check_reschedule := (need_check_reschedule s)(k := True), obs_pc := (obs_pc s)(k := OSub)\<rparr>)"

definition observer_enqueue :: "nat \<Rightarrow> ('env, 'd) sys \<Rightarrow> ('env, 'd) sys" where
  "observer_enqueue k s = (enqueue k s)\<lparr>obs_pc := (obs_pc s)(k := OSub)\<rparr>"

definition observer_sub :: "nat \<Rightarrow> ('env, 'd) sys \<Rightarrow> ('env, 'd) sys" where
  "observer_sub k s =
     s\<lparr>obs_pending := (obs_pending s)(k := obs_pending s k - 1),
       obs_pc := (obs_pc s)(k := (if obs_pending s k = 1 then OIdle else OUpdate))\<rparr>"

definition dependency_set_ready :: "nat \<Rightarrow> ('env, 'd) sys \<Rightarrow> ('env, 'd) sys" where
  "dependency_set_ready d s =
     s\<lparr>dep_ready := (dep_ready s)(d := True),
       dep_notifying := (if dep_ready s d then dep_notifying s else add_mset d (dep_notifying s))\<rparr>"

definition dependency_notify :: "nat \<Rightarrow> ('env, 'd) sys \<Rightarrow> ('env, 'd) sys" where
  "dependency_notify d s = s\<lparr>closures := closures s + mset (dep_waiters s d)\<rparr>"

definition waiter_first_check :: "nat \<Rightarrow> nat \<Rightarrow> ('env, 'd) sys \<Rightarrow> park_pc \<times> ('env, 'd) sys" where
  "waiter_first_check k d s = (if dep_ready s d then (PEnqueue, enqueue k s) else (PAdd, s))"

definition waiter_add :: "nat \<Rightarrow> nat \<Rightarrow> ('env, 'd) sys \<Rightarrow> ('env, 'd) sys" where
  "waiter_add k d s = s\<lparr>dep_waiters := (dep_waiters s)(d := dep_waiters s d @ [k])\<rparr>"

definition waiter_recheck :: "nat \<Rightarrow> ('env, 'd) sys \<Rightarrow> ('env, 'd) sys" where
  "waiter_recheck d s = (if dep_ready s d then s\<lparr>dep_notifying := add_mset d (dep_notifying s)\<rparr> else s)"

subsection \<open>Completion, failure and the poller\<close>

text \<open>Counting down, waking the waiter and stopping the scheduler after the last driver are one step.\<close>

definition driver_finished :: "('env, 'd) sys \<Rightarrow> ('env, 'd) sys" where
  "driver_finished s =
     (if remaining s = 0 then s
      else s\<lparr>remaining := remaining s - 1, sched_shutdown := (sched_shutdown s \<or> remaining s - 1 = 0)\<rparr>)"

definition completion_wait :: "('env, 'd) sys \<Rightarrow> (string + unit) option" where
  "completion_wait s =
     (if 0 < remaining s then None
      else Some (case completion_error s of None \<Rightarrow> Inr () | Some e \<Rightarrow> Inl e))"

text \<open>The first piece of \<open>set_final_status\<close>; only the first error goes on to cancel and wake.\<close>

definition fail_status :: "string \<Rightarrow> ('env, 'd) sys \<Rightarrow> fail_pc \<times> ('env, 'd) sys" where
  "fail_status err s =
     (if final_error s \<noteq> None then (FAbort, s) else (FCancel, s\<lparr>final_error := Some err\<rparr>))"

text \<open>
  The second piece of \<open>fail_internal\<close>: record the error and raise the abort flag. What \<open>fail\<close> does
  afterwards to the other fragments of the query is outside the fragment and not modelled.
\<close>

definition fail_abort :: "string \<Rightarrow> ('env, 'd) sys \<Rightarrow> ('env, 'd) sys" where
  "fail_abort err s =
     s\<lparr>completion_error := (if completion_error s = None then Some err else completion_error s), aborting := True\<rparr>"

definition poll_interval :: nat where "poll_interval = 10"

definition add_pending_finish :: "nat \<Rightarrow> 'd task \<Rightarrow> ('env, 'd) sys \<Rightarrow> ('env, 'd) sys" where
  "add_pending_finish now t s = s\<lparr>poller_tasks := poller_tasks s @ [(t, now + poll_interval)]\<rparr>"

fun drain_entries ::
  "('env, 'd) task_ops \<Rightarrow> ('env, 'd) sys \<Rightarrow> nat \<Rightarrow> ('d task \<times> nat) list \<Rightarrow>
   'd task list \<times> 'd task list \<times> ('d task \<times> nat) list" where
  "drain_entries ops s now [] = ([], [], [])"
| "drain_entries ops s now ((t, next_poll_at) # rest) =
     (case drain_entries ops s now rest of
        (aborted, ready, pending) \<Rightarrow>
          if should_abort_immediately ops s t then (t # aborted, ready, pending)
          else if now < next_poll_at then (aborted, ready, (t, next_poll_at) # pending)
          else if task_check ops s t then (aborted, task_set_ready t # ready, pending)
          else (aborted, ready, (t, now + poll_interval) # pending))"

definition drain_blocked :: "('env, 'd) task_ops \<Rightarrow> nat \<Rightarrow> ('env, 'd) sys \<Rightarrow> ('env, 'd) sys" where
  "drain_blocked ops now s =
     (case drain_entries ops s now (poller_tasks s) of
        (aborted, ready, pending) \<Rightarrow>
          s\<lparr>poller_tasks := pending, finishing := finishing s + mset aborted, poll_out := poll_out s @ ready\<rparr>)"

subsection \<open>Steps\<close>

text \<open>A driver that waits in the blocked map, or is about to be put back there.\<close>

definition parked :: "('env, 'd) sys \<Rightarrow> 'd task \<Rightarrow> bool" where
  "parked s t \<longleftrightarrow> blocked_tasks s (task_key t) = Some t \<or> sched_thread s = SPut t"

text \<open>
  The rule \<open>env_change\<close> is what the operators promise: a state change that makes a parked driver
  ready is followed by a notification of the observable that driver registered with.
\<close>

inductive sys_step :: "('env, 'd) task_ops \<Rightarrow> ('env, 'd) sys \<Rightarrow> ('env, 'd) sys \<Rightarrow> bool" for ops where
  env_change:
    "(\<And>t. parked s t \<Longrightarrow> task_is_ready ops e (dep_ready s) t \<Longrightarrow> \<not> task_check ops s t \<Longrightarrow> task_key t \<in># K) \<Longrightarrow>
     sys_step ops s (s\<lparr>shared_env := e, obs_notifying := obs_notifying s + K\<rparr>)"
| obs_trigger:
    "obs_notifying s = add_mset k N \<Longrightarrow>
     sys_step ops s (observer_trigger k (s\<lparr>obs_notifying := N\<rparr>))"
| obs_update: "obs_pc s k = OUpdate \<Longrightarrow> sys_step ops s (observer_do_update k s)"
| obs_push: "obs_pc s k = OEnqueue \<Longrightarrow> sys_step ops s (observer_enqueue k s)"
| obs_done: "obs_pc s k = OSub \<Longrightarrow> sys_step ops s (observer_sub k s)"
| dep_ready: "sys_step ops s (dependency_set_ready d s)"
| dep_notify:
    "dep_notifying s = add_mset d N \<Longrightarrow> sys_step ops s (dependency_notify d (s\<lparr>dep_notifying := N\<rparr>))"
| closure_run: "closures s = add_mset k C \<Longrightarrow> sys_step ops s (enqueue k (s\<lparr>closures := C\<rparr>))"
| work_take:
    "exec_queue s = t # q \<Longrightarrow>
     sys_step ops s (s\<lparr>exec_queue := q, workers := add_mset (t, WTaken) (workers s)\<rparr>)"
| work_abort:
    "workers s = add_mset (t, pc) W \<Longrightarrow> pc = WTaken \<or> pc = WRan \<Longrightarrow> should_abort_immediately ops s t \<Longrightarrow>
     pc = WRan \<longrightarrow> task_state t = Ready \<or> task_state t = Running \<or> (\<exists>r. task_state t = Blocked r) \<Longrightarrow>
     sys_step ops s (s\<lparr>workers := W, finishing := add_mset t (finishing s)\<rparr>)"
| work_start:
    "workers s = add_mset (t, WTaken) W \<Longrightarrow> \<not> should_abort_immediately ops s t \<Longrightarrow>
     sys_step ops s (s\<lparr>workers := add_mset (t, WRun) W\<rparr>)"
| work_run:
    "workers s = add_mset (t, WRun) W \<Longrightarrow> task_key t' = task_key t \<Longrightarrow>
     sys_step ops s (s\<lparr>workers := add_mset (t', WRan) W\<rparr>)"
| work_requeue:
    "workers s = add_mset (t, WRan) W \<Longrightarrow> task_state t = Ready \<or> task_state t = Running \<Longrightarrow>
     \<not> should_abort_immediately ops s t \<Longrightarrow>
     sys_step ops s (s\<lparr>workers := W, exec_queue := exec_queue s @ [t]\<rparr>)"
| work_block:
    "workers s = add_mset (t, WRan) W \<Longrightarrow> task_state t = Blocked r \<Longrightarrow> \<not> should_abort_immediately ops s t \<Longrightarrow>
     sys_step ops s (s\<lparr>workers := add_mset (t, WPark) W\<rparr>)"
| work_park:
    "workers s = add_mset (t, WPark) W \<Longrightarrow> task_state t = Blocked r \<Longrightarrow>
     (\<exists>d. r = Dependency d) \<or> has_observable ops (task_driver t) r \<Longrightarrow>
     sys_step ops s (park_insert t (s\<lparr>workers := W\<rparr>))"
| work_refused:
    "workers s = add_mset (t, WPark) W \<Longrightarrow> task_state t = Blocked r \<Longrightarrow> r = InputEmpty \<or> r = OutputFull \<Longrightarrow>
     \<not> has_observable ops (task_driver t) r \<Longrightarrow>
     sys_step ops s (s\<lparr>workers := W, failers := add_mset (''missing observable'', FStatus, Some t) (failers s)\<rparr>)"
| work_pending:
    "workers s = add_mset (t, WRan) W \<Longrightarrow> task_state t = PendingFinish \<Longrightarrow>
     sys_step ops s (add_pending_finish now t (s\<lparr>workers := W\<rparr>))"
| work_finished:
    "workers s = add_mset (t, WRan) W \<Longrightarrow> task_state t = Finished \<Longrightarrow>
     sys_step ops s (s\<lparr>workers := W, finishing := add_mset t (finishing s)\<rparr>)"
| work_failed:
    "workers s = add_mset (t, WRan) W \<Longrightarrow> task_state t = Canceled \<or> (\<exists>e. task_state t = Failed e) \<Longrightarrow>
     sys_step ops s (s\<lparr>workers := W, failers := add_mset (err, FStatus, Some t) (failers s)\<rparr>)"
| park_marks:
    "parkers s = add_mset (k, dep, PMark) P \<Longrightarrow>
     sys_step ops s (park_mark k (s\<lparr>parkers := add_mset (k, dep, if dep = None then PEnqueue else PReady) P\<rparr>))"
| park_first:
    "parkers s = add_mset (k, Some d, PReady) P \<Longrightarrow> waiter_first_check k d s = (pc, s') \<Longrightarrow>
     sys_step ops s (s'\<lparr>parkers := add_mset (k, Some d, pc) P\<rparr>)"
| park_adds:
    "parkers s = add_mset (k, Some d, PAdd) P \<Longrightarrow>
     sys_step ops s (waiter_add k d (s\<lparr>parkers := add_mset (k, Some d, PRecheck) P\<rparr>))"
| park_rechecks:
    "parkers s = add_mset (k, Some d, PRecheck) P \<Longrightarrow>
     sys_step ops s (waiter_recheck d (s\<lparr>parkers := add_mset (k, Some d, PEnqueue) P\<rparr>))"
| park_enqueues:
    "parkers s = add_mset (k, dep, PEnqueue) P \<Longrightarrow> sys_step ops s (enqueue k (s\<lparr>parkers := P\<rparr>))"
| sched_pop:
    "sched_thread s = SIdle \<Longrightarrow> reschedule_queue s = k # ks \<Longrightarrow>
     sys_step ops s (schedule_take k (s\<lparr>reschedule_queue := ks\<rparr>))"
| sched_abort: "sched_thread s = STaken t \<Longrightarrow> sys_step ops s (schedule_abort ops t s)"
| sched_check: "sched_thread s = SChecked t \<Longrightarrow> sys_step ops s (schedule_check ops t s)"
| sched_ready: "sched_thread s = SReady t \<Longrightarrow> sys_step ops s (enqueue_ready t (s\<lparr>sched_thread := SIdle\<rparr>))"
| sched_put: "sched_thread s = SPut t \<Longrightarrow> sys_step ops s (schedule_put t s)"
| poll_drain: "sys_step ops s (drain_blocked ops now s)"
| poll_push:
    "poll_out s = t # ts \<Longrightarrow> sys_step ops s (s\<lparr>poll_out := ts, exec_queue := exec_queue s @ [t]\<rparr>)"
| finish:
    "finishing s = add_mset t F \<Longrightarrow> sys_step ops s (driver_finished (s\<lparr>finishing := F\<rparr>))"
| cancel: "sys_step ops s (s\<lparr>failers := add_mset (err, FStatus, None) (failers s)\<rparr>)"
| fail_first:
    "failers s = add_mset (err, FStatus, ot) F \<Longrightarrow> fail_status err s = (pc, s') \<Longrightarrow>
     sys_step ops s (s'\<lparr>failers := add_mset (err, pc, ot) F\<rparr>)"
| fail_cancel:
    "failers s = add_mset (err, FCancel, ot) F \<Longrightarrow>
     sys_step ops s (s\<lparr>fragment_cancelled := True, failers := add_mset (err, FCollect, ot) F\<rparr>)"
| fail_collect:
    "failers s = add_mset (err, FCollect, ot) F \<Longrightarrow> set ks = dom (blocked_tasks s) \<Longrightarrow>
     sys_step ops s (collect_blocked ks (s\<lparr>failers := add_mset (err, if ks = [] then FAbort else FPush ks, ot) F\<rparr>))"
| fail_push:
    "failers s = add_mset (err, FPush ks, ot) F \<Longrightarrow>
     sys_step ops s (push_blocked_keys ks (s\<lparr>failers := add_mset (err, FAbort, ot) F\<rparr>))"
| fail_raise:
    "failers s = add_mset (err, FAbort, ot) F \<Longrightarrow>
     sys_step ops s (fail_abort err (s\<lparr>failers := F, finishing := (case ot of None \<Rightarrow> finishing s | Some t \<Rightarrow> add_mset t (finishing s))\<rparr>))"

text \<open>\<open>submit\<close>: the tasks are queued, the counter is their number, every observer is registered.\<close>

definition submit :: "'env \<Rightarrow> 'd task list \<Rightarrow> ('env, 'd) sys" where
  "submit e ts =
     \<lparr>shared_env = e, exec_queue = ts, workers = {#}, blocked_tasks = Map.empty, reschedule_queue = [],
      sched_shutdown = False, sched_thread = SIdle, in_blocked = (\<lambda>_. False), need_check_reschedule = (\<lambda>_. False),
      parkers = {#}, obs_notifying = {#}, obs_pending = (\<lambda>_. 0), obs_pc = (\<lambda>_. OIdle), dep_ready = (\<lambda>_. False),
      dep_waiters = (\<lambda>_. []), dep_notifying = {#}, closures = {#}, poller_tasks = [], poll_out = [],
      finishing = {#}, failers = {#}, remaining = length ts, aborting = False, completion_error = None,
      final_error = None, fragment_cancelled = False\<rparr>"

definition reachable :: "('env, 'd) task_ops \<Rightarrow> ('env, 'd) sys \<Rightarrow> bool" where
  "reachable ops s \<longleftrightarrow> (\<exists>e ts. distinct (map task_key ts) \<and> (sys_step ops)\<^sup>*\<^sup>* (submit e ts) s)"

end
