(* ===== verification/Wakeup_Protocol.thy ===== *)
theory Wakeup_Protocol
  imports Driver_Scheduler
begin

text \<open>
  What the scheduler guarantees over every interleaving: each driver is in exactly one place and
  counted once, no driver that became ready stays parked unnoticed, the scheduler thread drains
  its queue; and where the order of the abort flag and the wake-up leaves a driver parked.
\<close>

subsection \<open>Ownership\<close>

definition failing_keys :: "(string \<times> fail_pc \<times> 'd task option) multiset \<Rightarrow> nat multiset" where
  "failing_keys F = (\<Sum>(err, pc, ot)\<in>#F. case ot of None \<Rightarrow> {#} | Some t \<Rightarrow> {#task_key t#})"

definition scheduler_keys :: "'d scheduler_pc \<Rightarrow> nat multiset" where
  "scheduler_keys pc =
     (case pc of SIdle \<Rightarrow> {#} | STaken t \<Rightarrow> {#task_key t#} | SChecked t \<Rightarrow> {#task_key t#}
      | SReady t \<Rightarrow> {#task_key t#} | SPut t \<Rightarrow> {#task_key t#})"

definition held_keys :: "('env, 'd) sys \<Rightarrow> nat multiset" where
  "held_keys s =
     mset (map task_key (exec_queue s)) + image_mset (\<lambda>(t, pc). task_key t) (workers s) +
     scheduler_keys (sched_thread s) + mset (map (\<lambda>(t, n). task_key t) (poller_tasks s)) +
     mset (map task_key (poll_out s)) + image_mset task_key (finishing s) + failing_keys (failers s)"

text \<open>In how many places a driver is.\<close>

definition places :: "('env, 'd) sys \<Rightarrow> nat \<Rightarrow> nat" where
  "places s k = count (held_keys s) k + (if blocked_tasks s k = None then 0 else 1)"

definition owned_once :: "nat set \<Rightarrow> ('env, 'd) sys \<Rightarrow> bool" where
  "owned_once D s \<longleftrightarrow>
     finite D \<and> (\<forall>k. places s k \<le> 1) \<and> (\<forall>k. k \<notin> D \<longrightarrow> places s k = 0) \<and> remaining s = (\<Sum>k\<in>D. places s k) \<and>
     (sched_shutdown s \<longrightarrow> remaining s = 0) \<and> (\<forall>k t. blocked_tasks s k = Some t \<longrightarrow> task_key t = k)"

lemma failing_keys_simps [simp]:
  "failing_keys {#} = {#}"
  "failing_keys (add_mset (err, pc, None) F) = failing_keys F"
  "failing_keys (add_mset (err, pc, Some t) F) = add_mset (task_key t) (failing_keys F)"
  by (simp_all add: failing_keys_def)

lemma failing_keys_pc: "failing_keys (add_mset (err, pc, ot) F) = failing_keys (add_mset (err', pc', ot) F)"
  by (cases ot) simp_all

lemma scheduler_keys_simps [simp]:
  "scheduler_keys SIdle = {#}" "scheduler_keys (STaken t) = {#task_key t#}" "scheduler_keys (SChecked t) = {#task_key t#}"
  "scheduler_keys (SReady t) = {#task_key t#}" "scheduler_keys (SPut t) = {#task_key t#}"
  by (simp_all add: scheduler_keys_def)

lemma task_set_ready_key [simp]: "task_key (task_set_ready t) = task_key t"
  by (simp add: task_set_ready_def)

lemma drain_entries_keys:
  "drain_entries ops s now xs = (a, r, p) \<Longrightarrow>
   image_mset (\<lambda>(t, n). task_key t) (mset p) + (image_mset task_key (mset r) + image_mset task_key (mset a)) =
   image_mset (\<lambda>(t, n). task_key t) (mset xs)"
  by (induction ops s now xs arbitrary: a r p rule: drain_entries.induct) (auto split: prod.splits if_splits)

lemmas piece_defs = enqueue_def enqueue_ready_def schedule_take_def clear_blocked_def schedule_abort_def
  schedule_check_def schedule_put_def park_insert_def park_mark_def collect_blocked_def push_blocked_keys_def
  observer_trigger_def observer_do_update_def observer_enqueue_def observer_sub_def dependency_set_ready_def
  dependency_notify_def waiter_first_check_def waiter_add_def waiter_recheck_def driver_finished_def
  fail_status_def fail_abort_def add_pending_finish_def drain_blocked_def

lemma held_not_blocked:
  assumes "owned_once D s" and "k \<in># held_keys s"
  shows "blocked_tasks s k = None"
proof (rule ccontr)
  assume "blocked_tasks s k \<noteq> None"
  moreover have "0 < count (held_keys s) k" using assms(2) by simp
  ultimately have "2 \<le> places s k" unfolding places_def by (simp only: if_False)
  moreover have "places s k \<le> 1" using assms(1) unfolding owned_once_def by blast
  ultimately show False by simp
qed

text \<open>Every step but \<open>finish\<close> leaves each driver in as many places as before.\<close>

definition same_places :: "('env, 'd) sys \<Rightarrow> ('env, 'd) sys \<Rightarrow> bool" where
  "same_places s s' \<longleftrightarrow> (\<forall>k. places s' k = places s k) \<and> remaining s' = remaining s \<and> sched_shutdown s' = sched_shutdown s"

lemmas place_defs = same_places_def places_def held_keys_def piece_defs

lemma step_places:
  assumes "sys_step ops s s'" and "owned_once D s"
  shows "same_places s s' \<or> (\<exists>t F. finishing s = add_mset t F \<and> s' = driver_finished (s\<lparr>finishing := F\<rparr>))"
  using assms
proof (cases rule: sys_step.cases)
  case (work_park t W r)
  then have "blocked_tasks s (task_key t) = None"
    by (intro held_not_blocked [OF assms(2)]) (simp add: held_keys_def)
  with work_park have "same_places s s'" by (simp add: place_defs)
  then show ?thesis ..
next
  case (sched_put t)
  then have "blocked_tasks s (task_key t) = None"
    by (intro held_not_blocked [OF assms(2)]) (simp add: held_keys_def)
  with sched_put have "same_places s s'" by (simp add: place_defs)
  then show ?thesis ..
next
  case (sched_pop k ks)
  have "blocked_tasks s k = Some t \<Longrightarrow> task_key t = k" for t using assms(2) by (simp add: owned_once_def)
  with sched_pop have "same_places s s'" by (auto simp: place_defs split: option.splits)
  then show ?thesis ..
next
  case (poll_drain now)
  obtain a r p where d: "drain_entries ops s now (poller_tasks s) = (a, r, p)" by (cases "drain_entries ops s now (poller_tasks s)")
  have "held_keys s' = held_keys s"
    using d poll_drain drain_entries_keys [OF d] by (simp add: held_keys_def piece_defs)
  moreover have "blocked_tasks s' = blocked_tasks s" "remaining s' = remaining s" "sched_shutdown s' = sched_shutdown s"
    using d poll_drain by (simp_all add: piece_defs)
  ultimately have "same_places s s'" by (simp add: same_places_def places_def)
  then show ?thesis ..
next
  case (finish t F)
  then show ?thesis by blast
next
  case (fail_first err ot F pc s')
  then show ?thesis by (intro disjI1; cases ot) (auto simp: place_defs split: if_splits)
next
  case (fail_cancel err ot F)
  then show ?thesis by (intro disjI1; cases ot) (simp_all add: place_defs)
next
  case (fail_collect err ot F ks)
  then show ?thesis by (intro disjI1; cases ot) (simp_all add: place_defs)
next
  case (fail_push err ks ot F)
  then show ?thesis by (intro disjI1; cases ot) (simp_all add: place_defs)
next
  case (fail_raise err ot F)
  then show ?thesis by (intro disjI1; cases ot) (simp_all add: place_defs)
qed (rule disjI1, simp add: place_defs split: if_splits; fail)+

lemma step_blocked_keys:
  assumes "sys_step ops s s'" and "\<forall>k t. blocked_tasks s k = Some t \<longrightarrow> task_key t = k"
  shows "\<forall>k t. blocked_tasks s' k = Some t \<longrightarrow> task_key t = k"
  using assms by (cases rule: sys_step.cases) (auto simp: piece_defs split: if_splits option.splits prod.splits)

lemma owned_once_step:
  assumes "sys_step ops s s'" and "owned_once D s"
  shows "owned_once D s'"
proof -
  have keys: "\<forall>k t. blocked_tasks s' k = Some t \<longrightarrow> task_key t = k"
    using assms by (intro step_blocked_keys [OF assms(1)]) (simp add: owned_once_def)
  from step_places [OF assms] show ?thesis
  proof
    assume "same_places s s'"
    then have eq: "places s' = places s" "remaining s' = remaining s" "sched_shutdown s' = sched_shutdown s" by (auto simp: same_places_def)
    from assms(2) keys show ?thesis unfolding owned_once_def eq by (elim conjE, intro conjI)
  next
    assume "\<exists>t F. finishing s = add_mset t F \<and> s' = driver_finished (s\<lparr>finishing := F\<rparr>)"
    then obtain t F where f: "finishing s = add_mset t F" "s' = driver_finished (s\<lparr>finishing := F\<rparr>)" by blast
    have p: "places s k = places s' k + (if k = task_key t then 1 else 0)" for k
    proof -
      have "held_keys s = add_mset (task_key t) (held_keys s')" "blocked_tasks s' = blocked_tasks s"
        by (simp_all add: f held_keys_def driver_finished_def)
      then show ?thesis by (simp add: places_def)
    qed
    have fin: "finite D" and le: "\<And>k. places s k \<le> 1" and out: "\<And>k. k \<notin> D \<Longrightarrow> places s k = 0"
      and rem: "remaining s = (\<Sum>k\<in>D. places s k)" and shut: "sched_shutdown s \<longrightarrow> remaining s = 0"
      using assms(2) unfolding owned_once_def by blast+
    have D: "task_key t \<in> D"
    proof (rule ccontr)
      assume "task_key t \<notin> D"
      from out [OF this] p [of "task_key t"] show False by simp
    qed
    have "(\<Sum>k\<in>D. places s k) = (\<Sum>k\<in>D. places s' k + (if k = task_key t then 1 else 0))" by (simp only: p)
    also have "\<dots> = (\<Sum>k\<in>D. places s' k) + 1" using fin D by (simp add: sum.distrib)
    finally have sum: "(\<Sum>k\<in>D. places s k) = (\<Sum>k\<in>D. places s' k) + 1" .
    have "remaining s' = remaining s - 1" "sched_shutdown s' \<longleftrightarrow> sched_shutdown s \<or> 0 < remaining s \<and> remaining s - 1 = 0"
      by (simp_all add: f(2) driver_finished_def)
    with rem shut sum have "remaining s' = (\<Sum>k\<in>D. places s' k)" "sched_shutdown s' \<longrightarrow> remaining s' = 0"
      by linarith+
    moreover have "places s' k \<le> 1" for k using le [of k] p [of k] by simp
    moreover have "places s' k = 0" if "k \<notin> D" for k using out [OF that] p [of k] by simp
    ultimately show ?thesis using fin keys unfolding owned_once_def by (intro conjI allI impI) auto
  qed
qed

lemma owned_once_submit:
  assumes "distinct (map task_key ts)"
  shows "owned_once (set (map task_key ts)) (submit e ts)"
proof -
  have "places (submit e ts) k = (if k \<in> set (map task_key ts) then 1 else 0)" for k
    using count_mset_0_iff [of "map task_key ts" k] distinct_count_atmost_1 [of "map task_key ts"] assms
    by (auto simp: places_def held_keys_def submit_def)
  with assms show ?thesis
    using distinct_card [OF assms] by (auto simp: owned_once_def submit_def sum.If_cases)
qed

lemma reachable_owned:
  assumes "(sys_step ops)\<^sup>*\<^sup>* (submit e ts) s" and "distinct (map task_key ts)"
  shows "owned_once (set (map task_key ts)) s"
  using assms(1) by (induction rule: rtranclp_induct) (blast intro: owned_once_submit [OF assms(2)] owned_once_step)+

subsection \<open>Wake-ups\<close>

text \<open>The scheduler has the task: in the blocked map, or taken out for a look.\<close>

definition scheduler_has :: "('env, 'd) sys \<Rightarrow> 'd task \<Rightarrow> bool" where
  "scheduler_has s t \<longleftrightarrow>
     blocked_tasks s (task_key t) = Some t \<or> sched_thread s = STaken t \<or> sched_thread s = SChecked t \<or> sched_thread s = SPut t"

text \<open>Some thread will still look at the driver: its key is queued or about to be.\<close>

definition covered :: "('env, 'd) sys \<Rightarrow> nat \<Rightarrow> bool" where
  "covered s k \<longleftrightarrow>
     k \<in> set (reschedule_queue s) \<or> (\<exists>dep pc. (k, dep, pc) \<in># parkers s) \<or> k \<in># obs_notifying s \<or>
     obs_pc s k = OUpdate \<or> obs_pc s k = OEnqueue \<or> (obs_pc s k = OSub \<and> 2 \<le> obs_pending s k) \<or>
     k \<in># closures s \<or> (\<exists>d. d \<in># dep_notifying s \<and> k \<in> set (dep_waiters s d))"

definition marked :: "('env, 'd) sys \<Rightarrow> 'd task \<Rightarrow> bool" where
  "marked s t \<longleftrightarrow> in_blocked s (task_key t) \<or> (\<exists>dep. (task_key t, dep, PMark) \<in># parkers s)"

definition waits_for :: "('env, 'd) sys \<Rightarrow> 'd task \<Rightarrow> nat \<Rightarrow> bool" where
  "waits_for s t d \<longleftrightarrow> task_key t \<in> set (dep_waiters s d) \<or> dep_ready s d \<or>
     (\<exists>pc. (task_key t, Some d, pc) \<in># parkers s \<and> (pc = PMark \<or> pc = PReady \<or> pc = PAdd))"

definition observers_ok :: "('env, 'd) sys \<Rightarrow> bool" where
  "observers_ok s \<longleftrightarrow> (\<forall>k. obs_pc s k = OIdle \<longleftrightarrow> obs_pending s k = 0)"

definition wake_inv :: "('env, 'd) task_ops \<Rightarrow> ('env, 'd) sys \<Rightarrow> bool" where
  "wake_inv ops s \<longleftrightarrow>
     observers_ok s \<and>
     (\<forall>t. scheduler_has s t \<longrightarrow> marked s t) \<and>
     (\<forall>t d. scheduler_has s t \<and> task_state t = Blocked (Dependency d) \<longrightarrow> waits_for s t d) \<and>
     (\<forall>t. parked s t \<and> task_check ops s t \<longrightarrow> covered s (task_key t))"

lemma observers_ok_step:
  assumes "sys_step ops s s'" and "observers_ok s"
  shows "observers_ok s'"
proof -
  have ok: "obs_pc s k = OIdle \<longleftrightarrow> obs_pending s k = 0" for k using assms(2) by (simp add: observers_ok_def)
  from assms(1) show ?thesis
  proof (cases rule: sys_step.cases)
    case (obs_update k)
    then show ?thesis using ok [of k] by (simp add: observers_ok_def piece_defs ok)
  next
    case (obs_push k)
    then show ?thesis using ok [of k] by (simp add: observers_ok_def piece_defs ok)
  next
    case (obs_done k)
    then show ?thesis using ok [of k] by (simp add: observers_ok_def piece_defs ok)
  qed (simp_all add: observers_ok_def piece_defs ok split: if_splits option.splits prod.splits)
qed

text \<open>A task the scheduler has is held nowhere else, and by only one record.\<close>

lemma scheduler_has_unique:
  assumes "owned_once D s" and "scheduler_has s t" and "scheduler_has s t'" and "task_key t = task_key t'"
  shows "t = t'"
proof -
  let ?looked = "\<lambda>u. sched_thread s = STaken u \<or> sched_thread s = SChecked u \<or> sched_thread s = SPut u"
  have none: "blocked_tasks s (task_key u) = None" if "?looked u" for u
  proof (rule held_not_blocked [OF assms(1)])
    have "scheduler_keys (sched_thread s) = {#task_key u#}" using that by auto
    then show "task_key u \<in># held_keys s" by (simp add: held_keys_def)
  qed
  show ?thesis
  proof (cases "?looked t")
    case True
    then have "?looked t'" using none [OF True] assms(3,4) by (simp add: scheduler_has_def)
    with True show ?thesis by (elim disjE) simp_all
  next
    case False
    then have b: "blocked_tasks s (task_key t) = Some t" using assms(2) by (simp add: scheduler_has_def)
    then have "\<not> ?looked t'" using none [of t'] assms(4) by (metis option.distinct(1))
    then have "blocked_tasks s (task_key t') = Some t'" using assms(3) by (simp add: scheduler_has_def)
    with b assms(4) show ?thesis by simp
  qed
qed

lemma shutdown_nothing:
  assumes "owned_once D s" and "sched_shutdown s"
  shows "places s k = 0"
proof -
  have "(\<Sum>k\<in>D. places s k) = 0" "finite D" "k \<notin> D \<longrightarrow> places s k = 0"
    using assms unfolding owned_once_def by auto
  then show ?thesis by (cases "k \<in> D") auto
qed

lemma scheduler_has_running:
  assumes "owned_once D s" and "scheduler_has s t"
  shows "\<not> sched_shutdown s"
proof
  assume "sched_shutdown s"
  from shutdown_nothing [OF assms(1) this, of "task_key t"]
  have "blocked_tasks s (task_key t) = None" "task_key t \<notin># held_keys s"
    by (auto simp: places_def not_in_iff split: if_splits)
  with assms(2) show False by (auto simp: scheduler_has_def held_keys_def)
qed

lemma looked_at_not_blocked:
  assumes "owned_once D s" and "scheduler_keys (sched_thread s) = {#task_key t#}"
  shows "blocked_tasks s (task_key t) = None"
  by (rule held_not_blocked [OF assms(1)]) (simp add: held_keys_def assms(2))

text \<open>A task comes to the scheduler only by being parked.\<close>

lemma scheduler_has_back:
  assumes "sys_step ops s s'" and "owned_once D s" and "scheduler_has s' t"
  shows "scheduler_has s t \<or> (task_key t, dep_of (task_state t), PMark) \<in># parkers s'"
  using assms(1)
proof (cases rule: sys_step.cases)
  case (work_park t0 W r)
  then show ?thesis
    using assms(3) by (cases "t = t0"; cases "task_key t = task_key t0") (auto simp: scheduler_has_def piece_defs)
next
  case (sched_pop k ks)
  have "blocked_tasks s k = Some t0 \<Longrightarrow> task_key t0 = k" for t0 using assms(2) unfolding owned_once_def by blast
  with sched_pop show ?thesis
    using assms(3) by (auto simp: scheduler_has_def piece_defs split: option.splits if_splits)
next
  case (sched_put t0)
  then show ?thesis
    using assms(3) by (cases "task_key t = task_key t0") (simp_all add: scheduler_has_def piece_defs)
qed (use assms(3) in \<open>auto simp: scheduler_has_def piece_defs split: if_splits prod.splits\<close>)

lemma marked_step:
  assumes "sys_step ops s s'" and "owned_once D s" and inv: "\<And>t. scheduler_has s t \<Longrightarrow> marked s t"
    and "scheduler_has s' t"
  shows "marked s' t"
proof (cases "(task_key t, dep_of (task_state t), PMark) \<in># parkers s'")
  case True
  then show ?thesis by (auto simp: marked_def)
next
  case False
  with scheduler_has_back [OF assms(1,2,4)] have m: "marked s t" by (intro inv) blast
  have none: "blocked_tasks s (task_key u) = None" if "sched_thread s = STaken u \<or> sched_thread s = SChecked u" for u
    by (rule looked_at_not_blocked [OF assms(2)]) (use that in auto)
  from assms(1) show ?thesis
  proof (cases rule: sys_step.cases)
    case (sched_abort t0)
    with none [of t0] assms(4) have "\<not> should_abort_immediately ops s t0 \<or> task_key t \<noteq> task_key t0"
      by (auto simp: scheduler_has_def piece_defs split: if_splits)
    with m sched_abort show ?thesis by (auto simp: marked_def piece_defs)
  next
    case (sched_check t0)
    with none [of t0] assms(4) have "\<not> task_check ops s t0 \<or> task_key t \<noteq> task_key t0"
      by (auto simp: scheduler_has_def piece_defs split: if_splits)
    with m sched_check show ?thesis by (auto simp: marked_def piece_defs)
  qed (use m in \<open>auto simp: marked_def piece_defs split: if_splits option.splits prod.splits\<close>)
qed

lemma waits_step:
  assumes "sys_step ops s s'" and "owned_once D s"
    and inv: "\<And>t. scheduler_has s t \<Longrightarrow> task_state t = Blocked (Dependency d) \<Longrightarrow> waits_for s t d"
    and "scheduler_has s' t" and st: "task_state t = Blocked (Dependency d)"
  shows "waits_for s' t d"
proof (cases "(task_key t, dep_of (task_state t), PMark) \<in># parkers s'")
  case True
  then show ?thesis by (auto simp: waits_for_def dep_of_def st)
next
  case False
  with scheduler_has_back [OF assms(1,2,4)] have "waits_for s t d" by (intro inv st) blast
  with assms(1) show ?thesis
    by (cases rule: sys_step.cases)
      (auto simp: waits_for_def piece_defs split: if_splits option.splits prod.splits)
qed

lemma covered_keep:
  assumes "sys_step ops s s'" and cov: "covered s (task_key t)" and run: "\<not> sched_shutdown s"
    and obs: "observers_ok s" and m: "marked s t" and "parked s' t"
  shows "covered s' (task_key t)"
  using assms(1)
proof (cases rule: sys_step.cases)
  case (obs_trigger k N)
  have "obs_pc s k = OIdle \<longleftrightarrow> obs_pending s k = 0" using obs by (simp add: observers_ok_def)
  then have "covered s' k" using obs_trigger by (cases "obs_pc s k") (auto simp: covered_def piece_defs)
  moreover have "covered s' (task_key t)" if "task_key t \<noteq> k"
    using that cov obs_trigger by (auto simp: covered_def piece_defs)
  ultimately show ?thesis by (cases "task_key t = k") simp_all
next
  case (obs_update k)
  then show ?thesis using cov m by (cases "task_key t = k") (auto simp: covered_def marked_def piece_defs)
next
  case (obs_push k)
  then show ?thesis using cov run by (cases "task_key t = k") (auto simp: covered_def piece_defs)
next
  case (obs_done k)
  then show ?thesis using cov by (cases "task_key t = k") (auto simp: covered_def piece_defs)
next
  case (dep_notify d N)
  then show ?thesis using cov by (auto simp: covered_def piece_defs)
next
  case (sched_pop k ks)
  have "task_key t \<noteq> k"
    using assms(6) sched_pop by (auto simp: parked_def piece_defs split: option.splits)
  then show ?thesis using cov sched_pop by (auto simp: covered_def piece_defs split: option.splits)
next
  case (poll_drain now)
  then show ?thesis using cov by (auto simp: covered_def piece_defs split: prod.splits)
next
  case (park_adds k d P)
  have w: "set (dep_waiters s d') \<subseteq> set (dep_waiters s' d')" for d' by (auto simp: park_adds piece_defs)
  have pk: "(\<exists>dep pc. (k', dep, pc) \<in># parkers s) \<longrightarrow> (\<exists>dep pc. (k', dep, pc) \<in># parkers s')" for k'
    by (auto simp: park_adds piece_defs)
  have eq: "reschedule_queue s' = reschedule_queue s" "obs_notifying s' = obs_notifying s" "obs_pc s' = obs_pc s"
    "obs_pending s' = obs_pending s" "closures s' = closures s" "dep_notifying s' = dep_notifying s"
    by (simp_all add: park_adds piece_defs)
  show ?thesis using cov pk [of "task_key t"] w unfolding covered_def eq by blast
qed (use cov run in \<open>auto simp: covered_def piece_defs split: if_splits option.splits\<close>)

text \<open>A parked driver that was not ready becomes ready only through a notifying change.\<close>

lemma covered_new:
  assumes "sys_step ops s s'" and "parked s t" and "\<not> task_check ops s t" and "task_check ops s' t"
    and waits: "\<And>d. task_state t = Blocked (Dependency d) \<Longrightarrow> waits_for s t d"
  shows "covered s' (task_key t)"
  using assms(1)
proof (cases rule: sys_step.cases)
  case (env_change e K)
  then have "task_key t \<in># K" using assms(2-4) by simp
  with env_change show ?thesis by (simp add: covered_def)
next
  case (dep_ready d)
  then have st: "task_state t = Blocked (Dependency d)" "\<not> Driver_Scheduler.dep_ready s d"
    using assms(3,4)
    by (auto simp: task_is_ready_def piece_defs split: driver_state.splits blocked_reason.splits if_splits)
  with waits [OF st(1)] dep_ready show ?thesis by (auto simp: waits_for_def covered_def piece_defs)
qed (use assms(3,4) in \<open>auto simp: piece_defs split: if_splits option.splits prod.splits\<close>)

lemma parked_back:
  assumes "sys_step ops s s'" and p: "parked s' t" and n: "\<not> parked s t"
  shows "(task_key t, dep_of (task_state t), PMark) \<in># parkers s' \<or> \<not> task_check ops s' t"
proof -
  have frame: ?thesis if "blocked_tasks s' = blocked_tasks s" "\<And>t. sched_thread s' = SPut t \<Longrightarrow> sched_thread s = SPut t"
    using that p n unfolding parked_def by metis
  from assms(1) show ?thesis
  proof (cases rule: sys_step.cases)
    case (work_park t0 W r)
    have "t = t0"
    proof (rule ccontr)
      assume "t \<noteq> t0"
      then have "parked s t" using p unfolding parked_def work_park(1) by (auto simp: piece_defs split: if_splits)
      with n show False ..
    qed
    then show ?thesis unfolding work_park(1) by (simp add: piece_defs)
  next
    case (sched_put t0)
    have "parked s t"
    proof (cases "t = t0")
      case True
      then show ?thesis by (simp add: parked_def sched_put)
    next
      case False
      then show ?thesis using p unfolding parked_def sched_put(1) by (auto simp: piece_defs split: if_splits)
    qed
    with n show ?thesis ..
  next
    case (sched_check t0)
    then have "t = t0 \<and> \<not> task_check ops s t0" using p n by (auto simp: parked_def piece_defs split: if_splits)
    then show ?thesis using sched_check by (simp add: piece_defs)
  next
    case (sched_pop k ks)
    then have False using p n by (auto simp: parked_def piece_defs split: option.splits if_splits)
    then show ?thesis ..
  next
    case (env_change e K)
    show ?thesis by (rule frame) (simp_all add: env_change(1))
  qed (rule frame; simp add: piece_defs split: if_splits prod.splits)+
qed

lemma wake_inv_step:
  assumes "sys_step ops s s'" and own: "owned_once D s" and inv: "wake_inv ops s"
  shows "wake_inv ops s'"
proof -
  have obs: "observers_ok s" and m: "\<And>t. scheduler_has s t \<Longrightarrow> marked s t"
    and w: "\<And>t d. scheduler_has s t \<Longrightarrow> task_state t = Blocked (Dependency d) \<Longrightarrow> waits_for s t d"
    and c: "\<And>t. parked s t \<Longrightarrow> task_check ops s t \<Longrightarrow> covered s (task_key t)"
    using inv unfolding wake_inv_def by blast+
  have has: "parked s t \<Longrightarrow> scheduler_has s t" for t by (auto simp: parked_def scheduler_has_def)
  have "covered s' (task_key t)" if p: "parked s' t" and chk: "task_check ops s' t" for t
  proof (cases "parked s t")
    case True
    show ?thesis
    proof (cases "task_check ops s t")
      case ready: True
      from covered_keep [OF assms(1) c [OF True ready] scheduler_has_running [OF own has [OF True]] obs m [OF has [OF True]] p]
      show ?thesis .
    next
      case False
      from covered_new [OF assms(1) True False chk w [OF has [OF True]]] show ?thesis by blast
    qed
  next
    case False
    with parked_back [OF assms(1) p] chk show ?thesis by (auto simp: covered_def)
  qed
  moreover have "observers_ok s'" by (rule observers_ok_step [OF assms(1) obs])
  moreover have "marked s' t" if "scheduler_has s' t" for t by (rule marked_step [OF assms(1) own m that])
  moreover have "waits_for s' t d" if "scheduler_has s' t" "task_state t = Blocked (Dependency d)" for t d
    by (rule waits_step [OF assms(1) own w that])
  ultimately show ?thesis unfolding wake_inv_def by blast
qed

lemma wake_inv_submit: "wake_inv ops (submit e ts)"
  by (simp add: wake_inv_def observers_ok_def scheduler_has_def parked_def submit_def)

lemma reachable_wake_inv:
  assumes "(sys_step ops)\<^sup>*\<^sup>* (submit e ts) s" and "distinct (map task_key ts)"
  shows "wake_inv ops s"
  using assms(1)
proof (induction rule: rtranclp_induct)
  case base
  show ?case by (rule wake_inv_submit)
next
  case (step s s')
  show ?case by (rule wake_inv_step [OF step(2) reachable_owned [OF step(1) assms(2)] step(3)])
qed

text \<open>No thread is about to look at a parked driver.\<close>

definition quiescent :: "('env, 'd) sys \<Rightarrow> bool" where
  "quiescent s \<longleftrightarrow> reschedule_queue s = [] \<and> parkers s = {#} \<and> obs_notifying s = {#} \<and> (\<forall>k. obs_pc s k = OIdle) \<and>
     closures s = {#} \<and> dep_notifying s = {#}"

lemma quiescent_not_covered: "quiescent s \<Longrightarrow> \<not> covered s k"
  by (simp add: quiescent_def covered_def)

subsection \<open>The scheduler thread\<close>

text \<open>What one pass does with a parked driver.\<close>

definition after_look :: "('env, 'd) task_ops \<Rightarrow> ('env, 'd) sys \<Rightarrow> ('env, 'd) sys \<Rightarrow> 'd task \<Rightarrow> bool" where
  "after_look ops s s' t \<longleftrightarrow>
     (if should_abort_immediately ops s t then blocked_tasks s' (task_key t) = None \<and> t \<in># finishing s'
      else if task_check ops s t
      then blocked_tasks s' (task_key t) = None \<and> task_set_ready t \<in> set (exec_queue s') \<and> \<not> in_blocked s' (task_key t)
      else blocked_tasks s' (task_key t) = Some t)"

lemma try_schedule_key_eq:
  assumes "sched_thread s = SIdle"
  shows "try_schedule_key ops k s =
    (case blocked_tasks s k of
       None \<Rightarrow> s
     | Some t \<Rightarrow>
         let s0 = s\<lparr>blocked_tasks := (blocked_tasks s)(k := None)\<rparr> in
         if should_abort_immediately ops s t then (clear_blocked (task_key t) s0)\<lparr>finishing := add_mset t (finishing s), sched_thread := SIdle\<rparr>
         else if task_check ops s t
         then (clear_blocked (task_key t) s0)\<lparr>exec_queue := exec_queue s @ [task_set_ready t], sched_thread := SIdle\<rparr>
         else s\<lparr>blocked_tasks := (blocked_tasks s)(k := None, task_key t \<mapsto> t), sched_thread := SIdle\<rparr>)"
  using assms
  by (simp add: try_schedule_key_def schedule_take_def schedule_abort_def schedule_check_def schedule_put_def
      enqueue_ready_def clear_blocked_def should_abort_immediately_def task_pending_finish_def Let_def split: option.splits)

definition keys_ok :: "('env, 'd) sys \<Rightarrow> bool" where
  "keys_ok s \<longleftrightarrow> sched_thread s = SIdle \<and> (\<forall>k t. blocked_tasks s k = Some t \<longrightarrow> task_key t = k)"

text \<open>The fields a pass only extends or leaves alone.\<close>

definition extends :: "('env, 'd) sys \<Rightarrow> ('env, 'd) sys \<Rightarrow> bool" where
  "extends s s' \<longleftrightarrow>
     shared_env s' = shared_env s \<and> dep_ready s' = dep_ready s \<and> aborting s' = aborting s \<and>
     set (exec_queue s) \<subseteq> set (exec_queue s') \<and> set_mset (finishing s) \<subseteq> set_mset (finishing s')"

lemma extends_trans: "extends a b \<Longrightarrow> extends b c \<Longrightarrow> extends a c"
  by (auto simp: extends_def)

lemma scheduler_pass_look:
  assumes "keys_ok s" and "reschedule_queue s = k # ks"
  shows "keys_ok (scheduler_pass ops s) \<and> reschedule_queue (scheduler_pass ops s) = ks \<and> extends s (scheduler_pass ops s) \<and>
    (\<forall>t. blocked_tasks s k = Some t \<longrightarrow> after_look ops s (scheduler_pass ops s) t) \<and>
    (\<forall>k'. k' \<noteq> k \<or> blocked_tasks s k = None \<longrightarrow> blocked_tasks (scheduler_pass ops s) k' = blocked_tasks s k' \<and>
       in_blocked (scheduler_pass ops s) k' = in_blocked s k')"
proof (cases "blocked_tasks s k")
  case None
  with assms show ?thesis
    by (simp add: scheduler_pass_def try_schedule_key_eq keys_ok_def extends_def)
next
  case (Some t)
  with assms have "task_key t = k" by (simp add: keys_ok_def)
  with Some assms show ?thesis
    by (simp add: scheduler_pass_def try_schedule_key_eq keys_ok_def extends_def after_look_def clear_blocked_def
        should_abort_immediately_def task_pending_finish_def Let_def subset_insertI)
qed

lemma same_look:
  assumes "extends s s'"
  shows "should_abort_immediately ops s' t = should_abort_immediately ops s t" "task_check ops s' t = task_check ops s t"
  using assms by (simp_all add: extends_def should_abort_immediately_def task_pending_finish_def)

lemma scheduler_passes_look:
  assumes "keys_ok s"
  shows "reschedule_queue ((scheduler_pass ops ^^ length (reschedule_queue s)) s) = [] \<and>
    (\<forall>t. blocked_tasks s (task_key t) = Some t \<longrightarrow>
       (if task_key t \<in> set (reschedule_queue s)
        then after_look ops s ((scheduler_pass ops ^^ length (reschedule_queue s)) s) t
        else blocked_tasks ((scheduler_pass ops ^^ length (reschedule_queue s)) s) (task_key t) = Some t)) \<and>
    (\<forall>k. blocked_tasks s k = None \<longrightarrow>
       blocked_tasks ((scheduler_pass ops ^^ length (reschedule_queue s)) s) k = None \<and>
       in_blocked ((scheduler_pass ops ^^ length (reschedule_queue s)) s) k = in_blocked s k) \<and>
    extends s ((scheduler_pass ops ^^ length (reschedule_queue s)) s)"
  using assms
proof (induction "reschedule_queue s" arbitrary: s)
  case Nil
  then show ?case by (auto simp: extends_def)
next
  case (Cons k ks)
  let ?s1 = "scheduler_pass ops s"
  let ?s2 = "(scheduler_pass ops ^^ length ks) ?s1"
  have len: "length (reschedule_queue s) = Suc (length ks)" using Cons(2) by (metis length_Cons)
  have fin: "(scheduler_pass ops ^^ length (reschedule_queue s)) s = ?s2" unfolding len by (simp add: funpow_swap1)
  note one = scheduler_pass_look [OF Cons(3) Cons(2) [symmetric], of ops]
  then have q: "ks = reschedule_queue ?s1" "keys_ok ?s1" by blast+
  note two = Cons(1) [OF q, folded q(1)]
  have ext: "extends s ?s1" "extends ?s1 ?s2" using one two by blast+
  then have "extends s ?s2" by (rule extends_trans)
  moreover have "blocked_tasks ?s2 k' = None \<and> in_blocked ?s2 k' = in_blocked s k'" if "blocked_tasks s k' = None" for k'
    using one two that by (metis (no_types))
  moreover have "if task_key t \<in> set (reschedule_queue s) then after_look ops s ?s2 t else blocked_tasks ?s2 (task_key t) = Some t"
    if b: "blocked_tasks s (task_key t) = Some t" for t
  proof (cases "task_key t = k")
    case False
    then have "blocked_tasks ?s1 (task_key t) = Some t" "task_key t \<in> set (reschedule_queue s) \<longleftrightarrow> task_key t \<in> set ks"
      using one b Cons(2) by (simp_all flip: Cons(2))
    then show ?thesis
      using two same_look [OF ext(1)] by (auto simp: after_look_def split: if_splits)
  next
    case True
    with one b have l: "after_look ops s ?s1 t" by blast
    have m: "task_key t \<in> set (reschedule_queue s)" using True by (simp flip: Cons(2))
    show ?thesis
    proof (cases "blocked_tasks ?s1 (task_key t)")
      case None
      with two ext(2) l have "after_look ops s ?s2 t"
        by (auto simp: after_look_def extends_def split: if_splits)
      with m show ?thesis by simp
    next
      case (Some t1)
      with l have t: "blocked_tasks ?s1 (task_key t) = Some t" "\<not> should_abort_immediately ops s t" "\<not> task_check ops s t"
        by (auto simp: after_look_def split: if_splits)
      with two have "if task_key t \<in> set ks then after_look ops ?s1 ?s2 t else blocked_tasks ?s2 (task_key t) = Some t" by blast
      with t(2,3) m show ?thesis
        using same_look [OF ext(1)] by (auto simp: after_look_def split: if_splits)
    qed
  qed
  ultimately show ?case unfolding fin using two by blast
qed

lemma scheduler_pass_steps:
  assumes "sched_thread s = SIdle"
  shows "(sys_step ops)\<^sup>*\<^sup>* s (scheduler_pass ops s)"
proof (cases "reschedule_queue s")
  case Nil
  then show ?thesis by (simp add: scheduler_pass_def)
next
  case (Cons k ks)
  let ?s0 = "s\<lparr>reschedule_queue := ks\<rparr>"
  let ?s1 = "schedule_take k ?s0"
  have pop: "(sys_step ops)\<^sup>*\<^sup>* s ?s1" using sched_pop [OF assms Cons] by blast
  show ?thesis
  proof (cases "blocked_tasks s k")
    case None
    then show ?thesis using pop Cons assms
      by (simp add: scheduler_pass_def try_schedule_key_def schedule_take_def)
  next
    case (Some t)
    let ?s2 = "schedule_abort ops t ?s1" and ?s3 = "schedule_check ops t (schedule_abort ops t ?s1)"
    have t1: "sched_thread ?s1 = STaken t" using Some by (simp add: schedule_take_def)
    have two: "(sys_step ops)\<^sup>*\<^sup>* s ?s2" using pop sched_abort [OF t1] by (rule rtranclp.rtrancl_into_rtrancl)
    have pass: "scheduler_pass ops s = (case sched_thread ?s2 of
        SChecked t \<Rightarrow> (case sched_thread (schedule_check ops t ?s2) of
            SReady t' \<Rightarrow> enqueue_ready t' ((schedule_check ops t ?s2)\<lparr>sched_thread := SIdle\<rparr>)
          | SPut t' \<Rightarrow> schedule_put t' (schedule_check ops t ?s2)
          | _ \<Rightarrow> schedule_check ops t ?s2)
      | _ \<Rightarrow> ?s2)"
      unfolding scheduler_pass_def try_schedule_key_def Let_def by (simp add: Cons t1)
    show ?thesis
    proof (cases "should_abort_immediately ops ?s1 t")
      case True
      then have "sched_thread ?s2 = SIdle" by (simp add: schedule_abort_def)
      then show ?thesis using two pass by simp
    next
      case False
      then have t2: "sched_thread ?s2 = SChecked t" by (simp add: schedule_abort_def)
      have three: "(sys_step ops)\<^sup>*\<^sup>* s ?s3" using two sched_check [OF t2] by (rule rtranclp.rtrancl_into_rtrancl)
      show ?thesis
      proof (cases "task_check ops ?s2 t")
        case True
        then have t3: "sched_thread ?s3 = SReady (task_set_ready t)" by (simp add: schedule_check_def)
        from three sched_ready [OF t3] have "(sys_step ops)\<^sup>*\<^sup>* s (enqueue_ready (task_set_ready t) (?s3\<lparr>sched_thread := SIdle\<rparr>))"
          by (rule rtranclp.rtrancl_into_rtrancl)
        then show ?thesis using pass t2 t3 by simp
      next
        case False
        then have t3: "sched_thread ?s3 = SPut t" by (simp add: schedule_check_def)
        from three sched_put [OF t3] have "(sys_step ops)\<^sup>*\<^sup>* s (schedule_put t ?s3)" by (rule rtranclp.rtrancl_into_rtrancl)
        then show ?thesis using pass t2 t3 by simp
      qed
    qed
  qed
qed

lemma scheduler_passes_steps:
  assumes "keys_ok s"
  shows "(sys_step ops)\<^sup>*\<^sup>* s ((scheduler_pass ops ^^ n) s)"
  using assms
proof (induction n arbitrary: s)
  case (Suc n)
  have "keys_ok (scheduler_pass ops s)"
  proof (cases "reschedule_queue s")
    case Nil
    then show ?thesis using Suc.prems by (simp add: scheduler_pass_def)
  next
    case (Cons k ks)
    from scheduler_pass_look [OF Suc.prems this] show ?thesis by blast
  qed
  from Suc.IH [OF this] scheduler_pass_steps [of s ops] Suc.prems show ?case
    by (simp add: funpow_swap1 keys_ok_def)
qed simp

subsection \<open>Properties\<close>

text \<open>
  (C24) Every interleaving accounts for every driver: a driver is in at most one of the executor
  queue, a worker's hands, the blocked map, the scheduler thread's hands, the poller and the
  finishing path; the fragment's counter is the number of drivers that are somewhere, and waiting
  for the fragment returns exactly when none is left.
\<close>

theorem drivers_accounted:
  assumes "(sys_step ops)\<^sup>*\<^sup>* (submit e ts) s" and "distinct (map task_key ts)"
  shows "(\<forall>k. places s k \<le> 1) \<and> remaining s = card {k. places s k = 1} \<and>
    (completion_wait s = None \<longleftrightarrow> (\<exists>k. places s k = 1))"
proof -
  let ?D = "set (map task_key ts)"
  have fin: "finite ?D" and le: "\<And>k. places s k \<le> 1" and out: "\<And>k. k \<notin> ?D \<Longrightarrow> places s k = 0"
    and rem: "remaining s = (\<Sum>k\<in>?D. places s k)"
    using reachable_owned [OF assms] unfolding owned_once_def by blast+
  have sub: "{k. places s k = 1} \<subseteq> ?D" using out by force
  have "(\<Sum>k\<in>?D. places s k) = (\<Sum>k\<in>?D. if k \<in> {k. places s k = 1} then 1 else 0)"
    by (rule sum.cong) (use le in \<open>auto simp: le_Suc_eq\<close>)
  also have "\<dots> = card {k. places s k = 1}"
    using fin sub by (simp add: sum.If_cases Int_absorb1 del: mem_Collect_eq)
  finally have card: "remaining s = card {k. places s k = 1}" using rem by simp
  moreover have "completion_wait s = None \<longleftrightarrow> 0 < remaining s" by (simp add: completion_wait_def)
  moreover have "0 < card {k. places s k = 1} \<longleftrightarrow> (\<exists>k. places s k = 1)"
    using finite_subset [OF sub fin] by (auto simp: card_gt_0_iff)
  ultimately show ?thesis using le by simp
qed

text \<open>
  (C25) No wake-up for readiness is lost: in every reachable state a parked driver whose
  condition holds is queued for the scheduler thread or some thread is still about to queue it,
  so when all of them are at rest no parked driver is ready.
\<close>

theorem no_lost_wakeup:
  assumes "(sys_step ops)\<^sup>*\<^sup>* (submit e ts) s" and "distinct (map task_key ts)"
    and "blocked_tasks s k = Some t" and "task_check ops s t"
  shows "covered s k \<and> \<not> quiescent s"
proof -
  have "task_key t = k" using reachable_owned [OF assms(1,2)] assms(3) unfolding owned_once_def by blast
  then have "parked s t" using assms(3) by (simp add: parked_def)
  then have "covered s (task_key t)" using reachable_wake_inv [OF assms(1,2)] assms(4) unfolding wake_inv_def by blast
  with \<open>task_key t = k\<close> show ?thesis using quiescent_not_covered by blast
qed

text \<open>
  (C26) The scheduler thread makes progress: from every reachable state in which it is idle, as
  many passes as its queue is long, which are steps of the system, empty the queue and settle
  every queued driver. Aborted drivers go to the finishing path, ready ones to the executor
  queue, the others are back in the blocked map.
\<close>

theorem scheduler_settles_queue:
  assumes "(sys_step ops)\<^sup>*\<^sup>* (submit e ts) s" and "distinct (map task_key ts)" and "sched_thread s = SIdle"
  shows "\<exists>s'. (sys_step ops)\<^sup>*\<^sup>* s s' \<and> s' = (scheduler_pass ops ^^ length (reschedule_queue s)) s \<and>
    reschedule_queue s' = [] \<and>
    (\<forall>k \<in> set (reschedule_queue s). \<forall>t. blocked_tasks s k = Some t \<longrightarrow> after_look ops s s' t)"
proof -
  let ?s' = "(scheduler_pass ops ^^ length (reschedule_queue s)) s"
  have keys: "\<forall>k t. blocked_tasks s k = Some t \<longrightarrow> task_key t = k"
    using reachable_owned [OF assms(1,2)] unfolding owned_once_def by blast
  then have ok: "keys_ok s" using assms(3) by (simp add: keys_ok_def)
  note look = scheduler_passes_look [OF ok, of ops]
  have "after_look ops s ?s' t" if "k \<in> set (reschedule_queue s)" "blocked_tasks s k = Some t" for k t
  proof -
    have "task_key t = k" using keys that(2) by blast
    with look that show ?thesis by metis
  qed
  with look scheduler_passes_steps [OF ok] show ?thesis by blast
qed

subsection \<open>Concrete runs\<close>

text \<open>One driver that reads from a source which is ready when the environment says so.\<close>

definition demo_ops :: "(bool, bool) task_ops" where
  "demo_ops = \<lparr>ready_now = (\<lambda>e d r. e), pending_finish_now = (\<lambda>e d. False), has_observable = (\<lambda>d r. True)\<rparr>"

definition demo_task :: "driver_state \<Rightarrow> bool task" where
  "demo_task st = \<lparr>task_key = 0, task_driver = True, task_state = st\<rparr>"

abbreviation demo_start :: "(bool, bool) sys" where
  "demo_start \<equiv> submit False [demo_task Ready]"

abbreviation demo_blocked :: "bool task" where
  "demo_blocked \<equiv> demo_task (Blocked InputEmpty)"

text \<open>The driver parked, with the given contents of the scheduler's queue and threads.\<close>

lemma demo_task_sel: "task_key (demo_task st) = 0" "task_state (demo_task st) = st" "task_driver (demo_task st) = True"
  by (simp_all add: demo_task_def)

definition demo_sys :: "(nat \<rightharpoonup> bool task) \<Rightarrow> nat list \<Rightarrow> bool scheduler_pc \<Rightarrow> (nat \<Rightarrow> bool) \<Rightarrow>
    (nat \<times> nat option \<times> park_pc) multiset \<Rightarrow> (bool, bool) sys" where
  "demo_sys B R pc ib P = demo_start\<lparr>exec_queue := [], blocked_tasks := B, reschedule_queue := R,
     sched_thread := pc, in_blocked := ib, parkers := P\<rparr>"

definition demo_failing :: "(nat \<rightharpoonup> bool task) \<Rightarrow> nat list \<Rightarrow> bool scheduler_pc \<Rightarrow>
    (string \<times> fail_pc \<times> bool task option) multiset \<Rightarrow> (bool, bool) sys" where
  "demo_failing B R pc F = (demo_sys B R pc ((\<lambda>_. False)(0 := True)) {#})
     \<lparr>need_check_reschedule := (\<lambda>k. k = 0), failers := F, final_error := Some ''cancelled'', fragment_cancelled := True\<rparr>"

lemmas demo_defs = demo_task_sel demo_sys_def demo_failing_def submit_def should_abort_immediately_def
  task_pending_finish_def demo_ops_def

lemma run_step: "(sys_step ops)\<^sup>*\<^sup>* a b \<Longrightarrow> sys_step ops b c \<Longrightarrow> c = d \<Longrightarrow> (sys_step ops)\<^sup>*\<^sup>* a d"
  by simp

lemma demo_distinct: "distinct (map task_key [demo_task Ready])"
  by simp

lemma demo_inserted:
  "(sys_step demo_ops)\<^sup>*\<^sup>* demo_start (demo_sys [0 \<mapsto> demo_blocked] [] SIdle (\<lambda>_. False) {#(0, None, PMark)#})"
proof -
  have "(sys_step demo_ops)\<^sup>*\<^sup>* demo_start (demo_start\<lparr>exec_queue := [], workers := {#(demo_task Ready, WTaken)#}\<rparr>)"
    by (rule run_step [OF rtranclp.rtrancl_refl work_take [where q = "[]"]]) (simp_all add: demo_defs)
  then have "(sys_step demo_ops)\<^sup>*\<^sup>* demo_start (demo_start\<lparr>exec_queue := [], workers := {#(demo_task Ready, WRun)#}\<rparr>)"
    by (rule run_step [OF _ work_start [where t = "demo_task Ready" and W = "{#}"]]) (simp_all add: demo_defs)
  then have "(sys_step demo_ops)\<^sup>*\<^sup>* demo_start (demo_start\<lparr>exec_queue := [], workers := {#(demo_blocked, WRan)#}\<rparr>)"
    by (rule run_step [OF _ work_run [where t = "demo_task Ready" and W = "{#}" and t' = demo_blocked]])
      (simp_all add: demo_defs)
  then have "(sys_step demo_ops)\<^sup>*\<^sup>* demo_start (demo_start\<lparr>exec_queue := [], workers := {#(demo_blocked, WPark)#}\<rparr>)"
    by (rule run_step [OF _ work_block [where t = demo_blocked and W = "{#}" and r = InputEmpty]])
      (simp_all add: demo_defs)
  then show ?thesis
    by (rule run_step [OF _ work_park [where t = demo_blocked and W = "{#}" and r = InputEmpty]])
      (simp_all add: demo_defs park_insert_def dep_of_def)
qed

lemma demo_parked:
  "(sys_step demo_ops)\<^sup>*\<^sup>* demo_start (demo_sys [0 \<mapsto> demo_blocked] [0] SIdle ((\<lambda>_. False)(0 := True)) {#})"
proof -
  have "(sys_step demo_ops)\<^sup>*\<^sup>* demo_start
      (demo_sys [0 \<mapsto> demo_blocked] [] SIdle ((\<lambda>_. False)(0 := True)) {#(0, None, PEnqueue)#})"
    by (rule run_step [OF demo_inserted park_marks [where k = 0 and dep = None and P = "{#}"]])
      (simp_all add: demo_defs park_mark_def)
  then show ?thesis
    by (rule run_step [OF _ park_enqueues [where k = 0 and dep = None and P = "{#}"]])
      (simp_all add: demo_defs enqueue_def)
qed

text \<open>One pass of the scheduler over the driver while the fragment is failing but not yet aborting.\<close>

lemma demo_pass:
  assumes "(sys_step demo_ops)\<^sup>*\<^sup>* demo_start (demo_failing [0 \<mapsto> demo_blocked] (0 # R) SIdle F)"
  shows "(sys_step demo_ops)\<^sup>*\<^sup>* demo_start (demo_failing [0 \<mapsto> demo_blocked] R SIdle F)"
proof -
  from assms have "(sys_step demo_ops)\<^sup>*\<^sup>* demo_start (demo_failing Map.empty R (STaken demo_blocked) F)"
    by (rule run_step [OF _ sched_pop [where k = 0 and ks = R]]) (simp_all add: demo_defs schedule_take_def)
  then have "(sys_step demo_ops)\<^sup>*\<^sup>* demo_start (demo_failing Map.empty R (SChecked demo_blocked) F)"
    by (rule run_step [OF _ sched_abort [where t = demo_blocked]]) (simp_all add: demo_defs schedule_abort_def)
  then have "(sys_step demo_ops)\<^sup>*\<^sup>* demo_start (demo_failing Map.empty R (SPut demo_blocked) F)"
    by (rule run_step [OF _ sched_check [where t = demo_blocked]])
      (simp_all add: demo_defs schedule_check_def task_is_ready_def)
  then show ?thesis
    by (rule run_step [OF _ sched_put [where t = demo_blocked]]) (simp_all add: demo_defs schedule_put_def)
qed

lemma demo_cancel_wakes:
  "(sys_step demo_ops)\<^sup>*\<^sup>* demo_start (demo_failing [0 \<mapsto> demo_blocked] [0, 0] SIdle {#(''cancelled'', FAbort, None)#})"
proof -
  let ?s = "demo_sys [0 \<mapsto> demo_blocked] [0] SIdle ((\<lambda>_. False)(0 := True)) {#}"
  have "(sys_step demo_ops)\<^sup>*\<^sup>* demo_start (?s\<lparr>failers := {#(''cancelled'', FStatus, None)#}\<rparr>)"
    by (rule run_step [OF demo_parked cancel [where err = "''cancelled''"]]) (simp_all add: demo_defs)
  then have "(sys_step demo_ops)\<^sup>*\<^sup>* demo_start
      (?s\<lparr>failers := {#(''cancelled'', FCancel, None)#}, final_error := Some ''cancelled''\<rparr>)"
    by (rule run_step [OF _ fail_first [where err = "''cancelled''" and ot = None and F = "{#}" and pc = FCancel and
      s' = "?s\<lparr>failers := {#(''cancelled'', FStatus, None)#}, final_error := Some ''cancelled''\<rparr>"]])
      (simp_all add: demo_defs fail_status_def)
  then have "(sys_step demo_ops)\<^sup>*\<^sup>* demo_start (?s\<lparr>failers := {#(''cancelled'', FCollect, None)#},
      final_error := Some ''cancelled'', fragment_cancelled := True\<rparr>)"
    by (rule run_step [OF _ fail_cancel [where err = "''cancelled''" and ot = None and F = "{#}"]])
      (simp_all add: demo_defs)
  then have "(sys_step demo_ops)\<^sup>*\<^sup>* demo_start
      (demo_failing [0 \<mapsto> demo_blocked] [0] SIdle {#(''cancelled'', FPush [0], None)#})"
    by (rule run_step [OF _ fail_collect [where err = "''cancelled''" and ot = None and F = "{#}" and ks = "[0]"]])
      (simp_all add: demo_defs collect_blocked_def)
  then show ?thesis
    by (rule run_step [OF _ fail_push [where err = "''cancelled''" and ot = None and F = "{#}" and ks = "[0]"]])
      (simp_all add: demo_defs push_blocked_keys_def)
qed

text \<open>The driver parked before it is marked, and an environment change that makes it ready.\<close>

lemma demo_env:
  "(sys_step demo_ops)\<^sup>*\<^sup>* demo_start
     ((demo_sys [0 \<mapsto> demo_blocked] [] SIdle (\<lambda>_. False) {#(0, None, PMark)#})\<lparr>shared_env := True, obs_notifying := {#0#}\<rparr>)"
  by (rule run_step [OF demo_inserted env_change [where e = True and K = "{#0#}"]])
    (auto simp: demo_defs parked_def split: if_splits)

theorem drivers_accounted_witness:
  "remaining (demo_sys [0 \<mapsto> demo_blocked] [] SIdle (\<lambda>_. False) {#(0, None, PMark)#}) = 1 \<and>
   (\<exists>k. places (demo_sys [0 \<mapsto> demo_blocked] [] SIdle (\<lambda>_. False) {#(0, None, PMark)#}) k = 1)"
  using drivers_accounted [OF demo_inserted]
  by (simp add: demo_sys_def submit_def completion_wait_def)

theorem no_lost_wakeup_witness:
  "covered ((demo_sys [0 \<mapsto> demo_blocked] [] SIdle (\<lambda>_. False) {#(0, None, PMark)#})
     \<lparr>shared_env := True, obs_notifying := {#0#}\<rparr>) 0"
  using no_lost_wakeup [OF demo_env, of 0 demo_blocked] by (simp add: demo_defs task_is_ready_def)

theorem scheduler_settles_queue_witness:
  "\<exists>s'. (sys_step demo_ops)\<^sup>*\<^sup>* (demo_sys [0 \<mapsto> demo_blocked] [0] SIdle ((\<lambda>_. False)(0 := True)) {#}) s' \<and>
     reschedule_queue s' = [] \<and>
     after_look demo_ops (demo_sys [0 \<mapsto> demo_blocked] [0] SIdle ((\<lambda>_. False)(0 := True)) {#}) s' demo_blocked"
proof -
  let ?s = "demo_sys [0 \<mapsto> demo_blocked] [0] SIdle ((\<lambda>_. False)(0 := True)) {#}"
  have "sched_thread ?s = SIdle" "reschedule_queue ?s = [0]" "blocked_tasks ?s 0 = Some demo_blocked"
    by (simp_all add: demo_defs)
  moreover obtain s' where "(sys_step demo_ops)\<^sup>*\<^sup>* ?s s'" "reschedule_queue s' = []"
    "\<forall>k \<in> set (reschedule_queue ?s). \<forall>t. blocked_tasks ?s k = Some t \<longrightarrow> after_look demo_ops ?s s' t"
    using scheduler_settles_queue [OF demo_parked demo_distinct \<open>sched_thread ?s = SIdle\<close>] by blast
  ultimately show ?thesis by (intro exI [of _ s']) simp
qed

text \<open>
  (C27) Cancelling a fragment can lose its own wake-up. \<open>fail_internal\<close> queues every blocked driver
  before it raises the abort flag; a scheduler thread that is fast enough finds the driver
  neither aborted nor ready and puts it back, the flag is raised, and nothing queues the driver
  again. The run ends in a state in which every thread is at rest, the fragment is aborting, the
  driver is still in the blocked map and waiting for the fragment does not return.
\<close>

theorem abort_wakeup_lost:
  "\<exists>s. (sys_step demo_ops)\<^sup>*\<^sup>* demo_start s \<and> quiescent s \<and> sched_thread s = SIdle \<and> failers s = {#} \<and>
     exec_queue s = [] \<and> workers s = {#} \<and> finishing s = {#} \<and> poller_tasks s = [] \<and> poll_out s = [] \<and>
     aborting s \<and> fragment_cancelled s \<and> blocked_tasks s 0 = Some demo_blocked \<and> should_abort_immediately demo_ops s demo_blocked \<and>
     completion_wait s = None"
proof -
  let ?s = "demo_failing [0 \<mapsto> demo_blocked] [] SIdle {#(''cancelled'', FAbort, None)#}"
  let ?s' = "fail_abort ''cancelled'' (?s\<lparr>failers := {#}\<rparr>)"
  have "(sys_step demo_ops)\<^sup>*\<^sup>* demo_start ?s" by (rule demo_pass [OF demo_pass [OF demo_cancel_wakes]])
  then have "(sys_step demo_ops)\<^sup>*\<^sup>* demo_start ?s'"
    by (rule run_step [OF _ fail_raise [where err = "''cancelled''" and ot = None and F = "{#}"]])
      (simp_all add: demo_defs fail_abort_def)
  moreover have "quiescent ?s'" by (simp add: quiescent_def demo_defs fail_abort_def)
  moreover have "sched_thread ?s' = SIdle \<and> failers ?s' = {#} \<and> exec_queue ?s' = [] \<and> workers ?s' = {#} \<and>
      finishing ?s' = {#} \<and> poller_tasks ?s' = [] \<and> poll_out ?s' = []"
    by (simp add: demo_defs fail_abort_def)
  moreover have "aborting ?s' \<and> fragment_cancelled ?s' \<and> blocked_tasks ?s' 0 = Some demo_blocked \<and>
      should_abort_immediately demo_ops ?s' demo_blocked \<and> completion_wait ?s' = None"
    by (simp add: demo_defs fail_abort_def completion_wait_def)
  ultimately show ?thesis by blast
qed

end
