(* ===== verification/Byte_Codec.thy ===== *)
theory Byte_Codec
  imports Nova_Prelude "HOL-Library.Word"
begin

text \<open>
  Byte strings and the fixed-width integer codecs of the storage formats: \<open>to_le_bytes\<close>,
  \<open>from_le_bytes\<close> and their big-endian forms, sub-slices, and the interface \<open>fixed_codec\<close> that
  the page decoders use to read arrays of encoded integers.
\<close>

type_synonym byte = "8 word"

subsection \<open>Slices\<close>

text \<open>\<open>&xs[i..j]\<close>; every use is behind the range check of the code.\<close>

definition subslice :: "nat \<Rightarrow> nat \<Rightarrow> 'a list \<Rightarrow> 'a list" where
  "subslice i j xs = take (j - i) (drop i xs)"

lemma length_subslice [simp]: "j \<le> length xs \<Longrightarrow> length (subslice i j xs) = j - i"
  by (simp add: subslice_def)

lemma subslice_0 [simp]: "subslice 0 j xs = take j xs"
  by (simp add: subslice_def)

lemma subslice_full [simp]: "subslice i (length xs) xs = drop i xs"
  by (simp add: subslice_def)

lemma subslice_append_left: "j \<le> length xs \<Longrightarrow> subslice i j (xs @ ys) = subslice i j xs"
  by (simp add: subslice_def)

lemma subslice_append_right:
  "length xs \<le> i \<Longrightarrow> subslice i j (xs @ ys) = subslice (i - length xs) (j - length xs) ys"
  by (simp add: subslice_def)

lemma subslice_middle: "i = length xs \<Longrightarrow> j = i + length ys \<Longrightarrow> subslice i j (xs @ ys @ zs) = ys"
  by (simp add: subslice_def)

text \<open>Two writes into a buffer, one right after the other, are one write.\<close>

lemma overwrite_twice:
  assumes "k + length a + length b \<le> length buf"
  shows "take (k + length a) (take k buf @ a @ drop (k + length a) buf) @ b @
      drop (k + length a + length b) (take k buf @ a @ drop (k + length a) buf) =
    take k buf @ (a @ b) @ drop (k + length (a @ b)) buf"
  using assms by (simp add: ac_simps)

subsection \<open>Little and big endian integers\<close>

primrec le_bytes :: "nat \<Rightarrow> nat \<Rightarrow> byte list" where
  "le_bytes 0 n = []"
| "le_bytes (Suc k) n = of_nat n # le_bytes k (n div 256)"

primrec from_le :: "byte list \<Rightarrow> nat" where
  "from_le [] = 0"
| "from_le (b # bs) = unat b + 256 * from_le bs"

definition be_bytes :: "nat \<Rightarrow> nat \<Rightarrow> byte list" where
  "be_bytes k n = rev (le_bytes k n)"

definition from_be :: "byte list \<Rightarrow> nat" where
  "from_be bs = from_le (rev bs)"

lemma length_le_bytes [simp]: "length (le_bytes k n) = k"
  by (induction k arbitrary: n) simp_all

lemma le_bytes_eq_Nil [simp]: "le_bytes k n = [] \<longleftrightarrow> k = 0"
  by (cases k) simp_all

lemma length_be_bytes [simp]: "length (be_bytes k n) = k"
  by (simp add: be_bytes_def)

lemma unat_of_nat_byte: "unat (of_nat n :: byte) = n mod 256"
  by (simp add: unat_of_nat)

lemma unat_byte_less [simp]: "unat (b :: byte) < 256"
  by (rule order_less_le_trans [OF unsigned_less]) simp

lemma from_le_le_bytes: "from_le (le_bytes k n) = n mod 256 ^ k"
proof (induction k arbitrary: n)
  case (Suc k)
  have "n mod (256 * 256 ^ k) = n mod 256 + 256 * (n div 256 mod 256 ^ k)"
    by (simp add: mod_mult2_eq)
  with Suc show ?case by (simp add: unat_of_nat_byte)
qed simp

lemma from_le_less: "from_le bs < 256 ^ length bs"
proof (induction bs)
  case (Cons b bs)
  have "unat b + 256 * from_le bs < 256 * Suc (from_le bs)"
    by simp
  also have "\<dots> \<le> 256 * 256 ^ length bs"
    using Cons by (intro mult_le_mono2) simp
  finally show ?case by simp
qed simp

lemma le_bytes_from_le: "le_bytes (length bs) (from_le bs) = bs"
proof (induction bs)
  case (Cons b bs)
  have "(of_nat (256 * from_le bs) :: byte) = 0"
    by (simp add: word_of_nat_eq_0_iff del: of_nat_mult)
  then have "(of_nat (unat b + 256 * from_le bs) :: byte) = b" by (simp only: of_nat_add) simp
  moreover have "(unat b + 256 * from_le bs) div 256 = from_le bs"
    by simp
  ultimately show ?case using Cons by simp
qed simp

lemma from_le_append: "from_le (xs @ ys) = from_le xs + 256 ^ length xs * from_le ys"
  by (induction xs) (simp_all add: algebra_simps)

subsection \<open>Bits\<close>

text \<open>A number below \<open>2 ^ k\<close> and a multiple of \<open>2 ^ k\<close> have their bits in disjoint places.\<close>

lemma bit_split:
  fixes a c :: nat
  assumes "a < 2 ^ k"
  shows "bit (a + 2 ^ k * c) n \<longleftrightarrow> (if n < k then bit a n else bit c (n - k))"
proof (cases "n < k")
  case True
  then have "(2 :: nat) ^ k = 2 ^ n * 2 ^ (k - n)" by (simp flip: power_add)
  then have "(a + 2 ^ k * c) div 2 ^ n = (a + 2 ^ n * (2 ^ (k - n) * c)) div 2 ^ n"
    by (simp only: mult.assoc)
  then have "(a + 2 ^ k * c) div 2 ^ n = a div 2 ^ n + 2 ^ (k - n) * c" by simp
  moreover have "even (2 ^ (k - n) * c)" using True by simp
  ultimately show ?thesis using True by (simp add: bit_iff_odd)
next
  case False
  then have "(2 :: nat) ^ n = 2 ^ k * 2 ^ (n - k)" by (simp flip: power_add)
  then have "(a + 2 ^ k * c) div 2 ^ n = (a + 2 ^ k * c) div 2 ^ k div 2 ^ (n - k)"
    by (simp add: div_mult2_eq)
  also have "(a + 2 ^ k * c) div 2 ^ k = c" using assms by simp
  finally show ?thesis using False by (simp add: bit_iff_odd)
qed

lemma or_push_bit_of_nat:
  assumes "a < 2 ^ k"
  shows "Bit_Operations.or (of_nat a :: 'a::len word) (push_bit k (of_nat c)) = of_nat (a + 2 ^ k * c)"
proof -
  define m where "m = a + 2 ^ k * c"
  have "Bit_Operations.or (of_nat a :: 'a word) (push_bit k (of_nat c)) = of_nat m"
  proof (rule bit_word_eqI)
    fix n
    assume "n < LENGTH('a)"
    moreover have "\<not> bit a n" if "\<not> n < k"
      using bit_split [OF assms, of 0 n] that by simp
    moreover have "bit m n \<longleftrightarrow> (if n < k then bit a n else bit c (n - k))"
      by (simp add: m_def bit_split [OF assms])
    ultimately show "bit (Bit_Operations.or (of_nat a :: 'a word) (push_bit k (of_nat c))) n =
        bit (of_nat m :: 'a word) n"
      by (auto simp: bit_simps)
  qed
  then show ?thesis by (simp add: m_def)
qed

subsection \<open>Fixed-width codecs\<close>

text \<open>What the decoders rely on: the width of a code and that decoding undoes encoding.\<close>

locale fixed_codec =
  fixes enc :: "'a \<Rightarrow> byte list"
    and dec :: "byte list \<Rightarrow> 'a"
    and width :: nat
    and ok :: "'a \<Rightarrow> bool"
  assumes length_enc: "length (enc x) = width"
    and dec_enc: "ok x \<Longrightarrow> dec (enc x) = x"
begin

lemma length_array [simp]: "length (concat (map enc xs)) = length xs * width"
  by (induction xs) (simp_all add: length_enc)

lemma array_slice:
  "i < length xs \<Longrightarrow> subslice (i * width) (i * width + width) (concat (map enc xs)) = enc (xs ! i)"
proof (induction xs arbitrary: i)
  case (Cons x xs)
  show ?case
  proof (cases i)
    case 0
    then show ?thesis by (simp add: subslice_def length_enc)
  next
    case (Suc k)
    with Cons show ?thesis by (simp add: subslice_append_right length_enc add.commute)
  qed
qed simp

lemma array_read:
  assumes "i < length xs" and "ok (xs ! i)"
  shows "dec (subslice (length pre + i * width) (length pre + i * width + width)
           (pre @ concat (map enc xs) @ post)) = xs ! i"
proof -
  have "i * width + width \<le> length xs * width"
    using assms(1) by (metis Suc_leI add.commute mult_Suc mult_le_mono1)
  then have "subslice (length pre + i * width) (length pre + i * width + width)
      (pre @ concat (map enc xs) @ post) = enc (xs ! i)"
    using array_slice [OF assms(1)] by (simp add: subslice_append_right subslice_append_left)
  with assms(2) show ?thesis by (simp add: dec_enc)
qed

end

interpretation u32_le: fixed_codec "le_bytes 4" from_le 4 "\<lambda>n. n < 2 ^ 32"
  by unfold_locales (simp_all add: from_le_le_bytes)

interpretation u32_be: fixed_codec "be_bytes 4" from_be 4 "\<lambda>n. n < 2 ^ 32"
  by unfold_locales (simp_all add: from_le_le_bytes be_bytes_def from_be_def)

interpretation u64_le: fixed_codec "le_bytes 8" from_le 8 "\<lambda>n. n < 2 ^ 64"
  by unfold_locales (simp_all add: from_le_le_bytes)

text \<open>The two's complement reading of 32 bits, \<open>i32::from_le_bytes\<close>.\<close>

definition i32_of_u32 :: "nat \<Rightarrow> int" where
  "i32_of_u32 n = (if n < 2 ^ 31 then int n else int n - 2 ^ 32)"

definition u32_of_i32 :: "int \<Rightarrow> nat" where
  "u32_of_i32 i = nat (i mod 2 ^ 32)"

lemma i32_roundtrip: "- (2 ^ 31) \<le> i \<Longrightarrow> i < 2 ^ 31 \<Longrightarrow> i32_of_u32 (u32_of_i32 i) = i"
proof (cases "0 \<le> i")
  case True
  moreover assume "- (2 ^ 31) \<le> i" "i < 2 ^ 31"
  ultimately show ?thesis by (simp add: i32_of_u32_def u32_of_i32_def)
next
  case False
  moreover assume "- (2 ^ 31) \<le> i" "i < 2 ^ 31"
  ultimately have "(i + 2 ^ 32) mod (2 ^ 32 :: int) = i + 2 ^ 32"
    by (intro mod_pos_pos_trivial) simp_all
  then have "i mod 2 ^ 32 = i + 2 ^ 32" by simp
  with False \<open>- (2 ^ 31) \<le> i\<close> show ?thesis by (simp add: i32_of_u32_def u32_of_i32_def)
qed

interpretation i32_le: fixed_codec "\<lambda>i. le_bytes 4 (u32_of_i32 i)" "\<lambda>bs. i32_of_u32 (from_le bs)" 4
  "\<lambda>i. - (2 ^ 31) \<le> i \<and> i < 2 ^ 31"
proof unfold_locales
  fix i :: int
  assume "- (2 ^ 31) \<le> i \<and> i < 2 ^ 31"
  moreover have "u32_of_i32 i < 2 ^ 32" by (simp add: u32_of_i32_def)
  ultimately show "i32_of_u32 (from_le (le_bytes 4 (u32_of_i32 i))) = i"
    by (simp add: from_le_le_bytes i32_roundtrip)
qed simp

end
