(* ===== verification/Temporal_Codec.thy ===== *)
theory Temporal_Codec
  imports Byte_Codec
begin

text \<open>
  DATE and DATETIME values: the storage form the segment writer produces
  (\<open>src/src/formats/starrocks/writer/segment_data.rs\<close>), the conversions of the reader
  (\<open>.../reader/types/temporal.rs\<close>), and the numeric date literals the writer accepts. A
  DATETIME is a 64-bit word with the Julian day above bit 40 and the microseconds of the day
  below it; shifts are shifts of that word.
\<close>

unbundle bit_operations_syntax

datatype temporal_error =
    DateOverflow int
  | DatetimeNegative int
  | DatetimeMicrosInvalid int
  | DatetimeOverflow int

definition DATE_UNIX_EPOCH_JULIAN :: int where "DATE_UNIX_EPOCH_JULIAN = 2440588"
definition TIMESTAMP_BITS :: nat where "TIMESTAMP_BITS = 40"
definition TIMESTAMP_TIME_MASK :: "64 word" where "TIMESTAMP_TIME_MASK = push_bit TIMESTAMP_BITS 1 - 1"
definition USECS_PER_DAY_I64 :: int where "USECS_PER_DAY_I64 = 86400000000"

definition in_i32 :: "int \<Rightarrow> bool" where
  "in_i32 x \<longleftrightarrow> - (2 ^ 31) \<le> x \<and> x < 2 ^ 31"

definition checked_add_i64 :: "int \<Rightarrow> int \<Rightarrow> int option" where
  "checked_add_i64 a b = (if in_i64 (a + b) then Some (a + b) else None)"

definition checked_mul_i64 :: "int \<Rightarrow> int \<Rightarrow> int option" where
  "checked_mul_i64 a b = (if in_i64 (a * b) then Some (a * b) else None)"

subsection \<open>Writing\<close>

definition encode_date_storage_from_unix_days :: "int \<Rightarrow> temporal_error + int" where
  "encode_date_storage_from_unix_days unix_days =
     (case checked_add_i64 DATE_UNIX_EPOCH_JULIAN unix_days of
        None \<Rightarrow> Inl (DateOverflow unix_days)
      | Some julian \<Rightarrow> if in_i32 julian then Inr julian else Inl (DateOverflow unix_days))"

definition encode_datetime_storage_from_unix_micros :: "int \<Rightarrow> temporal_error + int" where
  "encode_datetime_storage_from_unix_micros unix_micros =
     (let days_since_epoch = unix_micros div USECS_PER_DAY_I64;
          micros_of_day = unix_micros mod USECS_PER_DAY_I64
      in if \<not> (0 \<le> micros_of_day \<and> micros_of_day < USECS_PER_DAY_I64)
         then Inl (DatetimeMicrosInvalid unix_micros)
         else case checked_add_i64 DATE_UNIX_EPOCH_JULIAN days_since_epoch of
           None \<Rightarrow> Inl (DatetimeOverflow unix_micros)
         | Some julian_day \<Rightarrow>
             if julian_day < 0 then Inl (DatetimeNegative unix_micros)
             else let encoded = push_bit TIMESTAMP_BITS (of_int julian_day) OR
                        (of_int micros_of_day AND TIMESTAMP_TIME_MASK) :: 64 word
                  in if unat encoded < 2 ^ 63 then Inr (uint encoded)
                     else Inl (DatetimeOverflow unix_micros))"

subsection \<open>Reading\<close>

definition convert_date32_julian_to_unix_days :: "int \<Rightarrow> temporal_error + int" where
  "convert_date32_julian_to_unix_days julian =
     (let unix_days = julian - DATE_UNIX_EPOCH_JULIAN
      in if in_i32 unix_days then Inr unix_days else Inl (DateOverflow julian))"

definition convert_datetime_storage_to_unix_micros :: "int \<Rightarrow> temporal_error + int" where
  "convert_datetime_storage_to_unix_micros encoded =
     (if encoded < 0 then Inl (DatetimeNegative encoded)
      else let v = of_int encoded :: 64 word;
               julian_day = uint (drop_bit TIMESTAMP_BITS v);
               micros_of_day = uint (v AND TIMESTAMP_TIME_MASK)
      in if USECS_PER_DAY_I64 \<le> micros_of_day then Inl (DatetimeMicrosInvalid encoded)
         else let days_since_epoch = julian_day - DATE_UNIX_EPOCH_JULIAN
              in case Option.bind (checked_mul_i64 days_since_epoch USECS_PER_DAY_I64)
                        (\<lambda>base. checked_add_i64 base micros_of_day) of
                   None \<Rightarrow> Inl (DatetimeOverflow encoded)
                 | Some r \<Rightarrow> Inr r)"

subsection \<open>Numeric literals\<close>




subsection \<open>Lemmas\<close>

lemmas temporal_constants = DATE_UNIX_EPOCH_JULIAN_def TIMESTAMP_BITS_def USECS_PER_DAY_I64_def

lemma time_mask: "TIMESTAMP_TIME_MASK = mask 40"
  by (simp add: TIMESTAMP_TIME_MASK_def TIMESTAMP_BITS_def mask_eq_decr_exp)

text \<open>The packed word: the low 24 bits of the Julian day above the microseconds.\<close>

lemma packed_word:
  assumes "0 \<le> m" and "m < 2 ^ 40" and "0 \<le> j"
  shows "uint (push_bit 40 (of_int j) OR (of_int m AND mask 40) :: 64 word) = (j mod 2 ^ 24) * 2 ^ 40 + m"
proof -
  define a b where "a = nat m" and "b = nat j"
  have m: "m = int a" "a < 2 ^ 40" and j: "j = int b" using assms by (auto simp: a_def b_def nat_less_iff)
  have am: "(of_nat a AND mask 40 :: 64 word) = of_nat a"
    using m(2) by (simp add: take_bit_eq_mask [symmetric] take_bit_of_nat take_bit_nat_eq_self)
  have "push_bit 40 (of_int j) OR (of_int m AND mask 40) = (of_nat (a + 2 ^ 40 * b) :: 64 word)"
    using or_push_bit_of_nat [OF m(2), of b, where 'a = 64]
    by (simp only: m(1) j of_int_of_nat_eq am or.commute)
  moreover have "uint (of_nat (a + 2 ^ 40 * b) :: 64 word) = int ((a + 2 ^ 40 * b) mod 2 ^ 64)"
    by (simp only: uint_nat unat_of_nat) simp
  moreover have "(a + 2 ^ 40 * b) mod 2 ^ 64 = a + 2 ^ 40 * (b mod 2 ^ 24)"
    using m(2) mod_mult2_eq [of "a + 2 ^ 40 * b" "2 ^ 40" "2 ^ 24"] by simp
  ultimately show ?thesis by (simp only: m(1) j) (simp add: zmod_int)
qed

lemma uint_drop_bit: "uint (drop_bit n (w :: 64 word)) = drop_bit n (uint w)"
  by (simp only: uint_nat unat_drop_bit_eq drop_bit_of_nat)

lemma unpack_word:
  assumes "0 \<le> m" and "m < 2 ^ 40" and "0 \<le> j" and "j < 2 ^ 23"
  shows "uint (drop_bit 40 (of_int (j * 2 ^ 40 + m) :: 64 word)) = j"
    "uint (of_int (j * 2 ^ 40 + m) AND mask 40 :: 64 word) = m"
proof -
  have "j * 2 ^ 40 \<le> (2 ^ 23 - 1) * 2 ^ 40" using assms(4) by (intro mult_right_mono) simp_all
  then have "0 \<le> j * 2 ^ 40 + m" "j * 2 ^ 40 + m < 2 ^ 64" using assms by simp_all
  then have e: "uint (of_int (j * 2 ^ 40 + m) :: 64 word) = j * 2 ^ 40 + m"
    by (simp only: uint_word_of_int) simp
  show "uint (drop_bit 40 (of_int (j * 2 ^ 40 + m) :: 64 word)) = j"
    unfolding uint_drop_bit e using assms(1,2) by (simp add: drop_bit_eq_div)
  show "uint (of_int (j * 2 ^ 40 + m) AND mask 40 :: 64 word) = m"
    unfolding take_bit_eq_mask [symmetric] unsigned_take_bit_eq e using assms(1,2) by (simp add: take_bit_eq_mod)
qed

text \<open>The Julian day of a timestamp, and what the writer stores for it.\<close>

definition julian_of :: "int \<Rightarrow> int" where
  "julian_of u = DATE_UNIX_EPOCH_JULIAN + u div USECS_PER_DAY_I64"

lemma day_split:
  "(u div USECS_PER_DAY_I64) * USECS_PER_DAY_I64 + u mod USECS_PER_DAY_I64 = u"
  "0 \<le> u mod USECS_PER_DAY_I64" "u mod USECS_PER_DAY_I64 < 2 ^ 40" "u mod USECS_PER_DAY_I64 < USECS_PER_DAY_I64"
proof -
  have pos: "0 < USECS_PER_DAY_I64" "USECS_PER_DAY_I64 < 2 ^ 40" by (simp_all add: USECS_PER_DAY_I64_def)
  show "(u div USECS_PER_DAY_I64) * USECS_PER_DAY_I64 + u mod USECS_PER_DAY_I64 = u" by (rule div_mult_mod_eq)
  show "0 \<le> u mod USECS_PER_DAY_I64" by (rule pos_mod_sign [OF pos(1)])
  show "u mod USECS_PER_DAY_I64 < USECS_PER_DAY_I64" by (rule pos_mod_bound [OF pos(1)])
  with pos(2) show "u mod USECS_PER_DAY_I64 < 2 ^ 40" by simp
qed

lemma in_i64_julian:
  assumes "in_i64 u"
  shows "in_i64 (julian_of u)"
proof -
  from assms have "i64_min div USECS_PER_DAY_I64 \<le> u div USECS_PER_DAY_I64" "u div USECS_PER_DAY_I64 \<le> i64_max div USECS_PER_DAY_I64"
    by (simp_all add: zdiv_mono1 in_i64_def USECS_PER_DAY_I64_def)
  then show ?thesis by (simp add: julian_of_def temporal_constants in_i64_def i64_min_def i64_max_def)
qed

lemma encode_datetime_eq:
  assumes "in_i64 u"
  shows "encode_datetime_storage_from_unix_micros u =
    (if julian_of u < 0 then Inl (DatetimeNegative u)
     else let encoded = (julian_of u mod 2 ^ 24) * 2 ^ 40 + u mod USECS_PER_DAY_I64
          in if encoded < 2 ^ 63 then Inr encoded else Inl (DatetimeOverflow u))"
proof -
  let ?w = "push_bit TIMESTAMP_BITS (of_int (julian_of u)) OR (of_int (u mod USECS_PER_DAY_I64) AND TIMESTAMP_TIME_MASK) :: 64 word"
  have add: "checked_add_i64 DATE_UNIX_EPOCH_JULIAN (u div USECS_PER_DAY_I64) = Some (julian_of u)"
    using in_i64_julian [OF assms] by (simp add: checked_add_i64_def julian_of_def)
  have small: "unat w < 2 ^ 63 \<longleftrightarrow> uint w < 2 ^ 63" for w :: "64 word"
    unfolding uint_nat by (metis of_nat_less_iff of_nat_numeral of_nat_power)
  have w: "uint ?w = (julian_of u mod 2 ^ 24) * 2 ^ 40 + u mod USECS_PER_DAY_I64" if "0 \<le> julian_of u"
    unfolding time_mask TIMESTAMP_BITS_def by (rule packed_word [OF day_split(2,3) that])
  have ok: "\<not> \<not> (0 \<le> u mod USECS_PER_DAY_I64 \<and> u mod USECS_PER_DAY_I64 < USECS_PER_DAY_I64)"
    using day_split(2,4) [of u] by simp
  show ?thesis
  proof (cases "julian_of u < 0")
    case True
    then show ?thesis by (simp only: encode_datetime_storage_from_unix_micros_def add Let_def ok option.case if_True if_False)
  next
    case False
    then have "0 \<le> julian_of u" by simp
    with False show ?thesis
      by (simp only: encode_datetime_storage_from_unix_micros_def add Let_def ok option.case if_False small w)
  qed
qed

lemma decode_packed:
  assumes "in_i64 u" and "0 \<le> j" and "j < 2 ^ 23"
  shows "convert_datetime_storage_to_unix_micros (j * 2 ^ 40 + u mod USECS_PER_DAY_I64) =
    Inr ((j - DATE_UNIX_EPOCH_JULIAN) * USECS_PER_DAY_I64 + u mod USECS_PER_DAY_I64)"
proof -
  let ?m = "u mod USECS_PER_DAY_I64"
  note m = day_split(2,3,4) [of u]
  have "\<bar>(j - DATE_UNIX_EPOCH_JULIAN) * USECS_PER_DAY_I64\<bar> \<le> 2 ^ 23 * USECS_PER_DAY_I64"
    using assms(2,3) unfolding abs_mult by (intro mult_mono) (simp_all add: temporal_constants)
  moreover have "in_i64 x \<and> in_i64 (x + ?m)" if "\<bar>x\<bar> \<le> 2 ^ 23 * USECS_PER_DAY_I64" for x
  proof -
    define r where "r = ?m"
    have "r < 86400000000" "0 \<le> r" using m by (simp_all add: USECS_PER_DAY_I64_def r_def)
    with that show ?thesis
      unfolding r_def [symmetric] by (simp add: in_i64_def i64_min_def i64_max_def USECS_PER_DAY_I64_def abs_le_iff)
  qed
  ultimately have "in_i64 ((j - DATE_UNIX_EPOCH_JULIAN) * USECS_PER_DAY_I64)"
    "in_i64 ((j - DATE_UNIX_EPOCH_JULIAN) * USECS_PER_DAY_I64 + ?m)" by blast+
  moreover have "0 \<le> j * 2 ^ 40 + ?m" using assms(2) m(1) by simp
  ultimately show ?thesis
    using m(3)
    by (simp add: convert_datetime_storage_to_unix_micros_def Let_def time_mask TIMESTAMP_BITS_def
        unpack_word [OF m(1,2) assms(2,3), simplified] checked_mul_i64_def checked_add_i64_def)
qed

text \<open>
  (C18) A timestamp survives storage exactly when its Julian day fits the 24 bits the format has
  for it: if the writer accepts the timestamp, the reader returns it if and only if the day is
  below \<open>2^24\<close>. From there on the shift of the writer drops the high bits of the day and the
  stored value is another day's.
\<close>

theorem datetime_roundtrip_iff:
  assumes "in_i64 u" and "encode_datetime_storage_from_unix_micros u = Inr e"
  shows "convert_datetime_storage_to_unix_micros e = Inr u \<longleftrightarrow> julian_of u < 2 ^ 24"
proof -
  let ?j = "julian_of u mod 2 ^ 24"
  have j: "0 \<le> julian_of u" and e: "e = ?j * 2 ^ 40 + u mod USECS_PER_DAY_I64" "e < 2 ^ 63"
    using assms encode_datetime_eq [OF assms(1)] by (auto simp: Let_def split: if_splits)
  then have "?j < 2 ^ 23" using day_split(2) [of u] by simp
  then have "convert_datetime_storage_to_unix_micros e =
      Inr ((?j - DATE_UNIX_EPOCH_JULIAN) * USECS_PER_DAY_I64 + u mod USECS_PER_DAY_I64)"
    unfolding e(1) by (intro decode_packed [OF assms(1)]) simp_all
  moreover have "(?j - DATE_UNIX_EPOCH_JULIAN) * USECS_PER_DAY_I64 + u mod USECS_PER_DAY_I64 = u \<longleftrightarrow>
      ?j - DATE_UNIX_EPOCH_JULIAN = u div USECS_PER_DAY_I64"
  proof -
    have "(?j - DATE_UNIX_EPOCH_JULIAN) * USECS_PER_DAY_I64 + u mod USECS_PER_DAY_I64 = u \<longleftrightarrow>
        (?j - DATE_UNIX_EPOCH_JULIAN) * USECS_PER_DAY_I64 = (u div USECS_PER_DAY_I64) * USECS_PER_DAY_I64"
      using day_split(1) [of u] by linarith
    moreover have "USECS_PER_DAY_I64 \<noteq> 0" by (simp add: USECS_PER_DAY_I64_def)
    ultimately show ?thesis by (simp only: mult_cancel_right) simp
  qed
  moreover have "?j - DATE_UNIX_EPOCH_JULIAN = u div USECS_PER_DAY_I64 \<longleftrightarrow> ?j = julian_of u"
    by (auto simp: julian_of_def)
  moreover have "?j = julian_of u \<longleftrightarrow> julian_of u < 2 ^ 24"
    using j pos_mod_bound [of "2 ^ 24" "julian_of u"] by (auto simp: mod_pos_pos_trivial)
  ultimately show ?thesis by simp
qed

lemma example_datetime:
  "in_i64 1700000000123456" "encode_datetime_storage_from_unix_micros 1700000000123456 = Inr 2705087855887188544"
proof -
  show r: "in_i64 1700000000123456" by (simp add: in_i64_def i64_min_def i64_max_def)
  show "encode_datetime_storage_from_unix_micros 1700000000123456 = Inr 2705087855887188544"
    by (simp add: encode_datetime_eq [OF r] julian_of_def temporal_constants)
qed

theorem datetime_roundtrip_iff_witness:
  "encode_datetime_storage_from_unix_micros 1700000000123456 = Inr 2705087855887188544 \<and>
   convert_datetime_storage_to_unix_micros 2705087855887188544 = Inr 1700000000123456"
  using datetime_roundtrip_iff [OF example_datetime] example_datetime(2)
  by (simp add: julian_of_def temporal_constants)

text \<open>
  (C19) What a timestamp beyond the format becomes. From Julian day \<open>2^24\<close> on, every timestamp whose
  day, cut to 24 bits, is below \<open>2^23\<close> is accepted without an error, and what is stored is the value
  of an earlier timestamp, a multiple of \<open>2^24\<close> days before it at the same time of day: both have
  the same stored value, and the reader returns the earlier one.
\<close>

theorem datetime_silently_wraps:
  assumes "in_i64 u" and "2 ^ 24 \<le> julian_of u" and "julian_of u mod 2 ^ 24 < 2 ^ 23"
  shows "\<exists>e v. v = u - (julian_of u div 2 ^ 24) * 2 ^ 24 * USECS_PER_DAY_I64 \<and> v < u \<and> in_i64 v \<and>
    encode_datetime_storage_from_unix_micros u = Inr e \<and> encode_datetime_storage_from_unix_micros v = Inr e \<and>
    convert_datetime_storage_to_unix_micros e = Inr v"
proof -
  define q where "q = julian_of u div 2 ^ 24"
  define v where "v = u - q * 2 ^ 24 * USECS_PER_DAY_I64"
  let ?j = "julian_of u mod 2 ^ 24"
  let ?e = "?j * 2 ^ 40 + u mod USECS_PER_DAY_I64"
  have q: "1 \<le> q" using assms(2) zdiv_mono1 [of "2 ^ 24" "julian_of u" "2 ^ 24"] by (simp add: q_def)
  have jq: "julian_of u = q * 2 ^ 24 + ?j" by (simp add: q_def)
  have v: "v = u + (- (q * 2 ^ 24)) * USECS_PER_DAY_I64" by (simp add: v_def)
  have vmod: "v mod USECS_PER_DAY_I64 = u mod USECS_PER_DAY_I64" unfolding v by (rule mod_mult_self1)
  have "v div USECS_PER_DAY_I64 = u div USECS_PER_DAY_I64 - q * 2 ^ 24"
    unfolding v by (subst div_mult_self1) (simp_all add: USECS_PER_DAY_I64_def)
  then have vj: "julian_of v = ?j" using jq by (simp add: julian_of_def)
  have less: "v < u" using q by (simp add: v_def USECS_PER_DAY_I64_def)
  have "- DATE_UNIX_EPOCH_JULIAN \<le> v div USECS_PER_DAY_I64" using vj by (simp add: julian_of_def)
  then have "- DATE_UNIX_EPOCH_JULIAN * USECS_PER_DAY_I64 \<le> (v div USECS_PER_DAY_I64) * USECS_PER_DAY_I64"
    by (intro mult_right_mono) (simp_all add: USECS_PER_DAY_I64_def)
  then have "- DATE_UNIX_EPOCH_JULIAN * USECS_PER_DAY_I64 \<le> v" using day_split(1,2) [of v] by linarith
  then have in_v: "in_i64 v" using less assms(1) by (simp add: in_i64_def i64_min_def temporal_constants)
  have "?j * 2 ^ 40 \<le> (2 ^ 23 - 1) * 2 ^ 40" using assms(3) by (intro mult_right_mono) simp_all
  then have small: "?e < 2 ^ 63" using day_split(3) [of u] by simp
  have eu: "encode_datetime_storage_from_unix_micros u = Inr ?e"
    using assms(2) small by (simp add: encode_datetime_eq [OF assms(1)] Let_def)
  have ev: "encode_datetime_storage_from_unix_micros v = Inr ?e"
    using small by (simp add: encode_datetime_eq [OF in_v] vj vmod Let_def)
  have "convert_datetime_storage_to_unix_micros ?e = Inr ((?j - DATE_UNIX_EPOCH_JULIAN) * USECS_PER_DAY_I64 + u mod USECS_PER_DAY_I64)"
    using assms(3) by (intro decode_packed [OF assms(1)]) simp_all
  moreover have "(?j - DATE_UNIX_EPOCH_JULIAN) * USECS_PER_DAY_I64 + u mod USECS_PER_DAY_I64 = v"
  proof -
    have "v div USECS_PER_DAY_I64 = ?j - DATE_UNIX_EPOCH_JULIAN" using vj unfolding julian_of_def [of v] by linarith
    with day_split(1) [of v] show ?thesis by (simp add: vmod)
  qed
  ultimately have "convert_datetime_storage_to_unix_micros ?e = Inr v" by simp
  with eu ev less in_v show ?thesis unfolding v_def q_def by blast
qed

theorem datetime_silently_wraps_witness:
  "\<exists>e. encode_datetime_storage_from_unix_micros 1238684659200000000 = Inr e \<and>
     convert_datetime_storage_to_unix_micros e = Inr (- 210866803200000000)"
proof -
  have "in_i64 1238684659200000000" by (simp add: in_i64_def i64_min_def i64_max_def)
  from datetime_silently_wraps [OF this] show ?thesis by (auto simp: julian_of_def temporal_constants)
qed

text \<open>
  (C20) Stored timestamps compare as the timestamps do, as long as the Julian day fits: the
  writer's encoding is strictly monotone, so zone maps and sort keys may compare storage values.
\<close>

theorem datetime_storage_monotone:
  assumes "in_i64 u" and "in_i64 v" and "u < v" and "julian_of v < 2 ^ 23"
    and "encode_datetime_storage_from_unix_micros u = Inr e" and "encode_datetime_storage_from_unix_micros v = Inr f"
  shows "e < f"
proof -
  have le: "julian_of u \<le> julian_of v"
    using assms(3) by (simp add: julian_of_def zdiv_mono1 USECS_PER_DAY_I64_def)
  have j: "0 \<le> julian_of u" "0 \<le> julian_of v"
    using assms(5,6) encode_datetime_eq [OF assms(1)] encode_datetime_eq [OF assms(2)] by (auto split: if_splits)
  then have e: "e = julian_of u * 2 ^ 40 + u mod USECS_PER_DAY_I64" "f = julian_of v * 2 ^ 40 + v mod USECS_PER_DAY_I64"
    using assms(4-6) le encode_datetime_eq [OF assms(1)] encode_datetime_eq [OF assms(2)]
    by (auto simp: Let_def mod_pos_pos_trivial split: if_splits)
  show ?thesis
  proof (cases "julian_of u = julian_of v")
    case True
    then have "u div USECS_PER_DAY_I64 = v div USECS_PER_DAY_I64" by (simp add: julian_of_def)
    then have "u mod USECS_PER_DAY_I64 < v mod USECS_PER_DAY_I64"
      using day_split(1) [of u] day_split(1) [of v] assms(3) by (metis add_less_cancel_left)
    with True e show ?thesis by simp
  next
    case False
    with le have "julian_of u + 1 \<le> julian_of v" by simp
    then have "(julian_of u + 1) * 2 ^ 40 \<le> julian_of v * 2 ^ 40" by (intro mult_right_mono) simp_all
    with e day_split(3) [of u] day_split(2) [of v] show ?thesis unfolding e by (simp add: distrib_right)
  qed
qed

theorem datetime_storage_monotone_witness:
  "encode_datetime_storage_from_unix_micros 0 = Inr 2683454884610572288 \<and> (2683454884610572288 :: int) < 2705087855887188544"
proof -
  have r: "in_i64 0" by (simp add: in_i64_def i64_min_def i64_max_def)
  have "encode_datetime_storage_from_unix_micros 0 = Inr 2683454884610572288"
    by (simp add: encode_datetime_eq [OF r] julian_of_def temporal_constants)
  with datetime_storage_monotone [OF r example_datetime(1) _ _ this example_datetime(2)] show ?thesis
    by (simp add: julian_of_def temporal_constants)
qed

text \<open>
  (C21) Every 32-bit number of days is either rejected by the writer, because its Julian day
  leaves the 32-bit range, or stored as a value the reader converts back to it.
\<close>

theorem date_roundtrip:
  assumes "in_i32 d"
  shows "(case encode_date_storage_from_unix_days d of
      Inl _ \<Rightarrow> 2 ^ 31 \<le> d + DATE_UNIX_EPOCH_JULIAN
    | Inr j \<Rightarrow> in_i32 j \<and> convert_date32_julian_to_unix_days j = Inr d)"
  using assms
  by (auto simp: encode_date_storage_from_unix_days_def convert_date32_julian_to_unix_days_def checked_add_i64_def
      in_i32_def in_i64_def i64_min_def i64_max_def DATE_UNIX_EPOCH_JULIAN_def)

theorem date_roundtrip_witness:
  "encode_date_storage_from_unix_days 19000 = Inr 2459588 \<and> convert_date32_julian_to_unix_days 2459588 = Inr 19000"
proof -
  have "encode_date_storage_from_unix_days 19000 = Inr 2459588"
    by (simp add: encode_date_storage_from_unix_days_def checked_add_i64_def in_i32_def in_i64_def i64_min_def
        i64_max_def DATE_UNIX_EPOCH_JULIAN_def)
  moreover have "in_i32 19000" by (simp add: in_i32_def)
  ultimately show ?thesis using date_roundtrip [of 19000] by simp
qed












end
