(* ===== verification/Bitshuffle.thy ===== *)
theory Bitshuffle
  imports Byte_Codec
begin

text \<open>
  The bitshuffle page decoder of \<open>src/src/formats/starrocks/reader/encoding/bitshuffle.rs\<close>: the
  page header, the LZ4 blocks, and the two transposition loops with the 8x8 bit-matrix kernel.
  LZ4 block decompression is a parameter: it gets the compressed bytes and the size of the
  output buffer and returns the bytes written, or fails. The loops are proved to implement the
  index permutation of the format, and a whole page to decode to the values it was built from.
\<close>

unbundle bit_operations_syntax

subsection \<open>Errors of the page decoders\<close>

datatype page_error =
    TooSmall string nat
  | ZeroCount string
  | SizeOverflow string
  | SizeMismatch string nat nat
  | OutOfRange string nat nat
  | NotSorted nat nat
  | NotMultipleOfEight nat
  | DecompressFailed string
  | Unsupported string int
  | MissingPart string
  | ChecksumMismatch nat nat
  | FooterInvalid
  | RunHeaderInvalid
  | RunTooLong nat nat
  | ValueTruncated
  | BooleanInvalid nat
  | DictCodeInvalid nat int
  | UnexpectedNullmap nat

type_synonym lz4_block = "byte list \<Rightarrow> nat \<Rightarrow> byte list option"

subsection \<open>Constants\<close>

definition BITSHUFFLE_PAGE_HEADER_SIZE :: nat where "BITSHUFFLE_PAGE_HEADER_SIZE = 16"
definition BITSHUFFLE_TARGET_BLOCK_SIZE_BYTES :: nat where "BITSHUFFLE_TARGET_BLOCK_SIZE_BYTES = 8192"
definition BITSHUFFLE_MIN_BLOCK_SIZE :: nat where "BITSHUFFLE_MIN_BLOCK_SIZE = 128"

subsection \<open>The transposition loops\<close>

definition transpose_bit_8x8 :: "64 word \<Rightarrow> 64 word" where
  "transpose_bit_8x8 x =
     (let t = (x XOR drop_bit 7 x) AND 0x00AA00AA00AA00AA; x = x XOR (t XOR push_bit 7 t);
          t = (x XOR drop_bit 14 x) AND 0x0000CCCC0000CCCC; x = x XOR (t XOR push_bit 14 t);
          t = (x XOR drop_bit 28 x) AND 0x00000000F0F0F0F0; x = x XOR (t XOR push_bit 28 t)
      in x)"

definition trans_byte_bitrow_scal ::
  "byte list \<Rightarrow> byte list \<Rightarrow> nat \<Rightarrow> nat \<Rightarrow> page_error + byte list" where
  "trans_byte_bitrow_scal input output sz elem_size =
     (if sz mod 8 \<noteq> 0 then Inl (NotMultipleOfEight sz)
      else let nbyte_row = sz div 8 in
        Inr (fold (\<lambda>jj. fold (\<lambda>ii. fold (\<lambda>kk out.
               out[ii * 8 * elem_size + jj * 8 + kk := input ! ((jj * 8 + kk) * nbyte_row + ii)])
             [0..<8]) [0..<nbyte_row]) [0..<elem_size] output))"

text \<open>The eight bytes of the transposed matrix, low byte first, each to its own element.\<close>

definition store_eight :: "nat \<Rightarrow> nat \<Rightarrow> 64 word \<Rightarrow> byte list \<Rightarrow> byte list" where
  "store_eight base elem_size x output =
     fst (fold (\<lambda>kk (out, x). (out[base + kk * elem_size := ucast (x AND 0xFF)], drop_bit 8 x))
       [0..<8] (output, x))"

text \<open>The two \<open>while\<close> loops count \<open>jj\<close> in steps of 8 and \<open>ii\<close> in steps of \<open>8 * elem_size\<close>.\<close>

definition shuffle_bit_eightelem_scal ::
  "byte list \<Rightarrow> byte list \<Rightarrow> nat \<Rightarrow> nat \<Rightarrow> page_error + byte list" where
  "shuffle_bit_eightelem_scal input output sz elem_size =
     (if sz mod 8 \<noteq> 0 then Inl (NotMultipleOfEight sz)
      else case checked_mul_usize sz elem_size of
        None \<Rightarrow> Inl (SizeOverflow ''shuffle_bit_eightelem'')
      | Some nbyte \<Rightarrow>
          Inr (fold (\<lambda>jj. fold (\<lambda>ii.
                 store_eight (ii + jj div 8) elem_size
                   (transpose_bit_8x8 (of_nat (from_le (subslice (ii + jj) (ii + jj + 8) input)))))
               (filter (\<lambda>ii. ii mod (8 * elem_size) = 0 \<and> ii + (8 * elem_size - 1) < nbyte) [0..<nbyte]))
             (filter (\<lambda>jj. jj mod 8 = 0) [0..<8 * elem_size]) output))"

definition bitunshuffle_scal ::
  "byte list \<Rightarrow> byte list \<Rightarrow> nat \<Rightarrow> nat \<Rightarrow> page_error + byte list" where
  "bitunshuffle_scal input output sz elem_size =
     (if sz mod 8 \<noteq> 0 then Inl (NotMultipleOfEight sz)
      else case checked_mul_usize sz elem_size of
        None \<Rightarrow> Inl (SizeOverflow ''bitunshuffle'')
      | Some total_bytes \<Rightarrow>
          if length input \<noteq> total_bytes \<or> length output \<noteq> total_bytes
          then Inl (SizeMismatch ''bitunshuffle buffer'' total_bytes (length input))
          else case trans_byte_bitrow_scal input (replicate total_bytes 0) sz elem_size of
            Inl err \<Rightarrow> Inl err
          | Inr tmp \<Rightarrow> shuffle_bit_eightelem_scal tmp output sz elem_size)"

subsection \<open>Blocks and pages\<close>

definition bitshuffle_default_block_size :: "nat \<Rightarrow> nat" where
  "bitshuffle_default_block_size elem_size =
     (let block_size = BITSHUFFLE_TARGET_BLOCK_SIZE_BYTES div elem_size;
          block_size = block_size div 8 * 8
      in max block_size BITSHUFFLE_MIN_BLOCK_SIZE)"

definition align_up_8 :: "nat \<Rightarrow> nat" where
  "align_up_8 v = (v + 7) div 8 * 8"

definition decode_bitshuffle_lz4_block ::
  "lz4_block \<Rightarrow> byte list \<Rightarrow> nat \<Rightarrow> byte list \<Rightarrow> nat \<Rightarrow> nat \<Rightarrow> page_error + byte list \<times> nat" where
  "decode_bitshuffle_lz4_block decompress_into payload in_offset output_block block_elements elem_size =
     (case checked_add_usize in_offset 4 of
        None \<Rightarrow> Inl (SizeOverflow ''block header range'')
      | Some header_end \<Rightarrow>
        if length payload < header_end then Inl (OutOfRange ''block header'' in_offset (length payload))
        else let compressed_len = from_be (subslice in_offset header_end payload) in
        case checked_add_usize header_end compressed_len of
          None \<Rightarrow> Inl (SizeOverflow ''block range'')
        | Some block_end \<Rightarrow>
          if length payload < block_end then Inl (OutOfRange ''block'' block_end (length payload))
          else let compressed_block = subslice header_end block_end payload in
          case checked_mul_usize block_elements elem_size of
            None \<Rightarrow> Inl (SizeOverflow ''decoded block size'')
          | Some decoded_len \<Rightarrow>
            if length output_block \<noteq> decoded_len
            then Inl (SizeMismatch ''output block'' (length output_block) decoded_len)
            else case decompress_into compressed_block decoded_len of
              None \<Rightarrow> Inl (DecompressFailed ''bitshuffle LZ4 block'')
            | Some bitshuffled_block \<Rightarrow>
                if length bitshuffled_block \<noteq> decoded_len
                then Inl (SizeMismatch ''LZ4 block'' decoded_len (length bitshuffled_block))
                else case bitunshuffle_scal bitshuffled_block output_block block_elements elem_size of
                  Inl err \<Rightarrow> Inl err
                | Inr out \<Rightarrow> Inr (out, block_end))"

text \<open>The state of the decompression loop: \<open>in_offset\<close>, \<open>out_offset\<close> and the output buffer.\<close>

record unshuffle_state =
  us_in :: nat
  us_out :: nat
  us_buf :: "byte list"

definition decode_block_step ::
  "lz4_block \<Rightarrow> byte list \<Rightarrow> nat \<Rightarrow> nat \<Rightarrow> unshuffle_state \<Rightarrow> page_error option \<times> unshuffle_state" where
  "decode_block_step decompress_into payload block_size elem_size st =
     (let n = block_size * elem_size;
          blk = subslice (us_out st) (us_out st + n) (us_buf st)
      in case decode_bitshuffle_lz4_block decompress_into payload (us_in st) blk block_size elem_size of
           Inl err \<Rightarrow> (Some err, st)
         | Inr (out, i) \<Rightarrow>
             (None, \<lparr>us_in = i, us_out = us_out st + n,
                     us_buf = take (us_out st) (us_buf st) @ out @ drop (us_out st + n) (us_buf st)\<rparr>))"

definition copy_leftover ::
  "byte list \<Rightarrow> nat \<Rightarrow> unshuffle_state \<Rightarrow> page_error option \<times> unshuffle_state" where
  "copy_leftover payload leftover_bytes st =
     (if leftover_bytes = 0 then (None, st)
      else case checked_add_usize (us_in st) leftover_bytes of
        None \<Rightarrow> (Some (SizeOverflow ''leftover range''), st)
      | Some e \<Rightarrow>
          if length payload < e then (Some (OutOfRange ''leftover'' (us_in st) (length payload)), st)
          else (None, \<lparr>us_in = e, us_out = us_out st + leftover_bytes,
                  us_buf = take (us_out st) (us_buf st) @ subslice (us_in st) e payload @
                    drop (us_out st + leftover_bytes) (us_buf st)\<rparr>))"

text \<open>The stages of the decompression, each stopping at its first error.\<close>

definition decode_stages ::
  "lz4_block \<Rightarrow> byte list \<Rightarrow> nat \<Rightarrow> nat \<Rightarrow> nat \<Rightarrow> (unshuffle_state \<Rightarrow> page_error option \<times> unshuffle_state) list" where
  "decode_stages decompress_into payload num_elements elem_size block_size =
     (let rest = num_elements mod block_size; last_block_size = rest - rest mod 8
      in replicate (num_elements div block_size)
           (decode_block_step decompress_into payload block_size elem_size) @
         [\<lambda>st. if 0 < last_block_size
               then decode_block_step decompress_into payload last_block_size elem_size st
               else (None, st),
          copy_leftover payload ((num_elements mod 8) * elem_size)])"

definition bitshuffle_lz4_decompress ::
  "lz4_block \<Rightarrow> byte list \<Rightarrow> nat \<Rightarrow> nat \<Rightarrow> page_error + byte list" where
  "bitshuffle_lz4_decompress decompress_into payload num_elements elem_size =
     (if num_elements mod 8 \<noteq> 0 then Inl (NotMultipleOfEight num_elements)
      else case checked_mul_usize num_elements elem_size of
        None \<Rightarrow> Inl (SizeOverflow ''bitshuffle output'')
      | Some output_bytes \<Rightarrow>
          let block_size = bitshuffle_default_block_size elem_size;
              st0 = \<lparr>us_in = 0, us_out = 0, us_buf = replicate output_bytes 0\<rparr>
          in case for_each (\<lambda>stage st. stage st)
                    (decode_stages decompress_into payload num_elements elem_size block_size) st0 of
               (Some err, _) \<Rightarrow> Inl err
             | (None, st) \<Rightarrow>
                 if us_in st \<noteq> length payload
                 then Inl (SizeMismatch ''bitshuffle payload'' (us_in st) (length payload))
                 else if us_out st \<noteq> length (us_buf st)
                 then Inl (SizeMismatch ''bitshuffle output'' (us_out st) (length (us_buf st)))
                 else Inr (us_buf st))"

definition decode_bitshuffle_page_body ::
  "lz4_block \<Rightarrow> byte list \<Rightarrow> page_error + nat \<times> nat \<times> byte list" where
  "decode_bitshuffle_page_body decompress_into body =
     (if length body < BITSHUFFLE_PAGE_HEADER_SIZE then Inl (TooSmall ''bitshuffle page'' (length body))
      else let num_values = from_le (subslice 0 4 body);
               compressed_size = from_le (subslice 4 8 body);
               padded_num_values = from_le (subslice 8 12 body);
               elem_size = from_le (subslice 12 16 body)
      in if num_values = 0 then Inl (ZeroCount ''num_values'')
         else if elem_size = 0 then Inl (ZeroCount ''elem_size'')
         else if compressed_size < BITSHUFFLE_PAGE_HEADER_SIZE \<or> length body < compressed_size
         then Inl (OutOfRange ''compressed_size'' compressed_size (length body))
         else if padded_num_values \<noteq> align_up_8 num_values
         then Inl (SizeMismatch ''padded_num_values'' (align_up_8 num_values) padded_num_values)
         else let compressed_payload = subslice BITSHUFFLE_PAGE_HEADER_SIZE compressed_size body
         in case bitshuffle_lz4_decompress decompress_into compressed_payload padded_num_values elem_size of
              Inl err \<Rightarrow> Inl err
            | Inr decoded_payload \<Rightarrow>
                (case checked_mul_usize num_values elem_size of
                   None \<Rightarrow> Inl (SizeOverflow ''value bytes'')
                 | Some value_bytes \<Rightarrow>
                     if length decoded_payload < value_bytes
                     then Inl (TooSmall ''decoded bitshuffle payload'' (length decoded_payload))
                     else Inr (num_values, elem_size, take value_bytes decoded_payload)))"

subsection \<open>The bit-matrix kernel\<close>

text \<open>Each of the three steps exchanges the bits a mask selects with those \<open>s\<close> places above.\<close>

definition swap_bits :: "nat \<Rightarrow> 64 word \<Rightarrow> 64 word \<Rightarrow> 64 word" where
  "swap_bits s m x = (let t = (x XOR drop_bit s x) AND m in x XOR (t XOR push_bit s t))"

definition swap_index :: "nat \<Rightarrow> 64 word \<Rightarrow> nat \<Rightarrow> nat" where
  "swap_index s m n = (if bit m n then n + s else if s \<le> n \<and> bit m (n - s) then n - s else n)"

lemma bit_swap_bits:
  assumes "m AND push_bit s m = 0" and "n < 64"
  shows "bit (swap_bits s m x) n \<longleftrightarrow> bit x (swap_index s m n)"
proof -
  have "\<not> (bit m n \<and> s \<le> n \<and> bit m (n - s))"
    using arg_cong [OF assms(1), of "\<lambda>w. bit w n"] assms(2) by (simp add: bit_simps)
  then show ?thesis
    using assms(2) by (auto simp: swap_bits_def swap_index_def Let_def bit_simps add.commute)
qed

lemma transpose_index:
  "\<forall>n \<in> set [0..<64].
     swap_index 28 0x00000000F0F0F0F0 n < 64 \<and>
     swap_index 14 0x0000CCCC0000CCCC (swap_index 28 0x00000000F0F0F0F0 n) < 64 \<and>
     swap_index 7 0x00AA00AA00AA00AA (swap_index 14 0x0000CCCC0000CCCC (swap_index 28 0x00000000F0F0F0F0 n)) =
       8 * (n mod 8) + n div 8"
  by code_simp

lemma transpose_swaps:
  "transpose_bit_8x8 x =
     swap_bits 28 0x00000000F0F0F0F0 (swap_bits 14 0x0000CCCC0000CCCC (swap_bits 7 0x00AA00AA00AA00AA x))"
  by (simp add: transpose_bit_8x8_def swap_bits_def Let_def)

lemma bit_transpose:
  assumes n: "n < 64"
  shows "bit (transpose_bit_8x8 x) n \<longleftrightarrow> bit x (8 * (n mod 8) + n div 8)"
proof -
  have i: "swap_index 28 0x00000000F0F0F0F0 n < 64"
    "swap_index 14 0x0000CCCC0000CCCC (swap_index 28 0x00000000F0F0F0F0 n) < 64"
    "swap_index 7 0x00AA00AA00AA00AA (swap_index 14 0x0000CCCC0000CCCC (swap_index 28 0x00000000F0F0F0F0 n)) =
       8 * (n mod 8) + n div 8"
    using transpose_index n by simp_all
  have m: "(0x00000000F0F0F0F0 :: 64 word) AND push_bit 28 0x00000000F0F0F0F0 = 0"
    "(0x0000CCCC0000CCCC :: 64 word) AND push_bit 14 0x0000CCCC0000CCCC = 0"
    "(0x00AA00AA00AA00AA :: 64 word) AND push_bit 7 0x00AA00AA00AA00AA = 0"
    by code_simp+
  show ?thesis
    unfolding transpose_swaps bit_swap_bits [OF m(1) n] bit_swap_bits [OF m(2) i(1)]
      bit_swap_bits [OF m(3) i(2)] i(3) ..
qed

subsection \<open>Bits of a little-endian integer\<close>

lemma bit_from_le:
  "i < 8 \<Longrightarrow> bit (from_le bs) (8 * k + i) \<longleftrightarrow> k < length bs \<and> bit (bs ! k) i"
proof (induction bs arbitrary: k)
  case (Cons b bs)
  then show ?case
    by (cases k) (simp_all add: bit_split [where k = 8, simplified] bit_unsigned_iff)
qed simp

lemma bit_u64_of_bytes:
  "k < 8 \<Longrightarrow> i < 8 \<Longrightarrow> length bs = 8 \<Longrightarrow>
   bit (of_nat (from_le bs) :: 64 word) (8 * k + i) \<longleftrightarrow> bit (bs ! k) i"
  by (simp add: bit_of_nat_iff bit_from_le)

subsection \<open>Loops of stores\<close>

text \<open>
  The transposition loops store to computed indices. If the value stored is a function of the
  index, the order of the stores does not matter: every index written holds that value.
\<close>

definition stores :: "(nat \<times> 'a) list \<Rightarrow> 'a list \<Rightarrow> 'a list" where
  "stores ws out = fold (\<lambda>(i, v) out. out[i := v]) ws out"

lemma stores_simps [simp]:
  "stores [] out = out" "stores ((i, v) # ws) out = stores ws (out[i := v])"
  by (simp_all add: stores_def)

lemma stores_append: "stores (us @ vs) out = stores vs (stores us out)"
  by (simp add: stores_def)

lemma length_stores [simp]: "length (stores ws out) = length out"
  by (induction ws arbitrary: out) (auto simp: split_def)

lemma nth_stores:
  assumes "\<forall>(i, v) \<in> set ws. v = g i" and "j < length out"
  shows "stores ws out ! j = (if j \<in> fst ` set ws then g j else out ! j)"
  using assms
proof (induction ws arbitrary: out)
  case (Cons w ws)
  then show ?case by (cases w) (auto simp: nth_list_update)
qed simp

text \<open>A loop of loops of stores is one list of stores.\<close>

lemma fold_stores:
  assumes "\<And>i out. f i out = stores (w i) out"
  shows "fold f is out = stores (concat (map w is)) out"
  by (induction "is" arbitrary: out) (simp_all add: assms stores_append)

lemma fold_store_each: "fold (\<lambda>i out. out[p i := q i]) is out = stores (map (\<lambda>i. (p i, q i)) is) out"
  by (induction "is" arbitrary: out) simp_all

definition bitrow_stores :: "byte list \<Rightarrow> nat \<Rightarrow> nat \<Rightarrow> (nat \<times> byte) list" where
  "bitrow_stores input es nrow =
     concat (map (\<lambda>jj. concat (map (\<lambda>ii. map (\<lambda>kk.
       (ii * 8 * es + jj * 8 + kk, input ! ((jj * 8 + kk) * nrow + ii))) [0..<8]) [0..<nrow])) [0..<es])"

lemma trans_byte_bitrow_stores:
  "sz mod 8 = 0 \<Longrightarrow>
   trans_byte_bitrow_scal input out sz es = Inr (stores (bitrow_stores input es (sz div 8)) out)"
  unfolding trans_byte_bitrow_scal_def bitrow_stores_def Let_def
  by (simp add: fold_store_each fold_stores)

text \<open>The mixed-radix index \<open>ii * 8 * es + jj * 8 + kk\<close> determines its digits.\<close>

lemma digits:
  fixes es :: nat
  assumes "jj < es" and "kk < 8"
  shows "(ii * 8 * es + jj * 8 + kk) div (8 * es) = ii" "(ii * 8 * es + jj * 8 + kk) mod (8 * es) div 8 = jj"
    "(ii * 8 * es + jj * 8 + kk) mod 8 = kk"
proof -
  have lt: "jj * 8 + kk < 8 * es" using assms by simp
  have eq: "ii * 8 * es + jj * 8 + kk = (jj * 8 + kk) + ii * (8 * es)" by (simp add: algebra_simps)
  show "(ii * 8 * es + jj * 8 + kk) div (8 * es) = ii"
    unfolding eq using lt by simp
  have "(ii * 8 * es + jj * 8 + kk) mod (8 * es) = jj * 8 + kk"
    unfolding eq using lt by simp
  then show "(ii * 8 * es + jj * 8 + kk) mod (8 * es) div 8 = jj" using assms(2) by simp
  have "(ii * 8 * es + jj * 8 + kk) mod 8 = kk mod 8"
    by (metis (no_types, lifting) mod_add_left_eq mod_mult_self1_is_0 mod_mult_self3 mult.assoc mult.commute)
  then show "(ii * 8 * es + jj * 8 + kk) mod 8 = kk" using assms(2) by simp
qed

lemma nth_trans_byte_bitrow:
  assumes "jj < es" "kk < 8" "ii < nrow" and "length out = nrow * 8 * es"
  shows "stores (bitrow_stores input es nrow) out ! (ii * 8 * es + jj * 8 + kk) =
    input ! ((jj * 8 + kk) * nrow + ii)"
proof -
  let ?g = "\<lambda>j. input ! ((j mod (8 * es) div 8 * 8 + j mod 8) * nrow + j div (8 * es))"
  let ?j = "ii * 8 * es + jj * 8 + kk"
  have all: "\<forall>(i, v) \<in> set (bitrow_stores input es nrow). v = ?g i"
    by (auto simp: bitrow_stores_def digits)
  have "?j < nrow * 8 * es"
  proof -
    have "?j < Suc ii * (8 * es)" using assms(1,2) by simp
    also have "\<dots> \<le> nrow * (8 * es)" using assms(3) by (intro mult_le_mono1) simp
    finally show ?thesis by (simp add: mult.assoc)
  qed
  moreover have "?j \<in> fst ` set (bitrow_stores input es nrow)"
    using assms(1-3) by (auto simp: bitrow_stores_def image_iff) force
  ultimately show ?thesis
    using nth_stores [OF all, of ?j out] assms by (simp add: digits)
qed

lemma ucast_and_byte: "(ucast (x AND 0xFF) :: byte) = ucast (x :: 64 word)"
proof (rule bit_word_eqI)
  fix n :: nat
  assume "n < LENGTH(8)"
  moreover have m: "(0xFF :: 64 word) = mask 8" by (simp add: mask_eq_exp_minus_1)
  ultimately show "bit (ucast (x AND 0xFF) :: byte) n = bit (ucast x :: byte) n"
    unfolding m by (simp add: bit_simps)
qed

lemma store_eight_stores:
  "store_eight base es x out = stores (map (\<lambda>kk. (base + kk * es, ucast (drop_bit (8 * kk) x))) [0..<8]) out"
  by (simp add: store_eight_def eval_nat_numeral ucast_and_byte drop_bit_drop_bit)

definition eight_matrix :: "byte list \<Rightarrow> nat \<Rightarrow> 64 word" where
  "eight_matrix input start = transpose_bit_8x8 (of_nat (from_le (subslice start (start + 8) input)))"

definition eightelem_stores :: "byte list \<Rightarrow> nat \<Rightarrow> nat \<Rightarrow> (nat \<times> byte) list" where
  "eightelem_stores input es nbyte =
     concat (map (\<lambda>jj. concat (map (\<lambda>ii. map (\<lambda>kk.
         (ii + jj div 8 + kk * es, ucast (drop_bit (8 * kk) (eight_matrix input (ii + jj))))) [0..<8])
       (filter (\<lambda>ii. ii mod (8 * es) = 0 \<and> ii + (8 * es - 1) < nbyte) [0..<nbyte])))
     (filter (\<lambda>jj. jj mod 8 = 0) [0..<8 * es]))"

lemma shuffle_bit_eightelem_stores:
  assumes "sz mod 8 = 0" and "sz * es < usize_limit"
  shows "shuffle_bit_eightelem_scal input out sz es = Inr (stores (eightelem_stores input es (sz * es)) out)"
  unfolding shuffle_bit_eightelem_scal_def eightelem_stores_def
  using assms
  by (simp add: checked_mul_usize_def fold_stores store_eight_stores flip: eight_matrix_def)

lemma element_digits:
  fixes es :: nat
  assumes "j < es" and "kk < 8"
  shows "(g * 8 * es + j + kk * es) mod es = j" "(g * 8 * es + j + kk * es) div es div 8 = g"
    "(g * 8 * es + j + kk * es) div es mod 8 = kk"
proof -
  have eq: "g * 8 * es + j + kk * es = j + (8 * g + kk) * es" by (simp add: algebra_simps)
  show "(g * 8 * es + j + kk * es) mod es = j" unfolding eq using assms(1) by simp
  have "(g * 8 * es + j + kk * es) div es = 8 * g + kk" unfolding eq using assms(1) by simp
  then show "(g * 8 * es + j + kk * es) div es div 8 = g"
    "(g * 8 * es + j + kk * es) div es mod 8 = kk"
    using assms(2) by simp_all
qed

lemma element_index_less:
  fixes es :: nat
  assumes "j < es" "kk < 8" "g < nrow"
  shows "g * 8 * es + j + kk * es < nrow * 8 * es"
proof -
  have "kk * es \<le> 7 * es" using assms(2) by (intro mult_le_mono1) simp
  then have "j + kk * es < 8 * es" using assms(1) by linarith
  then have "g * 8 * es + j + kk * es < Suc g * (8 * es)" by simp
  also have "\<dots> \<le> nrow * (8 * es)" using assms(3) by (intro mult_le_mono1) simp
  finally show ?thesis by (simp add: mult.assoc)
qed

lemma mem_eightelem_stores:
  assumes "jj < 8 * es" "jj mod 8 = 0" "ii mod (8 * es) = 0" "ii + (8 * es - 1) < nbyte" "kk < 8"
  shows "ii + jj div 8 + kk * es \<in> fst ` set (eightelem_stores input es nbyte)"
proof -
  have "ii \<in> set (filter (\<lambda>ii. ii mod (8 * es) = 0 \<and> ii + (8 * es - 1) < nbyte) [0..<nbyte])"
    "jj \<in> set (filter (\<lambda>jj. jj mod 8 = 0) [0..<8 * es])" "kk \<in> set [0..<8]"
    using assms by simp_all
  then show ?thesis unfolding eightelem_stores_def set_concat set_map image_UN image_image fst_conv by blast
qed

lemma nth_shuffle_bit_eightelem:
  assumes "j < es" "kk < 8" "g < nrow" and "length out = nrow * 8 * es"
  shows "stores (eightelem_stores input es (nrow * 8 * es)) out ! (g * 8 * es + j + kk * es) =
    ucast (drop_bit (8 * kk) (eight_matrix input (g * 8 * es + 8 * j)))"
proof -
  let ?g = "\<lambda>p. ucast (drop_bit (8 * (p div es mod 8))
                 (eight_matrix input (p div es div 8 * 8 * es + 8 * (p mod es)))) :: byte"
  let ?p = "g * 8 * es + j + kk * es"
  have all: "\<forall>(i, v) \<in> set (eightelem_stores input es (nrow * 8 * es)). v = ?g i"
  proof
    fix w
    assume "w \<in> set (eightelem_stores input es (nrow * 8 * es))"
    then obtain jj ii k where w: "w = (ii + jj div 8 + k * es, ucast (drop_bit (8 * k) (eight_matrix input (ii + jj))))"
      and a: "jj < 8 * es" "jj mod 8 = 0" "ii mod (8 * es) = 0" "k < 8"
      by (auto simp: eightelem_stores_def)
    obtain j' where j': "jj = 8 * j'" using a(2) by (metis mod_0_imp_dvd dvdE)
    obtain g' where g': "ii = g' * 8 * es" using a(3) by (metis mod_0_imp_dvd dvdE mult.assoc mult.commute)
    have "j' < es" using a(1) j' by simp
    from element_digits [OF this a(4), of g'] show "case w of (i, v) \<Rightarrow> v = ?g i"
      by (simp add: w j' g')
  qed
  have "?p \<in> fst ` set (eightelem_stores input es (nrow * 8 * es))"
  proof -
    have lt: "g * 8 * es + (8 * es - 1) < nrow * 8 * es"
      using element_index_less [of "es - 1" es 7 g nrow] assms(1,3) by (simp add: algebra_simps)
    from mem_eightelem_stores [OF _ _ _ this assms(2), of "8 * j" input]
    show ?thesis using assms(1) by (simp add: mult.assoc)
  qed
  then show ?thesis
    using nth_stores [OF all, of ?p out] assms element_index_less [OF assms(1-3)]
    by (simp add: element_digits)
qed

subsection \<open>What the kernel computes\<close>

text \<open>
  The format: of \<open>8 * nrow\<close> elements of \<open>es\<close> bytes, row \<open>8 * j + b\<close> collects bit \<open>b\<close> of byte \<open>j\<close>
  of every element, eight elements to a byte.
\<close>

definition bitshuffle :: "nat \<Rightarrow> nat \<Rightarrow> byte list \<Rightarrow> byte list" where
  "bitshuffle nrow es xs =
     map (\<lambda>p. horner_sum of_bool 2
            (map (\<lambda>k. bit (xs ! ((8 * (p mod nrow) + k) * es + p div nrow div 8)) (p div nrow mod 8)) [0..<8]))
       [0..<8 * es * nrow]"

lemma length_bitshuffle [simp]: "length (bitshuffle nrow es xs) = 8 * es * nrow"
  by (simp add: bitshuffle_def)

lemma bit_bitshuffle:
  assumes "j < es" "b < 8" "g < nrow" "k < 8"
  shows "bit (bitshuffle nrow es xs ! ((8 * j + b) * nrow + g)) k \<longleftrightarrow>
    bit (xs ! ((8 * g + k) * es + j)) b"
proof -
  let ?p = "(8 * j + b) * nrow + g"
  have "?p < Suc (8 * j + b) * nrow" using assms(3) by simp
  also have "\<dots> \<le> 8 * es * nrow" using assms(1,2) by (intro mult_le_mono1) simp
  finally have "?p < 8 * es * nrow" .
  moreover have "?p div nrow = 8 * j + b" "?p mod nrow = g" using assms(3) by simp_all
  moreover have "(8 * j + b) div 8 = j" "(8 * j + b) mod 8 = b" using assms(2) by simp_all
  ultimately show ?thesis
    using assms(4) by (simp add: bitshuffle_def bit_horner_sum_bit_word_iff)
qed

lemma bit_eight_matrix:
  assumes "kk < 8" "b < 8" and "start + 8 \<le> length input"
  shows "bit (ucast (drop_bit (8 * kk) (eight_matrix input start)) :: byte) b \<longleftrightarrow> bit (input ! (start + b)) kk"
proof -
  have "8 * kk + b < 64" "(8 * kk + b) mod 8 = b" "(8 * kk + b) div 8 = kk"
    using assms(1,2) by simp_all
  then have "bit (eight_matrix input start) (8 * kk + b) \<longleftrightarrow> bit (subslice start (start + 8) input ! b) kk"
    using bit_transpose [of "8 * kk + b"] bit_u64_of_bytes [OF assms(2,1)] assms(3)
    by (simp add: eight_matrix_def)
  then show ?thesis using assms by (simp add: bit_simps subslice_def)
qed

lemma bitunshuffle_bits:
  assumes "length input = 8 * nrow * es" "length out = 8 * nrow * es" "8 * nrow * es < usize_limit"
  obtains res where "bitunshuffle_scal input out (8 * nrow) es = Inr res" "length res = 8 * nrow * es"
    "\<And>g k j b. g < nrow \<Longrightarrow> k < 8 \<Longrightarrow> j < es \<Longrightarrow> b < 8 \<Longrightarrow>
       bit (res ! ((8 * g + k) * es + j)) b \<longleftrightarrow> bit (input ! ((8 * j + b) * nrow + g)) k"
proof -
  let ?tmp = "stores (bitrow_stores input es nrow) (replicate (8 * nrow * es) 0)"
  let ?res = "stores (eightelem_stores ?tmp es (nrow * 8 * es)) out"
  have "bitunshuffle_scal input out (8 * nrow) es = Inr ?res"
    using assms trans_byte_bitrow_stores [of "8 * nrow"] shuffle_bit_eightelem_stores [of "8 * nrow" es]
    by (simp add: bitunshuffle_scal_def checked_mul_usize_def mult.commute mult.left_commute)
  moreover have "bit (?res ! ((8 * g + k) * es + j)) b \<longleftrightarrow> bit (input ! ((8 * j + b) * nrow + g)) k"
    if "g < nrow" "k < 8" "j < es" "b < 8" for g k j b
  proof -
    have idx: "(8 * g + k) * es + j = g * 8 * es + j + k * es" by (simp add: algebra_simps)
    have "g * 8 * es + (8 * j + 7) < nrow * 8 * es"
      using element_index_less [of "es - 1" es 7 g nrow] that by (simp add: algebra_simps)
    then have "g * 8 * es + 8 * j + 8 \<le> length ?tmp" by simp
    from bit_eight_matrix [OF that(2,4) this]
    have "bit (?res ! ((8 * g + k) * es + j)) b \<longleftrightarrow> bit (?tmp ! (g * 8 * es + 8 * j + b)) k"
      unfolding idx using nth_shuffle_bit_eightelem [OF that(3,2,1), of out ?tmp] assms(2)
      by (simp add: mult.commute mult.left_commute)
    moreover have "?tmp ! (g * 8 * es + 8 * j + b) = input ! ((8 * j + b) * nrow + g)"
      using nth_trans_byte_bitrow [OF that(3,4,1), of "replicate (8 * nrow * es) 0" input]
      by (simp add: mult.commute mult.left_commute)
    ultimately show ?thesis by simp
  qed
  ultimately show ?thesis using assms(2) by (intro that [of ?res]) simp_all
qed

text \<open>The decoder inverts the format's shuffle on every block.\<close>

lemma bitunshuffle_bitshuffle:
  assumes "length xs = 8 * nrow * es" "length out = 8 * nrow * es" "8 * nrow * es < usize_limit"
  shows "bitunshuffle_scal (bitshuffle nrow es xs) out (8 * nrow) es = Inr xs"
proof -
  have "length (bitshuffle nrow es xs) = 8 * nrow * es" by (simp add: mult.commute)
  then obtain res where res: "bitunshuffle_scal (bitshuffle nrow es xs) out (8 * nrow) es = Inr res"
    "length res = 8 * nrow * es"
    "\<And>g k j b. g < nrow \<Longrightarrow> k < 8 \<Longrightarrow> j < es \<Longrightarrow> b < 8 \<Longrightarrow>
       bit (res ! ((8 * g + k) * es + j)) b \<longleftrightarrow> bit (bitshuffle nrow es xs ! ((8 * j + b) * nrow + g)) k"
    by (rule bitunshuffle_bits [OF _ assms(2,3)]) blast
  have "res ! p = xs ! p" if "p < 8 * nrow * es" for p
  proof (rule bit_word_eqI)
    fix b :: nat
    assume "b < LENGTH(8)"
    define e where "e = p div es"
    have es: "0 < es" using that by (cases es) simp_all
    then have j: "p mod es < es" by simp
    have "e < 8 * nrow" using that by (simp add: e_def less_mult_imp_div_less)
    then have g: "e div 8 < nrow" and k: "e mod 8 < 8" by (simp_all add: less_mult_imp_div_less mult.commute)
    have "(8 * (e div 8) + e mod 8) * es + p mod es = p" by (simp add: e_def)
    with res(3) [OF g k j] bit_bitshuffle [OF j _ g k] \<open>b < LENGTH(8)\<close>
    show "bit (res ! p) b = bit (xs ! p) b" by simp
  qed
  then have "res = xs" using res(2) assms(1) by (intro nth_equalityI) simp_all
  with res(1) show ?thesis by simp
qed

subsection \<open>Whole pages\<close>

text \<open>
  The layout of a page, as a reference encoder: blocks of shuffled and compressed bytes, each
  behind its compressed length, and the header in front. \<open>compress\<close> stands for the LZ4 block
  compressor.
\<close>

definition encode_block :: "(byte list \<Rightarrow> byte list) \<Rightarrow> nat \<Rightarrow> nat \<Rightarrow> byte list \<Rightarrow> byte list" where
  "encode_block compress es sz blk =
     (let c = compress (bitshuffle (sz div 8) es blk) in be_bytes 4 (length c) @ c)"

fun encode_blocks :: "(byte list \<Rightarrow> byte list) \<Rightarrow> nat \<Rightarrow> nat list \<Rightarrow> byte list \<Rightarrow> byte list" where
  "encode_blocks compress es [] data = []"
| "encode_blocks compress es (sz # szs) data =
     encode_block compress es sz (take (sz * es) data) @ encode_blocks compress es szs (drop (sz * es) data)"

definition block_sizes :: "nat \<Rightarrow> nat \<Rightarrow> nat list" where
  "block_sizes block_size n =
     replicate (n div block_size) block_size @ (if n mod block_size = 0 then [] else [n mod block_size])"

definition encode_bitshuffle_page :: "(byte list \<Rightarrow> byte list) \<Rightarrow> nat \<Rightarrow> nat \<Rightarrow> byte list \<Rightarrow> byte list" where
  "encode_bitshuffle_page compress n es xs =
     (let padded = align_up_8 n;
          payload = encode_blocks compress es (block_sizes (bitshuffle_default_block_size es) padded)
            (xs @ replicate ((padded - n) * es) 0)
      in le_bytes 4 n @ le_bytes 4 (16 + length payload) @ le_bytes 4 padded @ le_bytes 4 es @ payload)"

definition lz4_law :: "(byte list \<Rightarrow> byte list) \<Rightarrow> lz4_block \<Rightarrow> bool" where
  "lz4_law compress decompress_into \<longleftrightarrow> (\<forall>bs. decompress_into (compress bs) (length bs) = Some bs)"

lemma decode_encode_block:
  assumes lz4: "lz4_law compress decompress_into" and "sz mod 8 = 0"
    and blk: "length blk = sz * es" "length out = sz * es" "sz * es < usize_limit"
    and payload: "length (pre @ encode_block compress es sz blk @ post) < 2 ^ 32"
  shows "decode_bitshuffle_lz4_block decompress_into (pre @ encode_block compress es sz blk @ post)
      (length pre) out sz es = Inr (blk, length pre + length (encode_block compress es sz blk))"
proof -
  let ?s = "bitshuffle (sz div 8) es blk"
  let ?c = "compress ?s"
  obtain nrow where sz: "sz = 8 * nrow" using assms(2) by (metis mod_0_imp_dvd dvdE)
  have enc: "encode_block compress es sz blk = be_bytes 4 (length ?c) @ ?c"
    by (simp add: encode_block_def Let_def)
  have lens: "length pre + 4 + length ?c \<le> length (pre @ encode_block compress es sz blk @ post)"
    by (simp add: enc)
  with payload have c: "length ?c < 2 ^ 32" "length pre + 4 + length ?c < usize_limit"
    by (simp_all add: usize_limit_def)
  have hd: "subslice (length pre) (length pre + 4) (pre @ encode_block compress es sz blk @ post) =
      be_bytes 4 (length ?c)"
    unfolding enc append_assoc by (rule subslice_middle) simp_all
  have bd: "subslice (length pre + 4) (length pre + 4 + length ?c)
      (pre @ encode_block compress es sz blk @ post) = ?c"
    unfolding enc using subslice_middle [of "length pre + 4" "pre @ be_bytes 4 (length ?c)" _ ?c post] by simp
  have "length ?s = sz * es" by (simp add: sz)
  then have dc: "decompress_into ?c (sz * es) = Some ?s" using lz4 by (metis lz4_law_def)
  have un: "bitunshuffle_scal ?s out sz es = Inr blk"
    using bitunshuffle_bitshuffle [of blk nrow es out] blk by (simp add: sz)
  show ?thesis
    unfolding decode_bitshuffle_lz4_block_def Let_def
    using c lens hd bd dc un blk u32_be.dec_enc [of "length ?c"] \<open>length ?s = sz * es\<close>
    by (simp add: checked_add_usize_def checked_mul_usize_def enc)
qed

lemma decode_block_step_encoded:
  assumes lz4: "lz4_law compress decompress_into" and "sz mod 8 = 0" and "sz * es < usize_limit"
    and "length blk = sz * es" and "us_out st + sz * es \<le> length (us_buf st)"
    and "us_in st = length pre" and "payload = pre @ encode_block compress es sz blk @ post"
    and "length payload < 2 ^ 32"
  shows "decode_block_step decompress_into payload sz es st =
    (None, \<lparr>us_in = length (pre @ encode_block compress es sz blk), us_out = us_out st + sz * es,
      us_buf = take (us_out st) (us_buf st) @ blk @ drop (us_out st + sz * es) (us_buf st)\<rparr>)"
  unfolding decode_block_step_def Let_def
  using decode_encode_block [OF lz4 assms(2,4) _ assms(3), of "subslice (us_out st) (us_out st + sz * es) (us_buf st)" pre post]
    assms(5-8) by simp

lemma decode_blocks_encoded:
  assumes lz4: "lz4_law compress decompress_into"
    and "\<forall>sz \<in> set szs. sz mod 8 = 0" and "sum_list szs * es < usize_limit"
    and "length data = sum_list szs * es" and "us_out st + length data \<le> length (us_buf st)"
    and "us_in st = length pre" and "payload = pre @ encode_blocks compress es szs data @ post"
    and "length payload < 2 ^ 32"
  shows "for_each (\<lambda>stage st. stage st) (map (\<lambda>sz. decode_block_step decompress_into payload sz es) szs) st =
    (None, \<lparr>us_in = length (pre @ encode_blocks compress es szs data), us_out = us_out st + length data,
      us_buf = take (us_out st) (us_buf st) @ data @ drop (us_out st + length data) (us_buf st)\<rparr>)"
  using assms(2-7)
proof (induction szs arbitrary: data st pre)
  case Nil
  then show ?case by simp
next
  case (Cons sz szs)
  let ?blk = "take (sz * es) data" and ?rest = "drop (sz * es) data"
  let ?pre = "pre @ encode_block compress es sz ?blk"
  let ?st = "\<lparr>us_in = length ?pre, us_out = us_out st + sz * es,
      us_buf = take (us_out st) (us_buf st) @ ?blk @ drop (us_out st + sz * es) (us_buf st)\<rparr>"
  have len: "length data = sz * es + sum_list szs * es" "sz * es + sum_list szs * es < usize_limit"
    using Cons.prems(2,3) by (simp_all add: algebra_simps)
  have step: "decode_block_step decompress_into payload sz es st = (None, ?st)"
    using Cons.prems len assms(8)
    by (intro decode_block_step_encoded [OF lz4, where post = "encode_blocks compress es szs ?rest @ post"])
      simp_all
  have "for_each (\<lambda>stage st. stage st) (map (\<lambda>sz. decode_block_step decompress_into payload sz es) szs) ?st =
    (None, \<lparr>us_in = length (?pre @ encode_blocks compress es szs ?rest), us_out = us_out ?st + length ?rest,
      us_buf = take (us_out ?st) (us_buf ?st) @ ?rest @ drop (us_out ?st + length ?rest) (us_buf ?st)\<rparr>)"
    by (rule Cons.IH) (use Cons.prems len in simp_all)
  moreover have "us_out st + length ?blk + length ?rest \<le> length (us_buf st)" "length ?blk = sz * es"
    using Cons.prems(4) len by simp_all
  ultimately show ?case
    using overwrite_twice [of "us_out st" ?blk ?rest "us_buf st"] len by (simp add: step)
qed

lemma default_block_size:
  "bitshuffle_default_block_size es mod 8 = 0" "0 < bitshuffle_default_block_size es"
  by (simp_all add: bitshuffle_default_block_size_def BITSHUFFLE_MIN_BLOCK_SIZE_def Let_def max_def)

lemma block_sizes:
  assumes "bs mod 8 = 0" "0 < bs" "n mod 8 = 0"
  shows "\<forall>sz \<in> set (block_sizes bs n). sz mod 8 = 0" "sum_list (block_sizes bs n) = n"
proof -
  have "8 dvd n mod bs" using assms by (meson dvd_mod mod_0_imp_dvd)
  then show "\<forall>sz \<in> set (block_sizes bs n). sz mod 8 = 0"
    using assms(1) by (auto simp: block_sizes_def)
  show "sum_list (block_sizes bs n) = n"
    by (simp add: block_sizes_def sum_list_replicate mod_0_imp_dvd)
qed

text \<open>On a multiple of eight elements the stages are the blocks alone.\<close>

lemma for_each_decode_stages:
  assumes "n mod 8 = 0" and "bs mod 8 = 0"
  shows "for_each (\<lambda>stage st. stage st) (decode_stages decompress_into payload n es bs) st =
    for_each (\<lambda>stage st. stage st)
      (map (\<lambda>sz. decode_block_step decompress_into payload sz es) (block_sizes bs n)) st"
proof -
  have "n mod bs mod 8 = 0" using assms by (meson dvd_mod mod_0_imp_dvd dvd_imp_mod_0)
  then show ?thesis
    using assms
    by (auto simp: decode_stages_def block_sizes_def Let_def for_each_append copy_leftover_def
        map_replicate_const split: prod.splits option.splits)
qed

lemma decompress_encoded:
  assumes lz4: "lz4_law compress decompress_into" and "n mod 8 = 0" and "length data = n * es"
    and "n * es < usize_limit"
    and "payload = encode_blocks compress es (block_sizes (bitshuffle_default_block_size es) n) data"
    and "length payload < 2 ^ 32"
  shows "bitshuffle_lz4_decompress decompress_into payload n es = Inr data"
proof -
  let ?bs = "bitshuffle_default_block_size es"
  let ?st = "\<lparr>us_in = 0, us_out = 0, us_buf = replicate (n * es) 0\<rparr>"
  note bs = block_sizes [OF default_block_size [of es] assms(2)]
  have "for_each (\<lambda>stage st. stage st)
      (map (\<lambda>sz. decode_block_step decompress_into payload sz es) (block_sizes ?bs n)) ?st =
    (None, \<lparr>us_in = length ([] @ encode_blocks compress es (block_sizes ?bs n) data),
      us_out = us_out ?st + length data,
      us_buf = take (us_out ?st) (us_buf ?st) @ data @ drop (us_out ?st + length data) (us_buf ?st)\<rparr>)"
    by (rule decode_blocks_encoded [OF lz4 bs(1), where post = "[]"]) (use assms bs in simp_all)
  then show ?thesis
    using assms for_each_decode_stages [OF assms(2) default_block_size(1), of decompress_into payload es es ?st]
    by (simp add: bitshuffle_lz4_decompress_def checked_mul_usize_def Let_def)
qed

lemma align_up_8: "align_up_8 n mod 8 = 0" "n \<le> align_up_8 n" "align_up_8 n < n + 8"
  unfolding align_up_8_def by simp_all

text \<open>
  (C8) Decoding a page gives back the values it was built from, for every element size and
  value count: the block structure, the two transposition loops and the 8x8 kernel together
  invert the bitshuffle layout, given only that LZ4 block decompression inverts compression.
\<close>

theorem bitshuffle_page_roundtrip:
  assumes lz4: "lz4_law compress decompress_into"
    and "0 < n" "0 < es" "length xs = n * es" "(n + 8) * es < 2 ^ 32"
    and "length (encode_bitshuffle_page compress n es xs) < 2 ^ 32"
  shows "decode_bitshuffle_page_body decompress_into (encode_bitshuffle_page compress n es xs) =
    Inr (n, es, xs)"
proof -
  let ?n = "align_up_8 n"
  define payload where "payload = encode_blocks compress es
    (block_sizes (bitshuffle_default_block_size es) ?n) (xs @ replicate ((?n - n) * es) 0)"
  let ?body = "le_bytes 4 n @ le_bytes 4 (16 + length payload) @ le_bytes 4 ?n @ le_bytes 4 es @ payload"
  have body: "encode_bitshuffle_page compress n es xs = ?body"
    by (simp add: encode_bitshuffle_page_def payload_def Let_def)
  have small: "16 + length payload < 2 ^ 32" using assms(6) body by simp
  have "?n * es \<le> (n + 8) * es" "n * es \<le> (n + 8) * es" "n + 8 \<le> (n + 8) * es" "es \<le> (n + 8) * es"
    using align_up_8(3) [of n] assms(3) by (auto intro: mult_le_mono1)
  note bounds = this [THEN le_less_trans, OF assms(5)]
  then have lt: "?n * es < 2 ^ 32" "n < 2 ^ 32" "es < 2 ^ 32" "?n < 2 ^ 32" "n * es < 2 ^ 32"
    using align_up_8(3) [of n] by linarith+
  have "length (xs @ replicate ((?n - n) * es) 0) = ?n * es"
    using assms(4) align_up_8(2) [of n] by (simp flip: add_mult_distrib)
  then have "bitshuffle_lz4_decompress decompress_into payload ?n es = Inr (xs @ replicate ((?n - n) * es) 0)"
    using lt small by (intro decompress_encoded [OF lz4 align_up_8(1)])
      (simp_all add: payload_def usize_limit_def)
  moreover have "from_le (subslice 0 4 ?body) = n" "from_le (subslice 4 8 ?body) = 16 + length payload"
    "from_le (subslice 8 12 ?body) = ?n" "from_le (subslice 12 16 ?body) = es"
    "subslice 16 (16 + length payload) ?body = payload"
    using lt small by (simp_all add: subslice_def from_le_le_bytes)
  ultimately show ?thesis
    using assms(2-4) small lt
    by (simp add: body decode_bitshuffle_page_body_def BITSHUFFLE_PAGE_HEADER_SIZE_def Let_def
        checked_mul_usize_def usize_limit_def)
qed

text \<open>A store-only codec meets the law: compression is the identity.\<close>

definition stored_lz4 :: lz4_block where
  "stored_lz4 bs n = (if length bs = n then Some bs else None)"

lemma stored_lz4_law: "lz4_law (\<lambda>bs. bs) stored_lz4"
  by (simp add: lz4_law_def stored_lz4_def)

lemma example_page_length:
  "length (encode_bitshuffle_page (\<lambda>bs. bs) 3 2 [1, 2, 3, 4, 5, 6]) < 2 ^ 32"
  by (simp add: encode_bitshuffle_page_def Let_def align_up_8_def block_sizes_def encode_block_def
      bitshuffle_default_block_size_def BITSHUFFLE_TARGET_BLOCK_SIZE_BYTES_def
      BITSHUFFLE_MIN_BLOCK_SIZE_def)

theorem bitshuffle_page_roundtrip_witness:
  "decode_bitshuffle_page_body stored_lz4 (encode_bitshuffle_page (\<lambda>bs. bs) 3 2 [1, 2, 3, 4, 5, 6]) =
     Inr (3, 2, [1, 2, 3, 4, 5, 6])"
  by (rule bitshuffle_page_roundtrip [OF stored_lz4_law _ _ _ _ example_page_length]) simp_all

text \<open>
  (C9) The kernel is the transposition of an 8x8 bit matrix: bit \<open>j\<close> of byte \<open>i\<close> of the result is
  bit \<open>i\<close> of byte \<open>j\<close> of the argument, so that applying it twice changes nothing.
\<close>

theorem transpose_bit_8x8_correct:
  "(\<forall>i j. i < 8 \<and> j < 8 \<longrightarrow> bit (transpose_bit_8x8 x) (8 * i + j) = bit x (8 * j + i)) \<and>
   transpose_bit_8x8 (transpose_bit_8x8 x) = x"
proof (intro conjI allI impI)
  fix i j :: nat
  assume "i < 8 \<and> j < 8"
  then show "bit (transpose_bit_8x8 x) (8 * i + j) = bit x (8 * j + i)"
    using bit_transpose [of "8 * i + j" x] by simp
next
  show "transpose_bit_8x8 (transpose_bit_8x8 x) = x"
  proof (rule bit_word_eqI)
    fix n :: nat
    assume "n < LENGTH(64)"
    then have n: "n < 64" "8 * (n mod 8) + n div 8 < 64" by simp_all
    have "(8 * (n mod 8) + n div 8) mod 8 = n div 8" "(8 * (n mod 8) + n div 8) div 8 = n mod 8"
      using n(1) by simp_all
    then show "bit (transpose_bit_8x8 (transpose_bit_8x8 x)) n = bit x n"
      using bit_transpose [OF n(1)] bit_transpose [OF n(2)] by simp
  qed
qed

theorem transpose_bit_8x8_correct_witness:
  "bit (transpose_bit_8x8 0x0000000000000002) (8 * 1 + 0) \<and>
   transpose_bit_8x8 (transpose_bit_8x8 0x0123456789ABCDEF) = 0x0123456789ABCDEF"
  using transpose_bit_8x8_correct [of "0x0000000000000002", THEN conjunct1, rule_format, of 1 0]
    transpose_bit_8x8_correct [of "0x0123456789ABCDEF"]
  by (simp add: bit_simps)

end
