(* ===== verification/Rle_Page.thy ===== *)
theory Rle_Page
  imports Bitshuffle
begin

text \<open>
  The RLE page decoder of \<open>src/src/formats/starrocks/reader/encoding/rle.rs\<close> with its bit reader,
  and the column kinds of \<open>column_state.rs\<close> it depends on. A page is a value count followed by
  runs: repeated values, or bit-packed literal values in groups of eight. The decoder is proved
  to invert the run layout, for every bit width.
\<close>

subsection \<open>Column kinds\<close>

datatype output_column_kind =
    Int8 | Int16 | Int32 | Int64 | LargeInt | Float32 | Float64 | Boolean | Date32
  | TimestampMicrosecond | Decimal128 | Decimal256 | Utf8 | Binary

definition is_variable_len :: "output_column_kind \<Rightarrow> bool" where
  "is_variable_len kind \<longleftrightarrow> (case kind of Utf8 \<Rightarrow> True | Binary \<Rightarrow> True | _ \<Rightarrow> False)"

text \<open>\<open>None\<close> is the panic on kinds without a fixed size of their own.\<close>

definition value_size_bytes :: "output_column_kind \<Rightarrow> nat option" where
  "value_size_bytes kind =
     (case kind of
        Int8 \<Rightarrow> Some 1 | Int16 \<Rightarrow> Some 2 | Int32 \<Rightarrow> Some 4 | Int64 \<Rightarrow> Some 8 | LargeInt \<Rightarrow> Some 16
      | Float32 \<Rightarrow> Some 4 | Float64 \<Rightarrow> Some 8 | Boolean \<Rightarrow> Some 1 | Date32 \<Rightarrow> Some 4
      | TimestampMicrosecond \<Rightarrow> Some 8 | _ \<Rightarrow> None)"

definition rle_bit_width :: "output_column_kind \<Rightarrow> nat \<Rightarrow> nat" where
  "rle_bit_width kind elem_size = (case kind of Boolean \<Rightarrow> 1 | _ \<Rightarrow> elem_size * 8)"

subsection \<open>The bit reader\<close>

definition RLE_PAGE_HEADER_SIZE :: nat where "RLE_PAGE_HEADER_SIZE = 4"
definition MAX_VLQ_U32_BYTES :: nat where "MAX_VLQ_U32_BYTES = 5"

record rle_bit_reader =
  rd_data :: "byte list"
  bit_pos :: nat

definition align_to_byte :: "rle_bit_reader \<Rightarrow> rle_bit_reader" where
  "align_to_byte r =
     (let rm = bit_pos r mod 8 in if rm \<noteq> 0 then r\<lparr>bit_pos := bit_pos r + (8 - rm)\<rparr> else r)"

definition read_aligned_u8 :: "rle_bit_reader \<Rightarrow> (byte \<times> rle_bit_reader) option" where
  "read_aligned_u8 r0 =
     (let r = align_to_byte r0; byte_index = bit_pos r div 8
      in if length (rd_data r) \<le> byte_index then None
         else case checked_add_usize (bit_pos r) 8 of
           None \<Rightarrow> None
         | Some p \<Rightarrow> Some (rd_data r ! byte_index, r\<lparr>bit_pos := p\<rparr>))"

text \<open>The \<open>for i in 0..5\<close> loop, with the number of iterations left.\<close>

fun read_vlq_loop :: "nat \<Rightarrow> nat \<Rightarrow> 32 word \<Rightarrow> rle_bit_reader \<Rightarrow> (32 word \<times> rle_bit_reader) option" where
  "read_vlq_loop 0 i out r = None"
| "read_vlq_loop (Suc k) i out r =
     (case read_aligned_u8 r of
        None \<Rightarrow> None
      | Some (b, r') \<Rightarrow>
          let out' = out OR push_bit (7 * i) (ucast (b AND 0x7F))
          in if b AND 0x80 = 0 then Some (out', r') else read_vlq_loop k (Suc i) out' r')"

definition read_vlq_u32 :: "rle_bit_reader \<Rightarrow> (32 word \<times> rle_bit_reader) option" where
  "read_vlq_u32 r = read_vlq_loop MAX_VLQ_U32_BYTES 0 0 r"

definition data_bit :: "byte list \<Rightarrow> nat \<Rightarrow> bool" where
  "data_bit data n = bit (data ! (n div 8)) (n mod 8)"

definition read_bits :: "nat \<Rightarrow> rle_bit_reader \<Rightarrow> (128 word \<times> rle_bit_reader) option" where
  "read_bits bit_width r =
     (if 128 < bit_width then None
      else case checked_add_usize (bit_pos r) bit_width of
        None \<Rightarrow> None
      | Some end_bit \<Rightarrow>
          (case checked_mul_usize (length (rd_data r)) 8 of
             None \<Rightarrow> None
           | Some total_bits \<Rightarrow>
               if total_bits < end_bit then None
               else Some (fold (\<lambda>i out. out OR push_bit i (of_bool (data_bit (rd_data r) (bit_pos r + i))))
                           [0..<bit_width] 0,
                          r\<lparr>bit_pos := end_bit\<rparr>)))"

definition read_aligned_bits :: "nat \<Rightarrow> rle_bit_reader \<Rightarrow> (128 word \<times> rle_bit_reader) option" where
  "read_aligned_bits bit_width r = read_bits bit_width (align_to_byte r)"

definition skip_bits :: "nat \<Rightarrow> rle_bit_reader \<Rightarrow> rle_bit_reader option" where
  "skip_bits bit_count r =
     (case checked_add_usize (bit_pos r) bit_count of
        None \<Rightarrow> None
      | Some end_bit \<Rightarrow>
          (case checked_mul_usize (length (rd_data r)) 8 of
             None \<Rightarrow> None
           | Some total_bits \<Rightarrow>
               if total_bits < end_bit then None else Some (r\<lparr>bit_pos := end_bit\<rparr>)))"

subsection \<open>The decoder\<close>

definition append_rle_decoded_value ::
  "output_column_kind \<Rightarrow> nat \<Rightarrow> 128 word \<Rightarrow> byte list \<Rightarrow> page_error option \<times> byte list" where
  "append_rle_decoded_value kind elem_size value values =
     (case kind of
        Boolean \<Rightarrow> (if 1 < value then (Some (BooleanInvalid (unat value)), values)
                    else (None, values @ [ucast value]))
      | _ \<Rightarrow> (None, values @ map (\<lambda>i. ucast (drop_bit (i * 8) value AND 0xFF)) [0..<elem_size]))"

text \<open>One value of a literal run: read, then append.\<close>

definition literal_value ::
  "output_column_kind \<Rightarrow> nat \<Rightarrow> nat \<Rightarrow> rle_bit_reader \<times> byte list \<Rightarrow>
   page_error option \<times> rle_bit_reader \<times> byte list" where
  "literal_value kind elem_size bit_width st =
     (case st of (r, values) \<Rightarrow>
        case read_bits bit_width r of
          None \<Rightarrow> (Some ValueTruncated, r, values)
        | Some (v, r') \<Rightarrow>
            (let (e, values') = append_rle_decoded_value kind elem_size v values in (e, r', values')))"

text \<open>One iteration of the \<open>while remaining > 0\<close> loop.\<close>

definition rle_run ::
  "output_column_kind \<Rightarrow> nat \<Rightarrow> nat \<Rightarrow> nat \<Rightarrow> rle_bit_reader \<Rightarrow> byte list \<Rightarrow>
   page_error + nat \<times> rle_bit_reader \<times> byte list" where
  "rle_run kind elem_size bit_width remaining r values =
     (case read_vlq_u32 r of
        None \<Rightarrow> Inl RunHeaderInvalid
      | Some (indicator, r1) \<Rightarrow>
          if indicator = 0 then Inl RunHeaderInvalid
          else if indicator AND 1 = 0 then
            (let run_len = unat (drop_bit 1 indicator)
             in if run_len = 0 then Inl RunHeaderInvalid
                else if remaining < run_len then Inl (RunTooLong run_len remaining)
                else case read_aligned_bits bit_width r1 of
                  None \<Rightarrow> Inl ValueTruncated
                | Some (v, r2) \<Rightarrow>
                    (case for_each (\<lambda>_. append_rle_decoded_value kind elem_size v) [0..<run_len] values of
                       (Some e, _) \<Rightarrow> Inl e
                     | (None, values') \<Rightarrow> Inr (remaining - run_len, r2, values')))
          else
            (case checked_mul_usize (unat (drop_bit 1 indicator)) 8 of
               None \<Rightarrow> Inl (SizeOverflow ''literal run'')
             | Some run_len \<Rightarrow>
                 if run_len = 0 then Inl RunHeaderInvalid
                 else let emit = min run_len remaining in
                   case for_each (\<lambda>_. literal_value kind elem_size bit_width) [0..<emit] (r1, values) of
                     (Some e, _) \<Rightarrow> Inl e
                   | (None, r2, values') \<Rightarrow>
                       (let to_skip = run_len - emit
                        in if 0 < to_skip
                           then case checked_mul_usize to_skip bit_width of
                                  None \<Rightarrow> Inl (SizeOverflow ''literal skip'')
                                | Some n \<Rightarrow> (case skip_bits n r2 of
                                     None \<Rightarrow> Inl (OutOfRange ''literal skip'' n (length (rd_data r2)))
                                   | Some r3 \<Rightarrow> Inr (remaining - emit, r3, values'))
                           else Inr (remaining - emit, r2, values'))))"

lemma rle_run_decreases:
  "rle_run kind es w remaining r values = Inr (remaining', r', values') \<Longrightarrow> 0 < remaining \<Longrightarrow> remaining' < remaining"
  by (auto simp: rle_run_def Let_def split: option.splits if_splits prod.splits)

function rle_runs ::
  "output_column_kind \<Rightarrow> nat \<Rightarrow> nat \<Rightarrow> nat \<Rightarrow> rle_bit_reader \<Rightarrow> byte list \<Rightarrow> page_error + byte list" where
  "rle_runs kind es w remaining r values =
     (if remaining = 0 then Inr values
      else case rle_run kind es w remaining r values of
        Inl e \<Rightarrow> Inl e
      | Inr (remaining', r', values') \<Rightarrow> rle_runs kind es w remaining' r' values')"
  by pat_completeness auto
termination
  by (relation "measure (\<lambda>(kind, es, w, remaining, r, values). remaining)")
    (auto dest: rle_run_decreases)

declare rle_runs.simps [simp del]

definition decode_rle_page_body ::
  "byte list \<Rightarrow> output_column_kind \<Rightarrow> nat \<Rightarrow> page_error + nat \<times> nat \<times> byte list" where
  "decode_rle_page_body body kind elem_size =
     (if length body < RLE_PAGE_HEADER_SIZE then Inl (TooSmall ''RLE page'' (length body))
      else let num_values = from_le (subslice 0 4 body) in
        if num_values = 0 then Inl (ZeroCount ''num_values'')
        else let bit_width = rle_bit_width kind elem_size in
          case checked_mul_usize num_values elem_size of
            None \<Rightarrow> Inl (SizeOverflow ''RLE page output'')
          | Some _ \<Rightarrow>
              (case rle_runs kind elem_size bit_width num_values
                      \<lparr>rd_data = drop RLE_PAGE_HEADER_SIZE body, bit_pos = 0\<rparr> [] of
                 Inl e \<Rightarrow> Inl e
               | Inr values \<Rightarrow> Inr (num_values, elem_size, values)))"

subsection \<open>The layout of runs\<close>

text \<open>A reference encoder: variable-length run headers and bit-packed values.\<close>

fun vlq_bytes :: "nat \<Rightarrow> byte list" where
  "vlq_bytes n = (if n < 128 then [of_nat n] else of_nat (128 + n mod 128) # vlq_bytes (n div 128))"

declare vlq_bytes.simps [simp del]

definition pack_bits :: "bool list \<Rightarrow> byte list" where
  "pack_bits bs =
     map (\<lambda>p. horner_sum of_bool 2 (map (\<lambda>k. 8 * p + k < length bs \<and> bs ! (8 * p + k)) [0..<8]))
       [0..<(length bs + 7) div 8]"

datatype run = Rep nat "128 word" | Lit "128 word list"

definition value_bits :: "nat \<Rightarrow> 128 word \<Rightarrow> bool list" where
  "value_bits w v = map (bit v) [0..<w]"

fun run_values :: "run \<Rightarrow> 128 word list" where
  "run_values (Rep n v) = replicate n v"
| "run_values (Lit vs) = vs"

fun encode_run :: "nat \<Rightarrow> run \<Rightarrow> byte list" where
  "encode_run w (Rep n v) = vlq_bytes (2 * n) @ pack_bits (value_bits w v)"
| "encode_run w (Lit vs) = vlq_bytes (2 * (length vs div 8) + 1) @ pack_bits (concat (map (value_bits w) vs))"

fun run_ok :: "nat \<Rightarrow> run \<Rightarrow> bool" where
  "run_ok w (Rep n v) \<longleftrightarrow> 0 < n \<and> n < 2 ^ 31 \<and> (\<forall>i \<ge> w. \<not> bit v i)"
| "run_ok w (Lit vs) \<longleftrightarrow> 0 < length vs \<and> length vs mod 8 = 0 \<and> length vs < 2 ^ 31 \<and>
     (\<forall>v \<in> set vs. \<forall>i \<ge> w. \<not> bit v i)"

text \<open>The runs cover \<open>n\<close> values; only a final literal run may have padding values after them.\<close>

fun runs_cover :: "nat \<Rightarrow> run list \<Rightarrow> bool" where
  "runs_cover n [] \<longleftrightarrow> n = 0"
| "runs_cover n (r # rs) \<longleftrightarrow>
     0 < n \<and> (if length (run_values r) \<le> n then runs_cover (n - length (run_values r)) rs
              else rs = [] \<and> (\<exists>vs. r = Lit vs))"

definition encode_rle_page :: "nat \<Rightarrow> nat \<Rightarrow> run list \<Rightarrow> byte list" where
  "encode_rle_page w n rs = le_bytes 4 n @ concat (map (encode_run w) rs)"

definition value_bytes :: "output_column_kind \<Rightarrow> nat \<Rightarrow> 128 word \<Rightarrow> byte list" where
  "value_bytes kind es v = (case kind of Boolean \<Rightarrow> [ucast v] | _ \<Rightarrow> le_bytes es (unat v))"

subsection \<open>Reading packed bits\<close>

lemma length_pack_bits [simp]: "length (pack_bits bs) = (length bs + 7) div 8"
  by (simp add: pack_bits_def)

lemma data_bit_pack_bits: "n < length bs \<Longrightarrow> data_bit (pack_bits bs) n = bs ! n"
  by (simp add: data_bit_def pack_bits_def bit_horner_sum_bit_word_iff)

lemma data_bit_middle:
  "n < 8 * length xs \<Longrightarrow> data_bit (pre @ xs @ post) (8 * length pre + n) = data_bit xs n"
  by (simp add: data_bit_def nth_append less_mult_imp_div_less mult.commute)

lemma length_value_bits [simp]: "length (value_bits w v) = w"
  by (simp add: value_bits_def)

lemma length_concat_value_bits [simp]: "length (concat (map (value_bits w) vs)) = length vs * w"
  by (induction vs) simp_all

lemma nth_concat_value_bits:
  "j < length vs \<Longrightarrow> i < w \<Longrightarrow> concat (map (value_bits w) vs) ! (j * w + i) = bit (vs ! j) i"
proof (induction vs arbitrary: j)
  case (Cons v vs)
  then show ?case by (cases j) (simp_all add: nth_append value_bits_def)
qed simp

lemma bit_fold_or:
  assumes "n < 128"
  shows "bit (fold (\<lambda>i out. out OR push_bit i (of_bool (f i))) [0..<w] (0 :: 128 word)) n \<longleftrightarrow> n < w \<and> f n"
proof (induction w)
  case (Suc w)
  then show ?case using assms by (auto simp: bit_simps less_Suc_eq)
qed simp

lemma read_bits_value:
  assumes "w \<le> 128" and "bit_pos r + w \<le> 8 * length (rd_data r)" and "8 * length (rd_data r) < usize_limit"
    and "\<And>i. i < w \<Longrightarrow> data_bit (rd_data r) (bit_pos r + i) = bit v i" and "\<forall>i \<ge> w. \<not> bit v i"
  shows "read_bits w r = Some (v, r\<lparr>bit_pos := bit_pos r + w\<rparr>)"
proof -
  have "fold (\<lambda>i out. out OR push_bit i (of_bool (data_bit (rd_data r) (bit_pos r + i)))) [0..<w] 0 = v"
  proof (rule bit_word_eqI)
    fix n :: nat
    assume "n < LENGTH(128)"
    then show "bit (fold (\<lambda>i out. out OR push_bit i (of_bool (data_bit (rd_data r) (bit_pos r + i))))
        [0..<w] (0 :: 128 word)) n = bit v n"
      using assms(4) [of n] assms(5)
        bit_fold_or [of n "\<lambda>i. data_bit (rd_data r) (bit_pos r + i)" w]
      by (cases "n < w") simp_all
  qed
  then show ?thesis
    using assms(1-3)
    by (simp add: read_bits_def checked_add_usize_def checked_mul_usize_def mult.commute)
qed

lemma skip_bits_forward:
  "bit_pos r + n \<le> 8 * length (rd_data r) \<Longrightarrow> 8 * length (rd_data r) < usize_limit \<Longrightarrow>
   skip_bits n r = Some (r\<lparr>bit_pos := bit_pos r + n\<rparr>)"
  by (simp add: skip_bits_def checked_add_usize_def checked_mul_usize_def mult.commute)

subsection \<open>Reading run headers\<close>

text \<open>The reader is at byte \<open>p\<close> once aligned.\<close>

definition at_byte :: "nat \<Rightarrow> rle_bit_reader \<Rightarrow> bool" where
  "at_byte p r \<longleftrightarrow> (bit_pos r + 7) div 8 = p"

lemma align_at_byte:
  assumes "at_byte p r"
  shows "align_to_byte r = r\<lparr>bit_pos := 8 * p\<rparr>"
proof -
  define q m where "q = bit_pos r div 8" and "m = bit_pos r mod 8"
  have pos: "bit_pos r = 8 * q + m" and m: "m < 8" by (simp_all add: q_def m_def)
  have "(m + 7) div 8 = (if m = 0 then 0 else 1)" using m by (auto intro: div_nat_eqI)
  then have "p = q + (if m = 0 then 0 else 1)"
    using assms by (simp add: at_byte_def pos add.assoc)
  then show ?thesis using m by (simp add: align_to_byte_def pos Let_def)
qed

lemma read_aligned_u8_at:
  assumes "at_byte p r" "p < length (rd_data r)" "8 * length (rd_data r) < usize_limit"
  shows "read_aligned_u8 r = Some (rd_data r ! p, r\<lparr>bit_pos := 8 * Suc p\<rparr>)"
  using assms by (simp add: read_aligned_u8_def align_at_byte checked_add_usize_def)

lemma vlq_byte_bits:
  assumes "m < 128"
  shows "(ucast ((of_nat m :: byte) AND 0x7F) :: 32 word) = of_nat m" "(of_nat m :: byte) AND 0x80 = 0"
    "(ucast ((of_nat (128 + m) :: byte) AND 0x7F) :: 32 word) = of_nat m" "(of_nat (128 + m) :: byte) AND 0x80 \<noteq> 0"
proof -
  have "\<forall>m \<in> set [0..<128].
    (ucast ((of_nat m :: byte) AND 0x7F) :: 32 word) = of_nat m \<and> (of_nat m :: byte) AND 0x80 = 0 \<and>
    (ucast ((of_nat (128 + m) :: byte) AND 0x7F) :: 32 word) = of_nat m \<and> (of_nat (128 + m) :: byte) AND 0x80 \<noteq> 0"
    by code_simp
  with assms show "(ucast ((of_nat m :: byte) AND 0x7F) :: 32 word) = of_nat m" "(of_nat m :: byte) AND 0x80 = 0"
    "(ucast ((of_nat (128 + m) :: byte) AND 0x7F) :: 32 word) = of_nat m" "(of_nat (128 + m) :: byte) AND 0x80 \<noteq> 0"
    by (auto simp del: of_nat_add)
qed

lemma length_vlq_bytes: "n < 128 ^ k \<Longrightarrow> 0 < k \<Longrightarrow> length (vlq_bytes n) \<le> k"
proof (induction n arbitrary: k rule: vlq_bytes.induct)
  case (1 n)
  show ?case
  proof (cases "n < 128")
    case True
    then show ?thesis using "1.prems"(2) by (simp add: vlq_bytes.simps [of n])
  next
    case False
    then obtain k' where k: "k = Suc k'" "0 < k'"
      using "1.prems" by (cases k; cases "k - 1") auto
    then have "n div 128 < 128 ^ k'" using "1.prems"(1) by (simp add: less_mult_imp_div_less mult.commute)
    with False k "1.IH" show ?thesis by (simp add: vlq_bytes.simps [of n])
  qed
qed

lemma read_vlq_loop_encoded:
  assumes "length (vlq_bytes n) \<le> k" and "a < 2 ^ (7 * i)"
    and "at_byte (length pre) r" and "rd_data r = pre @ vlq_bytes n @ post"
    and "8 * length (rd_data r) < usize_limit"
  shows "read_vlq_loop k i (of_nat a) r =
    Some (of_nat (a + 2 ^ (7 * i) * n), r\<lparr>bit_pos := 8 * (length pre + length (vlq_bytes n))\<rparr>)"
  using assms
proof (induction n arbitrary: k i a pre r rule: vlq_bytes.induct)
  case (1 n)
  show ?case
  proof (cases "n < 128")
    case True
    then obtain k' where k: "k = Suc k'" using "1.prems"(1) by (cases k) (simp_all add: vlq_bytes.simps [of n])
    have "read_aligned_u8 r = Some (of_nat n, r\<lparr>bit_pos := 8 * Suc (length pre)\<rparr>)"
      using read_aligned_u8_at [OF "1.prems"(3)] "1.prems"(4,5) True by (simp add: vlq_bytes.simps [of n])
    with True k or_push_bit_of_nat [OF "1.prems"(2)] show ?thesis
      by (simp add: vlq_byte_bits vlq_bytes.simps [of n])
  next
    case False
    let ?b = "of_nat (128 + n mod 128) :: byte" and ?a = "a + 2 ^ (7 * i) * (n mod 128)"
    let ?r = "r\<lparr>bit_pos := 8 * Suc (length pre)\<rparr>"
    have vlq: "vlq_bytes n = ?b # vlq_bytes (n div 128)" using False by (simp add: vlq_bytes.simps [of n])
    then obtain k' where k: "k = Suc k'" "length (vlq_bytes (n div 128)) \<le> k'"
      using "1.prems"(1) by (cases k) simp_all
    have rd: "read_aligned_u8 r = Some (?b, ?r)"
      using read_aligned_u8_at [OF "1.prems"(3)] "1.prems"(4,5) by (simp add: vlq)
    have "2 ^ (7 * i) * (n mod 128) \<le> 2 ^ (7 * i) * 127"
      using mod_less_divisor [of 128 n] by (intro mult_le_mono2) simp
    then have "?a < 128 * 2 ^ (7 * i)" using "1.prems"(2) by linarith
    then have "?a < 2 ^ (7 * Suc i)" by (simp add: power_add)
    then have ih: "read_vlq_loop k' (Suc i) (of_nat ?a) ?r =
      Some (of_nat (?a + 2 ^ (7 * Suc i) * (n div 128)),
        ?r\<lparr>bit_pos := 8 * (length (pre @ [?b]) + length (vlq_bytes (n div 128)))\<rparr>)"
      by (intro "1.IH") (use False k "1.prems"(4,5) in \<open>simp_all add: vlq at_byte_def\<close>)
    have eq: "?a + 2 ^ (7 * Suc i) * (n div 128) = a + 2 ^ (7 * i) * n"
    proof -
      have "2 ^ (7 * i) * m + 2 ^ (7 * Suc i) * q = 2 ^ (7 * i) * (m + 128 * q)" for m q :: nat
        by (simp add: power_add algebra_simps)
      from this [of "n mod 128" "n div 128"] show ?thesis by simp
    qed
    show ?thesis
      using ih [unfolded eq] k(1) rd or_push_bit_of_nat [OF "1.prems"(2), of "n mod 128", where 'a = 32]
      by (simp add: vlq_byte_bits vlq del: of_nat_add of_nat_mult)
  qed
qed

lemma read_vlq_encoded:
  assumes "n < 2 ^ 32" and "at_byte (length pre) r" and "rd_data r = pre @ vlq_bytes n @ post"
    and "8 * length (rd_data r) < usize_limit"
  shows "read_vlq_u32 r = Some (of_nat n, r\<lparr>bit_pos := 8 * (length pre + length (vlq_bytes n))\<rparr>)"
proof -
  have "n < 128 ^ 5" using assms(1) by simp
  then show ?thesis
    using read_vlq_loop_encoded [OF length_vlq_bytes, of n 5 0 0 pre r post] assms
    by (simp add: read_vlq_u32_def MAX_VLQ_U32_BYTES_def)
qed

subsection \<open>Decoding runs\<close>

lemma le_bytes_unat: "map (\<lambda>i. ucast (drop_bit (i * 8) v AND 0xFF)) [0..<es] = le_bytes es (unat (v :: 128 word))"
proof -
  have byte: "(ucast (x AND 0xFF) :: byte) = of_nat (unat x)" for x :: "128 word"
  proof (rule bit_word_eqI)
    fix n :: nat
    assume "n < LENGTH(8)"
    moreover have m: "(0xFF :: 128 word) = mask 8" by (simp add: mask_eq_exp_minus_1)
    ultimately show "bit (ucast (x AND 0xFF) :: byte) n = bit (of_nat (unat x) :: byte) n"
      unfolding m by (simp add: bit_simps)
  qed
  have "map (\<lambda>i. ucast (drop_bit (i * 8) x AND 0xFF)) [0..<es] = le_bytes es (unat x)" for x :: "128 word"
  proof (induction es arbitrary: x)
    case (Suc es)
    have "unat x div 256 = unat (drop_bit 8 x)"
      by (simp add: unat_drop_bit_eq drop_bit_eq_div [of 8 "unat x"])
    moreover have "map (\<lambda>i. ucast (drop_bit (i * 8) x AND 0xFF) :: byte) [0..<Suc es] =
        ucast (x AND 0xFF) # map (\<lambda>i. ucast (drop_bit (i * 8) (drop_bit 8 x) AND 0xFF)) [0..<es]"
      by (simp add: upt_conv_Cons map_Suc_upt [symmetric] drop_bit_drop_bit add.commute del: upt_Suc)
    ultimately show ?case using Suc [of "drop_bit 8 x"] by (simp add: byte del: upt_Suc)
  qed simp
  then show ?thesis .
qed

text \<open>A value that fits the bit width of its kind is appended as its bytes.\<close>

lemma append_value:
  assumes "\<forall>i \<ge> rle_bit_width kind es. \<not> bit v i"
  shows "append_rle_decoded_value kind es v values = (None, values @ value_bytes kind es v)"
proof -
  have "\<not> 1 < v" if "kind = Boolean"
  proof -
    have "v = of_bool (odd v)"
    proof (rule bit_word_eqI)
      fix n :: nat
      show "bit v n = bit (of_bool (odd v) :: 128 word) n"
        using assms that by (cases n) (simp_all add: rle_bit_width_def bit_simps bit_0)
    qed
    then have "v = 0 \<or> v = 1" by (metis (full_types) of_bool_eq(1) of_bool_eq(2))
    then show ?thesis by auto
  qed
  then show ?thesis
    by (cases kind) (simp_all add: append_rle_decoded_value_def value_bytes_def le_bytes_unat)
qed

lemma append_repeated:
  assumes "\<forall>i \<ge> rle_bit_width kind es. \<not> bit v i"
  shows "for_each (\<lambda>_. append_rle_decoded_value kind es v) is values =
    (None, values @ concat (replicate (length is) (value_bytes kind es v)))"
  by (induction "is" arbitrary: "values") (simp_all add: append_value [OF assms])

lemma append_literals:
  assumes "w = rle_bit_width kind es" "w \<le> 128"
    and "\<forall>v \<in> set vs. \<forall>i \<ge> w. \<not> bit v i"
    and "bit_pos r + length vs * w \<le> 8 * length (rd_data r)" "8 * length (rd_data r) < usize_limit"
    and "\<And>j i. j < length vs \<Longrightarrow> i < w \<Longrightarrow> data_bit (rd_data r) (bit_pos r + (j * w + i)) = bit (vs ! j) i"
    and "length is = length vs"
  shows "for_each (\<lambda>_. literal_value kind es w) is (r, values) =
    (None, r\<lparr>bit_pos := bit_pos r + length vs * w\<rparr>, values @ concat (map (value_bytes kind es) vs))"
  using assms(3-)
proof (induction vs arbitrary: "is" r "values")
  case (Cons v vs)
  obtain i js where isj: "is = i # js" "length js = length vs" using Cons.prems(5) by (cases "is") simp_all
  let ?r = "r\<lparr>bit_pos := bit_pos r + w\<rparr>"
  have rd: "read_bits w r = Some (v, ?r)"
    using Cons.prems(1,2,3) Cons.prems(4) [of 0] assms(2) by (intro read_bits_value) simp_all
  have "for_each (\<lambda>_. literal_value kind es w) js (?r, values @ value_bytes kind es v) =
    (None, ?r\<lparr>bit_pos := bit_pos ?r + length vs * w\<rparr>,
      (values @ value_bytes kind es v) @ concat (map (value_bytes kind es) vs))"
  proof (rule Cons.IH)
    fix j i assume "j < length vs" "i < w"
    then show "data_bit (rd_data ?r) (bit_pos ?r + (j * w + i)) = bit (vs ! j) i"
      using Cons.prems(4) [of "Suc j" i] by (simp add: add.assoc)
  qed (use Cons.prems isj in simp_all)
  moreover have "append_rle_decoded_value kind es v values = (None, values @ value_bytes kind es v)"
    using Cons.prems(1) assms(1) by (intro append_value) simp
  then have "literal_value kind es w (r, values) = (None, ?r, values @ value_bytes kind es v)"
    using rd by (simp add: literal_value_def)
  ultimately show ?case by (simp add: isj add.assoc)
qed simp

lemma header_bits:
  assumes "n < 2 ^ 31"
  shows "(of_nat (2 * n) :: 32 word) AND 1 = 0" "unat (drop_bit 1 (of_nat (2 * n) :: 32 word)) = n"
    "(of_nat (2 * n + 1) :: 32 word) AND 1 \<noteq> 0" "unat (drop_bit 1 (of_nat (2 * n + 1) :: 32 word)) = n"
    "(of_nat (2 * n) :: 32 word) = 0 \<longleftrightarrow> n = 0"
proof -
  have lt: "2 * n + 1 < 2 ^ 32" using assms by simp
  have "x AND 1 = of_bool (bit x 0)" for x :: "32 word"
    by (simp add: and_one_eq mod2_eq_if bit_0)
  then show "(of_nat (2 * n) :: 32 word) AND 1 = 0" "(of_nat (2 * n + 1) :: 32 word) AND 1 \<noteq> 0"
    by (simp_all add: bit_of_nat_iff bit_0 del: of_nat_mult of_nat_add)
  have "unat (of_nat m :: 32 word) = m" if "m < 2 ^ 32" for m
    using that by (simp add: unat_of_nat)
  then have u: "unat (of_nat (2 * n) :: 32 word) = 2 * n" "unat (of_nat (2 * n + 1) :: 32 word) = 2 * n + 1"
    using lt by (simp_all del: of_nat_mult of_nat_add of_nat_Suc)
  have "unat (drop_bit 1 x) = unat x div 2" for x :: "32 word"
    using drop_bit_eq_div [of 1 "unat x"] by (simp only: unat_drop_bit_eq power_one_right)
  then show "unat (drop_bit 1 (of_nat (2 * n) :: 32 word)) = n"
    "unat (drop_bit 1 (of_nat (2 * n + 1) :: 32 word)) = n"
    by (simp_all only: u)
  show "(of_nat (2 * n) :: 32 word) = 0 \<longleftrightarrow> n = 0"
    using u(1) by (metis mult_eq_0_iff mult_0_right of_nat_0 unsigned_0 zero_neq_numeral)
qed

lemma rle_run_repeated:
  assumes w: "w = rle_bit_width kind es" "w \<le> 128" and ok: "run_ok w (Rep n v)" and "n \<le> remaining"
    and at: "at_byte (length pre) r" and data: "rd_data r = pre @ encode_run w (Rep n v) @ post"
    and lim: "8 * length (rd_data r) < usize_limit"
  obtains r' where "rle_run kind es w remaining r values =
      Inr (remaining - n, r', values @ concat (map (value_bytes kind es) (run_values (Rep n v))))"
    "rd_data r' = rd_data r" "at_byte (length (pre @ encode_run w (Rep n v))) r'"
proof -
  let ?h = "vlq_bytes (2 * n)" and ?b = "pack_bits (value_bits w v)"
  let ?p = "8 * (length pre + length ?h)"
  let ?r = "r\<lparr>bit_pos := ?p\<rparr>"
  have n: "0 < n" "n < 2 ^ 31" and v: "\<forall>i \<ge> w. \<not> bit v i" using ok by simp_all
  have vlq: "read_vlq_u32 r = Some (of_nat (2 * n), ?r)"
    using read_vlq_encoded [OF _ at, of "2 * n" "?b @ post"] data lim n(2) by simp
  have len: "length (rd_data r) = length pre + length ?h + (w + 7) div 8 + length post" by (simp add: data)
  have "w \<le> 8 * ((w + 7) div 8)" by simp
  then have "?p + w \<le> 8 * length (rd_data r)" using len by simp
  moreover have "data_bit (rd_data r) (?p + i) = bit v i" if "i < w" for i
  proof -
    have "data_bit (rd_data r) (8 * length (pre @ ?h) + i) = data_bit ?b i"
      using data_bit_middle [of i ?b "pre @ ?h" post] that data by simp
    then show ?thesis using that by (simp add: data_bit_pack_bits value_bits_def)
  qed
  ultimately have "read_bits w ?r = Some (v, ?r\<lparr>bit_pos := ?p + w\<rparr>)"
    using read_bits_value [of w ?r v] w(2) lim v by simp
  moreover have "align_to_byte ?r = ?r" by (simp add: align_to_byte_def)
  ultimately have rd: "read_aligned_bits w ?r = Some (v, ?r\<lparr>bit_pos := ?p + w\<rparr>)"
    by (simp add: read_aligned_bits_def)
  have "concat (replicate n (value_bytes kind es v)) = concat (map (value_bytes kind es) (replicate n v))"
    by simp
  then have "rle_run kind es w remaining r values =
      Inr (remaining - n, ?r\<lparr>bit_pos := ?p + w\<rparr>, values @ concat (map (value_bytes kind es) (run_values (Rep n v))))"
    unfolding rle_run_def
    using vlq rd n assms(4) header_bits [OF n(2)] append_repeated [of kind es v "[0..<n]" "values"] v w(1)
    by simp
  moreover have "at_byte (length (pre @ encode_run w (Rep n v))) (?r\<lparr>bit_pos := ?p + w\<rparr>)"
    by (simp add: at_byte_def)
  ultimately show ?thesis by (intro that [of "?r\<lparr>bit_pos := ?p + w\<rparr>"]) simp_all
qed

lemma rle_run_literal:
  assumes w: "w = rle_bit_width kind es" "w \<le> 128" and ok: "run_ok w (Lit vs)" and rem: "0 < remaining"
    and at: "at_byte (length pre) r" and data: "rd_data r = pre @ encode_run w (Lit vs) @ post"
    and lim: "8 * length (rd_data r) < usize_limit"
  obtains r' where "rle_run kind es w remaining r values =
      Inr (remaining - min (length vs) remaining, r', values @ concat (map (value_bytes kind es) (take remaining vs)))"
    "rd_data r' = rd_data r" "at_byte (length (pre @ encode_run w (Lit vs))) r'"
proof -
  let ?h = "vlq_bytes (2 * (length vs div 8) + 1)" and ?b = "pack_bits (concat (map (value_bits w) vs))"
  let ?p = "8 * (length pre + length ?h)" and ?e = "min (length vs) remaining"
  let ?r = "r\<lparr>bit_pos := ?p\<rparr>"
  let ?r2 = "?r\<lparr>bit_pos := ?p + ?e * w\<rparr>" and ?r3 = "?r\<lparr>bit_pos := ?p + length vs * w\<rparr>"
  have vs: "0 < length vs" "length vs mod 8 = 0" "length vs < 2 ^ 31" "\<forall>v \<in> set vs. \<forall>i \<ge> w. \<not> bit v i"
    using ok by simp_all
  have k: "length vs div 8 < 2 ^ 31" "length vs div 8 * 8 = length vs" using vs(2,3) by auto
  have vlq: "read_vlq_u32 r = Some (of_nat (2 * (length vs div 8) + 1), ?r)"
    using read_vlq_encoded [OF _ at, of "2 * (length vs div 8) + 1" "?b @ post"] data lim k(1) vs(3) by simp
  have bits: "length vs * w = 8 * ((length vs * w + 7) div 8)"
  proof -
    have "8 dvd length vs * w" using vs(2) by (simp add: mod_0_imp_dvd)
    then show ?thesis by presburger
  qed
  have len: "8 * length (rd_data r) = ?p + length vs * w + 8 * length post"
    using bits by (simp add: data distrib_left)
  have bit: "data_bit (rd_data r) (?p + (j * w + i)) = bit (vs ! j) i" if "j < length vs" "i < w" for i j
  proof -
    have "j * w + i < Suc j * w" using that(2) by simp
    also have "\<dots> \<le> length vs * w" using that(1) by (intro mult_le_mono1) simp
    finally have "j * w + i < length vs * w" .
    then have "data_bit (rd_data r) (8 * length (pre @ ?h) + (j * w + i)) = data_bit ?b (j * w + i)"
      using data_bit_middle [of "j * w + i" ?b "pre @ ?h" post] data bits by simp
    then show ?thesis using that \<open>j * w + i < length vs * w\<close>
      by (simp add: data_bit_pack_bits nth_concat_value_bits)
  qed
  have "?e * w \<le> length vs * w" by (intro mult_le_mono1) simp
  then have le: "?p + ?e * w \<le> 8 * length (rd_data r)" using len by linarith
  have lits: "for_each (\<lambda>_. literal_value kind es w) [0..<?e] (?r, values) =
      (None, ?r2, values @ concat (map (value_bytes kind es) (take remaining vs)))"
  proof -
    have "length (take remaining vs) = ?e" by simp
    then show ?thesis
      using append_literals [OF w, of "take remaining vs" ?r "[0..<?e]" "values"] vs(4) le lim bit
      by (auto dest: in_set_takeD)
  qed
  have sum: "?e * w + (length vs - ?e) * w = length vs * w" by (simp flip: add_mult_distrib)
  then have skip: "skip_bits ((length vs - ?e) * w) ?r2 = Some ?r3"
    using skip_bits_forward [of ?r2 "(length vs - ?e) * w"] len lim by (simp add: add.assoc)
  have lim2: "(length vs - ?e) * w < usize_limit"
    using len lim sum by linarith
  define ind where "ind = (of_nat (2 * (length vs div 8) + 1) :: 32 word)"
  have ind: "ind AND 1 \<noteq> 0" "unat (drop_bit 1 ind) * 8 = length vs"
    unfolding ind_def using header_bits(3) [OF k(1)] header_bits(4) [OF k(1)] k(2) by argo+
  then have "ind \<noteq> 0" by auto
  have "length vs < usize_limit" using vs(3) by (simp add: usize_limit_def)
  define e where "e = ?e"
  have "rle_run kind es w remaining r values =
      Inr (remaining - e, if e < length vs then ?r3 else ?r2, values @ concat (map (value_bytes kind es) (take remaining vs)))"
    unfolding rle_run_def vlq [folded ind_def]
    using lits [folded e_def] skip [folded e_def] lim2 [folded e_def] vs(1) ind \<open>ind \<noteq> 0\<close> \<open>length vs < usize_limit\<close>
    by (simp add: checked_mul_usize_def Let_def e_def [symmetric])
  moreover have "at_byte (length (pre @ encode_run w (Lit vs))) ?r3" "\<not> ?e < length vs \<Longrightarrow> ?r2 = ?r3"
    using bits by (auto simp: at_byte_def min_def)
  ultimately show ?thesis by (intro that) (auto simp: e_def)
qed

text \<open>All runs together, until the values are used up.\<close>

lemma rle_runs_encoded:
  assumes w: "w = rle_bit_width kind es" "w \<le> 128" and "\<forall>x \<in> set rs. run_ok w x" and "runs_cover n rs"
    and "at_byte (length pre) r" and "rd_data r = pre @ concat (map (encode_run w) rs)"
    and "8 * length (rd_data r) < usize_limit"
  shows "rle_runs kind es w n r values =
    Inr (values @ concat (map (value_bytes kind es) (take n (concat (map run_values rs)))))"
  using assms(3-)
proof (induction rs arbitrary: n r "values" pre)
  case Nil
  then show ?case by (simp add: rle_runs.simps [of _ _ _ 0])
next
  case (Cons x rs)
  have n: "0 < n" using Cons.prems(2) by simp
  let ?m = "min (length (run_values x)) n"
  let ?vals = "values @ concat (map (value_bytes kind es) (take n (run_values x)))"
  obtain r' where r': "rle_run kind es w n r values = Inr (n - ?m, r', ?vals)"
    "rd_data r' = rd_data r" "at_byte (length (pre @ encode_run w x)) r'"
  proof (cases x)
    case (Rep k v)
    then have "k \<le> n" using Cons.prems(2) by (auto split: if_splits)
    moreover have "run_ok w (Rep k v)" "rd_data r = pre @ encode_run w (Rep k v) @ concat (map (encode_run w) rs)"
      using Rep Cons.prems(1,4) by simp_all
    ultimately obtain r' where "rle_run kind es w n r values =
        Inr (n - k, r', values @ concat (map (value_bytes kind es) (run_values (Rep k v))))"
      "rd_data r' = rd_data r" "at_byte (length (pre @ encode_run w (Rep k v))) r'"
      using rle_run_repeated [OF w _ _ Cons.prems(3) _ Cons.prems(5)] by metis
    with Rep \<open>k \<le> n\<close> show ?thesis by (intro that [of r']) (simp_all add: min_absorb1)
  next
    case (Lit vs)
    then have "run_ok w (Lit vs)" "rd_data r = pre @ encode_run w (Lit vs) @ concat (map (encode_run w) rs)"
      using Cons.prems(1,4) by simp_all
    then obtain r' where "rle_run kind es w n r values =
        Inr (n - min (length vs) n, r', values @ concat (map (value_bytes kind es) (take n vs)))"
      "rd_data r' = rd_data r" "at_byte (length (pre @ encode_run w (Lit vs))) r'"
      using rle_run_literal [OF w _ n Cons.prems(3) _ Cons.prems(5)] by metis
    with Lit show ?thesis by (intro that [of r']) simp_all
  qed
  have "rle_runs kind es w (n - ?m) r' ?vals = Inr (?vals @ concat (map (value_bytes kind es)
      (take (n - ?m) (concat (map run_values rs)))))"
  proof (cases "length (run_values x) \<le> n")
    case True
    with Cons.prems show ?thesis
      using r' by (intro Cons.IH [where pre = "pre @ encode_run w x"]) (simp_all add: min_absorb1)
  next
    case False
    then show ?thesis by (simp add: rle_runs.simps [of _ _ _ 0])
  qed
  moreover have "n - ?m = n - length (run_values x)" by simp
  ultimately show ?case using n r'(1) by (subst rle_runs.simps) simp
qed

text \<open>
  (C10) Decoding an RLE page gives back the values of its runs, in order and cut to the page's
  value count, for every column kind and element size whose values fit 128 bits: repeated runs
  and bit-packed literal runs may alternate freely, and a final literal run may carry padding.
\<close>

theorem rle_page_roundtrip:
  assumes "w = rle_bit_width kind es" "w \<le> 128" "0 < n" "n < 2 ^ 32" "n * es < 2 ^ 64"
    and "\<forall>x \<in> set rs. run_ok w x" "runs_cover n rs"
    and "8 * length (encode_rle_page w n rs) < 2 ^ 64"
  shows "decode_rle_page_body (encode_rle_page w n rs) kind es =
    Inr (n, es, concat (map (value_bytes kind es) (take n (concat (map run_values rs)))))"
proof -
  let ?r = "\<lparr>rd_data = concat (map (encode_run w) rs), bit_pos = 0\<rparr>"
  have "rle_runs kind es w n ?r [] =
      Inr ([] @ concat (map (value_bytes kind es) (take n (concat (map run_values rs)))))"
    by (rule rle_runs_encoded [where pre = "[]"])
      (use assms in \<open>simp_all add: at_byte_def encode_rle_page_def usize_limit_def\<close>)
  moreover have "from_le (subslice 0 4 (encode_rle_page w n rs)) = n"
    using assms(4) by (simp add: encode_rle_page_def from_le_le_bytes)
  moreover have "drop 4 (encode_rle_page w n rs) = concat (map (encode_run w) rs)" "4 \<le> length (encode_rle_page w n rs)"
    by (simp_all add: encode_rle_page_def)
  ultimately show ?thesis
    using assms(1,3,5)
    by (simp add: decode_rle_page_body_def RLE_PAGE_HEADER_SIZE_def Let_def checked_mul_usize_def usize_limit_def)
qed

theorem rle_page_roundtrip_witness:
  "decode_rle_page_body (encode_rle_page 1 11 [Rep 5 1, Lit [1, 0, 1, 1, 0, 0, 0, 0]]) Boolean 1 =
     Inr (11, 1, concat (map (value_bytes Boolean 1)
       (take 11 (concat (map run_values [Rep 5 1, Lit [1, 0, 1, 1, 0, 0, 0, 0]])))))"
proof (rule rle_page_roundtrip)
  show "8 * length (encode_rle_page 1 11 [Rep 5 1, Lit [1, 0, 1, 1, 0, 0, 0, 0]]) < 2 ^ 64"
    by (simp add: encode_rle_page_def vlq_bytes.simps)
qed (auto simp: rle_bit_width_def bit_1_iff)

end
