(* ===== verification/Page_Codec.thy ===== *)
theory Page_Codec
  imports Rle_Page
begin

text \<open>
  Pages of the StarRocks segment format: the value decoders of
  \<open>src/src/formats/starrocks/reader/encoding\<close>, the page envelope, data page and index page
  decoders of \<open>.../reader/page\<close>, and the plain page writer of
  \<open>src/src/formats/starrocks/writer/segment_data.rs\<close>. CRC32C, LZ4 and the generated protobuf
  code are library code: they are the fields of \<open>page_libs\<close>, and what the round trips need of
  them are the hypotheses \<open>lz4_null_law\<close> and \<open>footer_law\<close>.
\<close>

subsection \<open>Footers and library code\<close>

record data_page_footer =
  first_ordinal :: "nat option"
  df_num_values :: "nat option"
  nullmap_size :: "nat option"
  format_version :: "nat option"
  null_encoding :: "int option"

record index_page_footer =
  num_entries :: "nat option"
  if_type :: "int option"

record page_footer =
  page_type :: "int option"
  uncompressed_size :: "nat option"
  data_footer :: "data_page_footer option"
  index_footer :: "index_page_footer option"

text \<open>The writer declares its own messages; the fields it shares with the reader have the same
  tags, the short-key footer is not known to the reader.\<close>

record short_key_footer =
  num_items :: "nat option"
  key_bytes :: "nat option"
  offset_bytes :: "nat option"
  segment_id :: "nat option"
  num_rows_per_block :: "nat option"
  num_segment_rows :: "nat option"

record page_footer_writer =
  w_type :: "int option"
  w_uncompressed_size :: "nat option"
  w_data_footer :: "data_page_footer option"
  w_short_key_footer :: "short_key_footer option"

record page_libs =
  crc32c :: "byte list \<Rightarrow> 32 word"
  lz4_decompress_into :: lz4_block
  lz4_compress :: "byte list \<Rightarrow> byte list"
  lz4_frame_decode :: "byte list \<Rightarrow> byte list option"
  footer_decode :: "byte list \<Rightarrow> page_footer option"
  footer_encode :: "page_footer_writer \<Rightarrow> byte list"

definition PAGE_TYPE_DATA :: int where "PAGE_TYPE_DATA = 1"
definition PAGE_TYPE_INDEX :: int where "PAGE_TYPE_INDEX = 2"
definition ENCODING_PLAIN :: int where "ENCODING_PLAIN = 2"
definition ENCODING_RLE :: int where "ENCODING_RLE = 4"
definition ENCODING_DICT :: int where "ENCODING_DICT = 5"
definition ENCODING_BIT_SHUFFLE :: int where "ENCODING_BIT_SHUFFLE = 6"
definition COMPRESSION_NO_COMPRESSION :: int where "COMPRESSION_NO_COMPRESSION = 0"
definition COMPRESSION_LZ4_FRAME :: int where "COMPRESSION_LZ4_FRAME = 5"
definition NULL_ENCODING_BITSHUFFLE :: int where "NULL_ENCODING_BITSHUFFLE = 0"
definition NULL_ENCODING_LZ4 :: int where "NULL_ENCODING_LZ4 = 1"
definition DATA_PAGE_FORMAT_V2 :: nat where "DATA_PAGE_FORMAT_V2 = 2"

lemmas page_constants = PAGE_TYPE_DATA_def PAGE_TYPE_INDEX_def ENCODING_PLAIN_def ENCODING_RLE_def
  ENCODING_DICT_def ENCODING_BIT_SHUFFLE_def COMPRESSION_NO_COMPRESSION_def COMPRESSION_LZ4_FRAME_def
  NULL_ENCODING_BITSHUFFLE_def NULL_ENCODING_LZ4_def DATA_PAGE_FORMAT_V2_def

subsection \<open>Value decoders\<close>

definition decode_fixed_plain_values :: "byte list \<Rightarrow> nat \<Rightarrow> page_error + nat \<times> byte list" where
  "decode_fixed_plain_values body elem_size =
     (if length body < 4 then Inl (TooSmall ''fixed plain page'' (length body))
      else let num_values = from_le (subslice 0 4 body) in
        if num_values = 0 then Inl (ZeroCount ''num_values'')
        else case checked_mul_usize num_values elem_size of
          None \<Rightarrow> Inl (SizeOverflow ''fixed plain values'')
        | Some vbytes \<Rightarrow>
            (case checked_add_usize 4 vbytes of
               None \<Rightarrow> Inl (SizeOverflow ''fixed plain body'')
             | Some expected_body_size \<Rightarrow>
                 if length body \<noteq> expected_body_size
                 then Inl (SizeMismatch ''fixed plain body'' expected_body_size (length body))
                 else Inr (num_values, drop 4 body)))"

definition plain_offset :: "byte list \<Rightarrow> nat \<Rightarrow> nat \<Rightarrow> nat" where
  "plain_offset body offsets_pos idx =
     from_le (subslice (offsets_pos + idx * 4) (offsets_pos + idx * 4 + 4) body)"

text \<open>The validation loop keeps the previous offset, the slicing loop the values so far.\<close>

definition check_offset :: "byte list \<Rightarrow> nat \<Rightarrow> nat \<Rightarrow> nat \<Rightarrow> page_error option \<times> nat" where
  "check_offset body offsets_pos idx prev_offset =
     (let off = plain_offset body offsets_pos idx
      in if offsets_pos < off then (Some (OutOfRange ''plain offset'' off offsets_pos), prev_offset)
         else if off < prev_offset then (Some (NotSorted idx off), prev_offset)
         else (None, off))"

definition slice_value ::
  "byte list \<Rightarrow> nat \<Rightarrow> nat \<Rightarrow> nat \<Rightarrow> byte list list \<Rightarrow> page_error option \<times> byte list list" where
  "slice_value body offsets_pos num_values idx vals =
     (let start_off = plain_offset body offsets_pos idx;
          end_off = (if idx + 1 < num_values then plain_offset body offsets_pos (idx + 1) else offsets_pos)
      in if end_off < start_off \<or> offsets_pos < end_off
         then (Some (OutOfRange ''plain slice'' end_off offsets_pos), vals)
         else (None, vals @ [subslice start_off end_off body]))"

definition decode_binary_plain_values ::
  "byte list \<Rightarrow> nat option \<Rightarrow> page_error + byte list list" where
  "decode_binary_plain_values body expected_num_values =
     (if length body < 4 then Inl (TooSmall ''binary plain page'' (length body))
      else let num_values = from_le (drop (length body - 4) body) in
        if expected_num_values \<noteq> None \<and> expected_num_values \<noteq> Some num_values
        then Inl (SizeMismatch ''num_values'' (the expected_num_values) num_values)
        else case checked_mul_usize num_values 4 of
          None \<Rightarrow> Inl (SizeOverflow ''offsets'')
        | Some offsets_bytes \<Rightarrow>
            (case checked_add_usize offsets_bytes 4 of
               None \<Rightarrow> Inl (SizeOverflow ''trailer'')
             | Some trailer_bytes \<Rightarrow>
                 if length body < trailer_bytes
                 then Inl (OutOfRange ''trailer'' trailer_bytes (length body))
                 else let offsets_pos = length body - trailer_bytes in
                   case for_each (check_offset body offsets_pos) [0..<num_values] 0 of
                     (Some e, _) \<Rightarrow> Inl e
                   | (None, _) \<Rightarrow>
                       (case for_each (slice_value body offsets_pos num_values) [0..<num_values] [] of
                          (Some e, _) \<Rightarrow> Inl e
                        | (None, vals) \<Rightarrow> Inr vals)))"

definition decode_v2_null_flags ::
  "page_libs \<Rightarrow> byte list \<Rightarrow> nat \<Rightarrow> int \<Rightarrow> page_error + byte list" where
  "decode_v2_null_flags libs nullmap_body num_values enc =
     (if enc = NULL_ENCODING_BITSHUFFLE then
        (case bitshuffle_lz4_decompress (lz4_decompress_into libs) nullmap_body (align_up_8 num_values) 1 of
           Inl e \<Rightarrow> Inl e
         | Inr decoded \<Rightarrow>
             if length decoded < num_values
             then Inl (TooSmall ''BITSHUFFLE_NULL payload'' (length decoded))
             else Inr (take num_values decoded))
      else if enc = NULL_ENCODING_LZ4 then
        (case lz4_decompress_into libs nullmap_body num_values of
           None \<Rightarrow> Inl (DecompressFailed ''LZ4_NULL payload'')
         | Some decoded \<Rightarrow>
             if length decoded \<noteq> num_values
             then Inl (SizeMismatch ''LZ4_NULL payload'' num_values (length decoded))
             else Inr decoded)
      else Inl (Unsupported ''null encoding'' enc))"

text \<open>\<open>chunks_exact(4)\<close> over the code bytes.\<close>

definition dict_lookup ::
  "byte list list \<Rightarrow> byte list \<Rightarrow> nat \<Rightarrow> byte list list \<Rightarrow> page_error option \<times> byte list list" where
  "dict_lookup dict_values code_bytes idx out =
     (let code = i32_of_u32 (from_le (subslice (4 * idx) (4 * idx + 4) code_bytes))
      in if code < 0 \<or> length dict_values \<le> nat code then (Some (DictCodeInvalid idx code), out)
         else (None, out @ [dict_values ! nat code]))"

definition decode_binary_dict_values ::
  "page_libs \<Rightarrow> byte list \<Rightarrow> nat \<Rightarrow> byte list list \<Rightarrow> page_error + byte list list" where
  "decode_binary_dict_values libs value_body num_values dict_values =
     (if length value_body < 4 then Inl (TooSmall ''binary dict page'' (length value_body))
      else let mode = i32_of_u32 (from_le (subslice 0 4 value_body)); payload = drop 4 value_body in
        if mode = ENCODING_PLAIN then decode_binary_plain_values payload (Some num_values)
        else if mode = ENCODING_DICT then
          (case decode_bitshuffle_page_body (lz4_decompress_into libs) payload of
             Inl e \<Rightarrow> Inl e
           | Inr (header_num_values, elem_size, code_bytes) \<Rightarrow>
               if header_num_values \<noteq> num_values
               then Inl (SizeMismatch ''dict num_values'' num_values header_num_values)
               else if elem_size \<noteq> 4 then Inl (Unsupported ''dict code elem_size'' (int elem_size))
               else if length code_bytes \<noteq> num_values * 4
               then Inl (SizeMismatch ''dict code bytes'' (num_values * 4) (length code_bytes))
               else case for_each (dict_lookup dict_values code_bytes) [0..<length code_bytes div 4] [] of
                      (Some e, _) \<Rightarrow> Inl e
                    | (None, out) \<Rightarrow> Inr out)
        else Inl (Unsupported ''binary dict mode'' mode))"

subsection \<open>The page envelope\<close>

definition decompress_page_body ::
  "page_libs \<Rightarrow> byte list \<Rightarrow> int \<Rightarrow> nat \<Rightarrow> page_error + byte list" where
  "decompress_page_body libs compressed_body compression expected =
     (if compression = COMPRESSION_NO_COMPRESSION then
        (if length compressed_body \<noteq> expected
         then Inl (SizeMismatch ''NO_COMPRESSION page body'' expected (length compressed_body))
         else Inr compressed_body)
      else if compression = COMPRESSION_LZ4_FRAME then
        (case lz4_frame_decode libs compressed_body of
           None \<Rightarrow> Inl (DecompressFailed ''LZ4_FRAME page body'')
         | Some out \<Rightarrow>
             if length out \<noteq> expected then Inl (SizeMismatch ''LZ4_FRAME page body'' expected (length out))
             else Inr out)
      else Inl (Unsupported ''page compression'' compression))"

definition decode_page_envelope ::
  "page_libs \<Rightarrow> byte list \<Rightarrow> int \<Rightarrow> page_error + page_footer \<times> byte list" where
  "decode_page_envelope libs page_bytes column_compression =
     (if length page_bytes < 8 then Inl (TooSmall ''page'' (length page_bytes))
      else let n = length page_bytes;
               expected_checksum = from_le (drop (n - 4) page_bytes);
               actual_checksum = unat (crc32c libs (take (n - 4) page_bytes))
      in if actual_checksum \<noteq> expected_checksum
         then Inl (ChecksumMismatch actual_checksum expected_checksum)
         else let footer_size = from_le (subslice (n - 8) (n - 4) page_bytes) in
           case checked_sub_usize n (8 + footer_size) of
             None \<Rightarrow> Inl (OutOfRange ''page footer'' footer_size n)
           | Some footer_start \<Rightarrow>
               (case footer_decode libs (subslice footer_start (n - 8) page_bytes) of
                  None \<Rightarrow> Inl FooterInvalid
                | Some footer \<Rightarrow>
                    let body = take footer_start page_bytes;
                        expected = (case uncompressed_size footer of None \<Rightarrow> 0 | Some k \<Rightarrow> k)
                    in if expected = 0 then Inl (ZeroCount ''uncompressed_size'')
                       else if length body \<noteq> expected
                       then (case decompress_page_body libs body column_compression expected of
                               Inl e \<Rightarrow> Inl e
                             | Inr body' \<Rightarrow> Inr (footer, body'))
                       else Inr (footer, body)))"

definition slice_page_bytes :: "byte list \<Rightarrow> nat \<Rightarrow> nat \<Rightarrow> page_error + byte list" where
  "slice_page_bytes segment_bytes page_offset page_size =
     (case checked_add_usize page_offset page_size of
        None \<Rightarrow> Inl (SizeOverflow ''page range'')
      | Some page_end \<Rightarrow>
          if length segment_bytes < page_end then Inl (OutOfRange ''page'' page_end (length segment_bytes))
          else Inr (subslice page_offset page_end segment_bytes))"

subsection \<open>Data pages\<close>

datatype page_payload =
    Fixed "byte list" nat
  | Variable "byte list list"

record decoded_page =
  payload :: page_payload
  num_values :: nat
  null_flags :: "byte list option"

definition decimal_elem_size_from_logical_type :: "int \<Rightarrow> page_error + nat" where
  "decimal_elem_size_from_logical_type logical_type =
     (if logical_type = 47 then Inr 4
      else if logical_type = 48 then Inr 8
      else if logical_type = 49 then Inr 16
      else if logical_type = 26 then Inr 32
      else Inl (Unsupported ''decimal logical_type'' logical_type))"

text \<open>The panic of \<open>value_size_bytes\<close> on variable-length kinds is the inner \<open>None\<close>.\<close>

definition fixed_value_size_bytes :: "output_column_kind \<Rightarrow> int \<Rightarrow> page_error + nat option" where
  "fixed_value_size_bytes kind logical_type =
     (case kind of
        Decimal128 \<Rightarrow> map_sum id Some (decimal_elem_size_from_logical_type logical_type)
      | Decimal256 \<Rightarrow> map_sum id Some (decimal_elem_size_from_logical_type logical_type)
      | _ \<Rightarrow> Inr (value_size_bytes kind))"

text \<open>The value area, by column encoding.\<close>

definition decode_page_payload ::
  "page_libs \<Rightarrow> byte list \<Rightarrow> nat \<Rightarrow> int \<Rightarrow> output_column_kind \<Rightarrow> nat option \<Rightarrow> byte list list option \<Rightarrow>
   page_error + page_payload" where
  "decode_page_payload libs value_body n column_encoding kind fixed_elem_size dict_values =
     (if column_encoding = ENCODING_BIT_SHUFFLE then
        (case decode_bitshuffle_page_body (lz4_decompress_into libs) value_body of
           Inl e \<Rightarrow> Inl e
         | Inr (header_num_values, elem_size, vbytes) \<Rightarrow>
             if fixed_elem_size \<noteq> None \<and> fixed_elem_size \<noteq> Some elem_size
             then Inl (SizeMismatch ''elem_size'' (the fixed_elem_size) elem_size)
             else if header_num_values \<noteq> n then Inl (SizeMismatch ''num_values'' n header_num_values)
             else Inr (Fixed vbytes elem_size))
      else if column_encoding = ENCODING_RLE then
        (case fixed_elem_size of
           None \<Rightarrow> Inl (MissingPart ''elem_size'')
         | Some es \<Rightarrow>
             (case decode_rle_page_body value_body kind es of
                Inl e \<Rightarrow> Inl e
              | Inr (header_num_values, elem_size, vbytes) \<Rightarrow>
                  if header_num_values \<noteq> n then Inl (SizeMismatch ''num_values'' n header_num_values)
                  else Inr (Fixed vbytes elem_size)))
      else if column_encoding = ENCODING_PLAIN then
        (if is_variable_len kind
         then map_sum id Variable (decode_binary_plain_values value_body (Some n))
         else case fixed_elem_size of
           None \<Rightarrow> Inl (MissingPart ''elem_size'')
         | Some es \<Rightarrow>
             (case decode_fixed_plain_values value_body es of
                Inl e \<Rightarrow> Inl e
              | Inr (header_num_values, vbytes) \<Rightarrow>
                  if header_num_values \<noteq> n then Inl (SizeMismatch ''num_values'' n header_num_values)
                  else Inr (Fixed vbytes es)))
      else if column_encoding = ENCODING_DICT then
        (if \<not> is_variable_len kind then Inl (Unsupported ''DICT encoding for fixed-width column'' 0)
         else case dict_values of
           None \<Rightarrow> Inl (MissingPart ''dictionary'')
         | Some dict \<Rightarrow> map_sum id Variable (decode_binary_dict_values libs value_body n dict))
      else Inl (Unsupported ''column encoding'' column_encoding))"

definition decode_page_nulls ::
  "page_libs \<Rightarrow> data_page_footer \<Rightarrow> byte list \<Rightarrow> nat \<Rightarrow> page_error + byte list option" where
  "decode_page_nulls libs df nullmap_body n =
     (if 0 < length nullmap_body then
        (let version = (case format_version df of None \<Rightarrow> 1 | Some v \<Rightarrow> v)
         in if version \<noteq> DATA_PAGE_FORMAT_V2 then Inl (Unsupported ''format_version'' (int version))
            else map_sum id Some (decode_v2_null_flags libs nullmap_body n
                   (case null_encoding df of None \<Rightarrow> NULL_ENCODING_BITSHUFFLE | Some e \<Rightarrow> e)))
      else Inr None)"

definition decode_data_page_values ::
  "page_libs \<Rightarrow> byte list \<Rightarrow> int \<Rightarrow> int \<Rightarrow> output_column_kind \<Rightarrow> nat option \<Rightarrow> bool option \<Rightarrow>
   byte list list option \<Rightarrow> page_error + decoded_page" where
  "decode_data_page_values libs page_bytes column_compression column_encoding kind fixed_elem_size
     column_is_nullable dict_values =
     (case decode_page_envelope libs page_bytes column_compression of
        Inl e \<Rightarrow> Inl e
      | Inr (footer, body) \<Rightarrow>
        if page_type footer \<noteq> Some PAGE_TYPE_DATA then Inl (Unsupported ''page type'' (case page_type footer of None \<Rightarrow> 0 | Some t \<Rightarrow> t))
        else case data_footer footer of
          None \<Rightarrow> Inl (MissingPart ''data_page_footer'')
        | Some df \<Rightarrow>
          let n = (case df_num_values df of None \<Rightarrow> 0 | Some k \<Rightarrow> k);
              null_size = (case nullmap_size df of None \<Rightarrow> 0 | Some k \<Rightarrow> k)
          in if n = 0 then Inl (ZeroCount ''num_values'')
             else if length body < null_size then Inl (OutOfRange ''nullmap'' null_size (length body))
             else if 0 < null_size \<and> column_is_nullable = Some False then Inl (UnexpectedNullmap null_size)
             else let value_body_end = length body - null_size;
                      value_body = take value_body_end body;
                      nullmap_body = drop value_body_end body
                  in case decode_page_payload libs value_body n column_encoding kind fixed_elem_size dict_values of
                       Inl e \<Rightarrow> Inl e
                     | Inr pl \<Rightarrow>
                         (case decode_page_nulls libs df nullmap_body n of
                            Inl e \<Rightarrow> Inl e
                          | Inr flags \<Rightarrow> Inr \<lparr>payload = pl, num_values = n, null_flags = flags\<rparr>))"

subsection \<open>Writing plain pages\<close>

text \<open>
  \<open>encode_fixed_values_with_nulls\<close>: the closures \<open>is_null_at\<close> and \<open>write_non_null\<close> read the
  column, here a list of optional encoded values.
\<close>

definition encode_fixed_row ::
  "nat \<Rightarrow> byte list option \<Rightarrow> byte list \<times> byte list option \<Rightarrow> byte list \<times> byte list option" where
  "encode_fixed_row width row st =
     (case st of (vbytes, flags) \<Rightarrow>
        case row of
          None \<Rightarrow> (vbytes @ replicate width 0, map_option (\<lambda>fs. fs @ [1]) flags)
        | Some bs \<Rightarrow> (vbytes @ bs, map_option (\<lambda>fs. fs @ [0]) flags))"

definition encode_fixed_values_with_nulls ::
  "byte list option list \<Rightarrow> bool \<Rightarrow> nat \<Rightarrow> page_error + byte list \<times> byte list option" where
  "encode_fixed_values_with_nulls rows is_nullable width =
     (let num_rows = length rows; null_count = length (filter (\<lambda>r. r = None) rows)
      in if num_rows = 0 then Inl (ZeroCount ''num_rows'')
         else if width = 0 then Inl (ZeroCount ''null value width'')
         else if 0 < null_count \<and> \<not> is_nullable then Inl (UnexpectedNullmap null_count)
         else let (vbytes, flags) = fold (encode_fixed_row width) rows
                    ([], if 0 < null_count then Some [] else None)
              in if length vbytes \<noteq> sat_usize (num_rows * width)
                 then Inl (SizeMismatch ''fixed-width values'' (num_rows * width) (length vbytes))
                 else Inr (vbytes, flags))"

definition encode_page_with_footer ::
  "page_libs \<Rightarrow> byte list \<Rightarrow> page_footer_writer \<Rightarrow> page_error + byte list" where
  "encode_page_with_footer libs page_body footer =
     (let footer_bytes = footer_encode libs footer
      in case u32_try_from (length footer_bytes) of
           None \<Rightarrow> Inl (SizeOverflow ''page footer'')
         | Some footer_size \<Rightarrow>
             (let out = page_body @ footer_bytes @ le_bytes 4 footer_size
              in Inr (out @ le_bytes 4 (unat (crc32c libs out)))))"

definition data_page_footer_of :: "nat \<Rightarrow> nat \<Rightarrow> nat \<Rightarrow> page_footer_writer" where
  "data_page_footer_of body_size n nullmap =
     \<lparr>w_type = Some PAGE_TYPE_DATA, w_uncompressed_size = Some body_size,
      w_data_footer = Some \<lparr>first_ordinal = Some 0, df_num_values = Some n, nullmap_size = Some nullmap,
                           format_version = Some 2, null_encoding = Some NULL_ENCODING_LZ4\<rparr>,
      w_short_key_footer = None\<rparr>"

definition encode_plain_data_page_body ::
  "page_libs \<Rightarrow> byte list \<Rightarrow> nat \<Rightarrow> byte list option \<Rightarrow> page_error + byte list" where
  "encode_plain_data_page_body libs value_body n flags =
     (case (case flags of
              None \<Rightarrow> Inr ([], 0)
            | Some fs \<Rightarrow>
                if length fs \<noteq> n then Inl (SizeMismatch ''null flags'' n (length fs))
                else let compressed = lz4_compress libs fs
                     in case u32_try_from (length compressed) of
                          None \<Rightarrow> Inl (SizeOverflow ''compressed null map'')
                        | Some k \<Rightarrow> Inr (compressed, k)) of
        Inl e \<Rightarrow> Inl e
      | Inr (nullmap_bytes, nullmap) \<Rightarrow>
          (let body = value_body @ nullmap_bytes
           in case u32_try_from (length body) of
                None \<Rightarrow> Inl (SizeOverflow ''data page body'')
              | Some k \<Rightarrow> encode_page_with_footer libs body (data_page_footer_of k n nullmap)))"

definition encode_plain_fixed_data_page ::
  "page_libs \<Rightarrow> byte list \<Rightarrow> nat \<Rightarrow> byte list option \<Rightarrow> page_error + byte list" where
  "encode_plain_fixed_data_page libs vbytes n flags =
     (case u32_try_from n of
        None \<Rightarrow> Inl (SizeOverflow ''page value count'')
      | Some k \<Rightarrow> encode_plain_data_page_body libs (le_bytes 4 k @ vbytes) n flags)"

definition push_binary_value ::
  "byte list \<Rightarrow> byte list \<times> nat list \<Rightarrow> page_error option \<times> byte list \<times> nat list" where
  "push_binary_value v st =
     (case st of (body, offsets) \<Rightarrow>
        case u32_try_from (length body) of
          None \<Rightarrow> (Some (SizeOverflow ''binary value offset''), body, offsets)
        | Some off \<Rightarrow> (None, body @ v, offsets @ [off]))"

definition encode_plain_binary_data_page ::
  "page_libs \<Rightarrow> byte list list \<Rightarrow> byte list option \<Rightarrow> page_error + byte list" where
  "encode_plain_binary_data_page libs vals flags =
     (if vals = [] then Inl (ZeroCount ''values'')
      else case for_each push_binary_value vals ([], []) of
        (Some e, _) \<Rightarrow> Inl e
      | (None, body, offsets) \<Rightarrow>
          (case u32_try_from (length vals) of
             None \<Rightarrow> Inl (SizeOverflow ''binary value count'')
           | Some k \<Rightarrow>
               encode_plain_data_page_body libs (body @ concat (map (le_bytes 4) offsets) @ le_bytes 4 k)
                 (length vals) flags))"

subsection \<open>What the pages need of the libraries\<close>

text \<open>The reader's view of a footer the writer encoded: shared tags, and nothing under the tags
  only one side declares.\<close>

definition lite_of :: "page_footer_writer \<Rightarrow> page_footer" where
  "lite_of f = \<lparr>page_type = w_type f, uncompressed_size = w_uncompressed_size f,
                data_footer = w_data_footer f, index_footer = None\<rparr>"

definition footer_law :: "page_libs \<Rightarrow> bool" where
  "footer_law libs \<longleftrightarrow>
     (\<forall>k n m. k < 2 ^ 32 \<and> n < 2 ^ 64 \<and> m < 2 ^ 32 \<longrightarrow>
        footer_decode libs (footer_encode libs (data_page_footer_of k n m)) =
          Some (lite_of (data_page_footer_of k n m)))"

definition lz4_null_law :: "page_libs \<Rightarrow> bool" where
  "lz4_null_law libs \<longleftrightarrow>
     (\<forall>fs. fs \<noteq> [] \<longrightarrow> lz4_compress libs fs \<noteq> [] \<and>
        lz4_decompress_into libs (lz4_compress libs fs) (length fs) = Some fs)"

subsection \<open>The envelope\<close>

lemma decode_encoded_envelope:
  assumes "encode_page_with_footer libs body f = Inr page"
    and "footer_decode libs (footer_encode libs f) = Some ft"
    and "uncompressed_size ft = Some (length body)" and "body \<noteq> []"
  shows "decode_page_envelope libs page compression = Inr (ft, body)"
proof -
  let ?fb = "footer_encode libs f"
  let ?out = "body @ ?fb @ le_bytes 4 (length ?fb)"
  let ?crc = "le_bytes 4 (unat (crc32c libs ?out))"
  have fs: "length ?fb < 2 ^ 32" and page: "page = ?out @ ?crc"
    using assms(1) by (auto simp: encode_page_with_footer_def u32_try_from_def u32_limit_def Let_def split: if_splits)
  have n: "length page = length body + length ?fb + 8" by (simp add: page)
  have "unat (crc32c libs ?out) < 2 ^ 32"
    by (rule order_less_le_trans [OF unsigned_less]) simp
  then have crc: "from_le (drop (length page - 4) page) = unat (crc32c libs ?out)"
    "take (length page - 4) page = ?out"
    by (simp_all add: n page from_le_le_bytes)
  have "subslice (length page - 8) (length page - 4) page = le_bytes 4 (length ?fb)"
    unfolding page append_assoc
    using subslice_middle [of _ "body @ ?fb" _ "le_bytes 4 (length ?fb)" ?crc]
    by (simp add: add.commute add.left_commute)
  then have size: "from_le (subslice (length page - 8) (length page - 4) page) = length ?fb"
    using fs by (simp add: from_le_le_bytes)
  have ft: "subslice (length body) (length page - 8) page = ?fb"
    unfolding page using subslice_middle [of "length body" body _ ?fb "le_bytes 4 (length ?fb) @ ?crc"] by simp
  have "take (length body) page = body" by (simp add: page)
  with assms(2-4) crc size ft n show ?thesis
    by (simp add: decode_page_envelope_def Let_def checked_sub_usize_def)
qed

lemma decode_encoded_plain_page:
  assumes laws: "footer_law libs" "lz4_null_law libs"
    and enc: "encode_plain_data_page_body libs value_body n flags = Inr page"
    and n: "0 < n" "n < 2 ^ 32" and "value_body \<noteq> []"
    and nullable: "flags = None \<or> column_is_nullable \<noteq> Some False"
    and pl: "decode_page_payload libs value_body n encoding kind es dict = Inr pl"
  shows "decode_data_page_values libs page compression encoding kind es column_is_nullable dict =
    Inr \<lparr>payload = pl, num_values = n, null_flags = flags\<rparr>"
proof -
  define nm where "nm = (case flags of None \<Rightarrow> [] | Some fs \<Rightarrow> lz4_compress libs fs)"
  have flags: "length fs = n \<and> length (lz4_compress libs fs) < 2 ^ 32" if "flags = Some fs" for fs
    using enc that
    by (auto simp: encode_plain_data_page_body_def u32_try_from_def u32_limit_def Let_def split: if_splits)
  have page: "encode_page_with_footer libs (value_body @ nm)
      (data_page_footer_of (length (value_body @ nm)) n (length nm)) = Inr page"
    and small: "length (value_body @ nm) < 2 ^ 32"
    using enc by (auto simp: encode_plain_data_page_body_def u32_try_from_def u32_limit_def Let_def nm_def
        split: if_splits option.splits)
  have "footer_decode libs (footer_encode libs (data_page_footer_of (length (value_body @ nm)) n (length nm))) =
      Some (lite_of (data_page_footer_of (length (value_body @ nm)) n (length nm)))"
    using laws(1) small n unfolding footer_law_def by simp
  then have env: "decode_page_envelope libs page compression =
      Inr (lite_of (data_page_footer_of (length (value_body @ nm)) n (length nm)), value_body @ nm)"
    using assms(6) by (intro decode_encoded_envelope [OF page]) (simp_all add: lite_of_def data_page_footer_of_def)
  have nulls: "decode_page_nulls libs df nm n = Inr flags"
    if "format_version df = Some 2" "null_encoding df = Some NULL_ENCODING_LZ4" for df
  proof (cases flags)
    case None
    then show ?thesis by (simp add: decode_page_nulls_def nm_def)
  next
    case (Some fs)
    then have "fs \<noteq> []" using flags n(1) by auto
    then have "nm \<noteq> []" "lz4_decompress_into libs nm n = Some fs"
      using laws(2) Some flags by (auto simp: lz4_null_law_def nm_def)
    with Some flags that show ?thesis
      by (simp add: decode_page_nulls_def decode_v2_null_flags_def page_constants)
  qed
  have "nm = [] \<or> column_is_nullable \<noteq> Some False" using nullable by (auto simp: nm_def)
  with env pl nulls n(1) show ?thesis
    by (auto simp: decode_data_page_values_def lite_of_def data_page_footer_of_def Let_def)
qed

subsection \<open>Plain binary values\<close>

definition value_offset :: "byte list list \<Rightarrow> nat \<Rightarrow> nat" where
  "value_offset vals i = length (concat (take i vals))"

lemma value_offset_mono: "i \<le> j \<Longrightarrow> value_offset vals i \<le> value_offset vals j"
proof -
  assume "i \<le> j"
  then have "take j vals = take i vals @ take (j - i) (drop i vals)" by (metis le_add_diff_inverse take_add)
  then show ?thesis by (simp add: value_offset_def)
qed

lemma value_offset_Suc: "i < length vals \<Longrightarrow> value_offset vals (Suc i) = value_offset vals i + length (vals ! i)"
  by (simp add: value_offset_def take_Suc_conv_app_nth)

lemma value_offset_all: "value_offset vals (length vals) = length (concat vals)"
  by (simp add: value_offset_def)

lemma value_at_offset:
  assumes "i < length vals"
  shows "subslice (value_offset vals i) (value_offset vals (Suc i)) (concat vals @ rest) = vals ! i"
proof -
  have "concat vals = concat (take i vals) @ vals ! i @ concat (drop (Suc i) vals)"
    using assms by (metis concat.simps(2) concat_append id_take_nth_drop)
  then have "concat vals @ rest = concat (take i vals) @ vals ! i @ (concat (drop (Suc i) vals) @ rest)" by simp
  then show ?thesis
    using assms by (metis subslice_middle value_offset_Suc value_offset_def)
qed

lemma push_binary_values:
  assumes "for_each push_binary_value vals (body, offs) = (None, body', offs')"
  shows "body' = body @ concat vals \<and>
    offs' = offs @ map (\<lambda>i. length body + value_offset vals i) [0..<length vals] \<and>
    (\<forall>i < length vals. length body + value_offset vals i < 2 ^ 32)"
  using assms
proof (induction vals arbitrary: body offs)
  case (Cons v vals)
  have shift: "length body + value_offset (v # vals) (Suc i) = length (body @ v) + value_offset vals i" for i
    by (simp add: value_offset_def)
  have step: "length body < 2 ^ 32" "for_each push_binary_value vals (body @ v, offs @ [length body]) = (None, body', offs')"
    using Cons.prems by (auto simp: push_binary_value_def [of v "(body, offs)"] u32_try_from_def u32_limit_def split: if_splits)
  note ih = Cons.IH [OF step(2)]
  have zero: "length body + value_offset (v # vals) 0 = length body" by (simp add: value_offset_def)
  have "map (\<lambda>i. length body + value_offset (v # vals) i) [0..<length (v # vals)] =
      length body # map (\<lambda>i. length (body @ v) + value_offset vals i) [0..<length vals]"
    unfolding length_Cons map_upt_Suc zero shift ..
  moreover have "length body + value_offset (v # vals) i < 2 ^ 32" if "i < length (v # vals)" for i
    using that ih step(1) by (cases i) (auto simp: shift zero)
  ultimately show ?case using ih by simp
qed simp

lemma decode_binary_plain_encoded:
  assumes body: "body = concat vals @ concat (map (le_bytes 4) (map (value_offset vals) [0..<length vals])) @
      le_bytes 4 (length vals)"
    and "\<forall>i < length vals. value_offset vals i < 2 ^ 32" and "length vals < 2 ^ 32"
  shows "decode_binary_plain_values body (Some (length vals)) = Inr vals"
proof -
  let ?n = "length vals" and ?pos = "length (concat vals)"
  let ?offs = "map (value_offset vals) [0..<?n]"
  have len: "length body = ?pos + ?n * 4 + 4" using u32_le.length_array [of ?offs] by (simp add: body)
  have cnt: "from_le (drop (length body - 4) body) = ?n"
    using assms(3) u32_le.length_array [of ?offs] by (simp add: len) (simp add: body from_le_le_bytes)
  have off: "plain_offset body ?pos i = value_offset vals i" if "i < ?n" for i
    using u32_le.array_read [of i ?offs "concat vals" "le_bytes 4 ?n"] that assms(2)
    by (simp add: plain_offset_def body)
  have le: "value_offset vals i \<le> ?pos" if "i \<le> ?n" for i
    using value_offset_mono [OF that, of vals] by (simp add: value_offset_all)
  have chk: "for_each (check_offset body ?pos) [0..<?n] 0 = (None, if ?n = 0 then 0 else value_offset vals (?n - 1))"
    using for_each_upt [of ?n "check_offset body ?pos" "\<lambda>i. if i = 0 then 0 else value_offset vals (i - 1)"]
    by (simp add: check_offset_def off le value_offset_mono Let_def not_less)
  have "for_each (slice_value body ?pos ?n) [0..<?n] (take 0 vals) = (None, take ?n vals)"
  proof (rule for_each_upt)
    fix i assume i: "i < ?n"
    have e: "(if i + 1 < ?n then plain_offset body ?pos (i + 1) else ?pos) = value_offset vals (Suc i)"
      using off [of "Suc i"] value_offset_all [of vals] i by (auto simp: not_less le_Suc_eq)
    have "subslice (value_offset vals i) (value_offset vals (Suc i)) body = vals ! i"
      using value_at_offset [OF i] by (simp add: body)
    then show "slice_value body ?pos ?n i (take i vals) = (None, take (Suc i) vals)"
      unfolding slice_value_def e off [OF i] Let_def
      using i le [of "Suc i"] value_offset_mono [of i "Suc i" vals] by (simp add: take_Suc_conv_app_nth)
  qed
  with chk cnt len assms(3) show ?thesis
    by (simp add: decode_binary_plain_values_def checked_mul_usize_def checked_add_usize_def usize_limit_def Let_def)
qed

subsection \<open>Plain fixed-width columns\<close>

text \<open>The rows of a decoded fixed-width page: a null flag of 1 hides the value bytes.\<close>

definition fixed_row :: "decoded_page \<Rightarrow> nat \<Rightarrow> byte list option" where
  "fixed_row p i =
     (case payload p of
        Fixed vbytes es \<Rightarrow>
          if (case null_flags p of None \<Rightarrow> False | Some fs \<Rightarrow> fs ! i = 1) then None
          else Some (subslice (i * es) (i * es + es) vbytes)
      | Variable vals \<Rightarrow> None)"

definition row_bytes :: "nat \<Rightarrow> byte list option \<Rightarrow> byte list" where
  "row_bytes width row = (case row of None \<Rightarrow> replicate width 0 | Some bs \<Rightarrow> bs)"

definition row_flag :: "byte list option \<Rightarrow> byte" where
  "row_flag row = (if row = None then 1 else 0)"

lemma fold_encode_fixed_row:
  "fold (encode_fixed_row width) rows (vbytes, flags) =
     (vbytes @ concat (map (row_bytes width) rows), map_option (\<lambda>fs. fs @ map row_flag rows) flags)"
proof (induction rows arbitrary: vbytes flags)
  case (Cons row rows)
  then show ?case
    by (cases row; cases flags) (simp_all add: encode_fixed_row_def row_bytes_def row_flag_def)
qed (simp add: option.map_ident)

lemma encode_fixed_values:
  assumes "encode_fixed_values_with_nulls rows is_nullable width = Inr (vbytes, flags)"
    and "length rows * width < 2 ^ 64"
  shows "vbytes = concat (map (row_bytes width) rows) \<and> length vbytes = length rows * width \<and>
    flags = (if None \<in> set rows then Some (map row_flag rows) else None) \<and>
    rows \<noteq> [] \<and> 0 < width \<and> (None \<in> set rows \<longrightarrow> is_nullable)"
proof -
  have "0 < length (filter (\<lambda>r. r = None) rows) \<longleftrightarrow> None \<in> set rows"
    by (induction rows) auto
  moreover have "sat_usize (length rows * width) = length rows * width"
    using assms(2) by (simp add: sat_usize_def usize_limit_def)
  ultimately show ?thesis
    using assms(1)
    by (auto simp: encode_fixed_values_with_nulls_def fold_encode_fixed_row Let_def split: if_splits)
qed

lemma row_bytes_slice:
  assumes "\<forall>row \<in> set rows. length (row_bytes width row) = width" and "i < length rows"
  shows "subslice (i * width) (i * width + width) (concat (map (row_bytes width) rows)) = row_bytes width (rows ! i)"
  using assms
proof (induction rows arbitrary: i)
  case (Cons row rows)
  then show ?case
    by (cases i) (auto simp: subslice_append_right subslice_append_left add.commute)
qed simp

subsection \<open>A concrete library\<close>

text \<open>Stored null maps, fixed-width footers and a constant checksum meet the laws.\<close>

definition plain_libs :: page_libs where
  "plain_libs =
     \<lparr>crc32c = (\<lambda>_. 0), lz4_decompress_into = stored_lz4, lz4_compress = (\<lambda>bs. bs),
      lz4_frame_decode = Some,
      footer_decode = (\<lambda>bs. Some (lite_of (data_page_footer_of (from_le (take 4 bs))
        (from_le (subslice 4 12 bs)) (from_le (drop 12 bs))))),
      footer_encode = (\<lambda>f. case (w_uncompressed_size f, w_data_footer f) of
          (Some k, Some df) \<Rightarrow> le_bytes 4 k @ le_bytes 8 (the (df_num_values df)) @
             le_bytes 4 (the (nullmap_size df))
        | _ \<Rightarrow> [])\<rparr>"

lemma plain_libs_laws: "footer_law plain_libs" "lz4_null_law plain_libs"
  by (simp_all add: footer_law_def lz4_null_law_def plain_libs_def stored_lz4_def
      data_page_footer_of_def subslice_def from_le_le_bytes)

text \<open>
  (C11) A fixed-width column written as a plain page is read back row by row: every value with
  its bytes, every null as null, whether or not the column has nulls at all.
\<close>

theorem plain_fixed_page_roundtrip:
  assumes laws: "footer_law libs" "lz4_null_law libs"
    and "encode_fixed_values_with_nulls rows is_nullable width = Inr (vbytes, flags)"
    and "encode_plain_fixed_data_page libs vbytes (length rows) flags = Inr page"
    and "\<forall>bs. Some bs \<in> set rows \<longrightarrow> length bs = width" and "length rows * width < 2 ^ 63"
    and "\<not> is_variable_len kind"
  shows "\<exists>p. decode_data_page_values libs page compression ENCODING_PLAIN kind (Some width)
      (Some is_nullable) dict = Inr p \<and> num_values p = length rows \<and>
      (\<forall>i < length rows. fixed_row p i = rows ! i)"
proof -
  note enc = encode_fixed_values [OF assms(3)]
  have n: "length rows < 2 ^ 32" and page: "encode_plain_data_page_body libs
      (le_bytes 4 (length rows) @ vbytes) (length rows) flags = Inr page"
    using assms(4) by (auto simp: encode_plain_fixed_data_page_def u32_try_from_def u32_limit_def split: if_splits)
  have facts: "vbytes = concat (map (row_bytes width) rows)" "length vbytes = length rows * width"
    "flags = (if None \<in> set rows then Some (map row_flag rows) else None)" "rows \<noteq> []"
    "None \<in> set rows \<longrightarrow> is_nullable"
    using enc assms(6) by auto
  have "decode_fixed_plain_values (le_bytes 4 (length rows) @ vbytes) width = Inr (length rows, vbytes)"
    using n facts assms(6)
    by (simp add: decode_fixed_plain_values_def Let_def from_le_le_bytes checked_mul_usize_def
        checked_add_usize_def usize_limit_def)
  then have pl: "decode_page_payload libs (le_bytes 4 (length rows) @ vbytes) (length rows) ENCODING_PLAIN
      kind (Some width) dict = Inr (Fixed vbytes width)"
    using assms(7) by (simp add: decode_page_payload_def page_constants)
  have "decode_data_page_values libs page compression ENCODING_PLAIN kind (Some width) (Some is_nullable) dict =
      Inr \<lparr>payload = Fixed vbytes width, num_values = length rows, null_flags = flags\<rparr>"
    using n facts(3-5) by (intro decode_encoded_plain_page [OF laws page _ _ _ _ pl]) auto
  moreover have "fixed_row \<lparr>payload = Fixed vbytes width, num_values = length rows, null_flags = flags\<rparr> i = rows ! i"
    if "i < length rows" for i
  proof -
    have "length (row_bytes width row) = width" if "row \<in> set rows" for row
      using assms(5) that by (cases row) (auto simp: row_bytes_def)
    then have "subslice (i * width) (i * width + width) vbytes = row_bytes width (rows ! i)"
      using row_bytes_slice [of rows width i] that facts(1) by simp
    moreover have "rows ! i = None \<longrightarrow> None \<in> set rows" using that by (metis nth_mem)
    ultimately show ?thesis
      using that facts(3) by (cases "rows ! i") (auto simp: fixed_row_def row_flag_def row_bytes_def)
  qed
  ultimately show ?thesis by auto
qed

lemma replicate_numeral: "replicate (numeral k) x = x # replicate (pred_numeral k) x"
  by (simp add: numeral_eq_Suc)

lemma example_fixed_page:
  "encode_fixed_values_with_nulls [Some [1, 2], None] True 2 = Inr ([1, 2, 0, 0], Some [0, 1])"
  "\<exists>page. encode_plain_fixed_data_page plain_libs [1, 2, 0, 0] (length [Some [1, 2 :: byte], None]) (Some [0, 1]) = Inr page"
  by (simp_all add: encode_fixed_values_with_nulls_def encode_fixed_row_def sat_usize_def usize_limit_def
      encode_plain_fixed_data_page_def encode_plain_data_page_body_def encode_page_with_footer_def
      u32_try_from_def u32_limit_def plain_libs_def data_page_footer_of_def Let_def replicate_numeral)

theorem plain_fixed_page_roundtrip_witness:
  "\<exists>page p. encode_plain_fixed_data_page plain_libs [1, 2, 0, 0] 2 (Some [0, 1]) = Inr page \<and>
     decode_data_page_values plain_libs page 0 ENCODING_PLAIN Int16 (Some 2) (Some True) None = Inr p \<and>
     fixed_row p 0 = Some [1, 2] \<and> fixed_row p 1 = None"
proof -
  obtain page where page: "encode_plain_fixed_data_page plain_libs [1, 2, 0, 0]
      (length [Some [1, 2 :: byte], None]) (Some [0, 1]) = Inr page"
    using example_fixed_page(2) by blast
  from plain_fixed_page_roundtrip [OF plain_libs_laws example_fixed_page(1) page, of Int16 0 None]
  obtain p where "decode_data_page_values plain_libs page 0 ENCODING_PLAIN Int16 (Some 2) (Some True) None = Inr p"
    "\<forall>i < 2. fixed_row p i = [Some [1, 2], None] ! i"
    by (auto simp: is_variable_len_def)
  moreover from this(2) have "fixed_row p 0 = Some [1, 2]" "fixed_row p 1 = None" by simp_all
  ultimately show ?thesis using page by (auto simp: numeral_2_eq_2)
qed

lemma decode_encoded_binary_page:
  assumes laws: "footer_law libs" "lz4_null_law libs"
    and "encode_plain_binary_data_page libs vals flags = Inr page"
    and "is_variable_len kind" and "flags = None \<or> column_is_nullable \<noteq> Some False"
  shows "decode_data_page_values libs page compression ENCODING_PLAIN kind es column_is_nullable dict =
    Inr \<lparr>payload = Variable vals, num_values = length vals, null_flags = flags\<rparr>"
proof -
  obtain body offs where loop: "for_each push_binary_value vals ([], []) = (None, body, offs)"
    and n: "length vals < 2 ^ 32" "vals \<noteq> []"
    and page: "encode_plain_data_page_body libs (body @ concat (map (le_bytes 4) offs) @ le_bytes 4 (length vals))
      (length vals) flags = Inr page"
    using assms(3)
    by (auto simp: encode_plain_binary_data_page_def u32_try_from_def u32_limit_def
        split: if_splits prod.splits option.splits)
  have "body = concat vals" "offs = map (value_offset vals) [0..<length vals]"
    "\<forall>i < length vals. value_offset vals i < 2 ^ 32"
    using push_binary_values [OF loop] by simp_all
  then have dec: "decode_binary_plain_values (body @ concat (map (le_bytes 4) offs) @ le_bytes 4 (length vals))
      (Some (length vals)) = Inr vals"
    using n by (intro decode_binary_plain_encoded) simp_all
  show ?thesis
    by (rule decode_encoded_plain_page [OF laws page])
      (use n dec assms(4,5) in \<open>auto simp: decode_page_payload_def page_constants\<close>)
qed

text \<open>
  (C12) A column of byte strings written as a plain page is read back as the same strings, with
  the same null flags: the offset trailer the writer lays out is the one the reader checks and
  slices by.
\<close>

theorem plain_binary_page_roundtrip:
  assumes laws: "footer_law libs" "lz4_null_law libs"
    and "encode_plain_binary_data_page libs vals flags = Inr page"
    and "is_variable_len kind" and "flags = None \<or> column_is_nullable \<noteq> Some False"
  shows "decode_data_page_values libs page compression ENCODING_PLAIN kind es column_is_nullable dict =
    Inr \<lparr>payload = Variable vals, num_values = length vals, null_flags = flags\<rparr>"
  by (rule decode_encoded_binary_page [OF assms])

lemma example_binary_page:
  "\<exists>page. encode_plain_binary_data_page plain_libs [[1], [], [2, 3]] None = Inr page"
  by (simp add: encode_plain_binary_data_page_def push_binary_value_def encode_plain_data_page_body_def
      encode_page_with_footer_def u32_try_from_def u32_limit_def plain_libs_def data_page_footer_of_def Let_def)

theorem plain_binary_page_roundtrip_witness:
  "\<exists>page. encode_plain_binary_data_page plain_libs [[1], [], [2, 3]] None = Inr page \<and>
     decode_data_page_values plain_libs page 0 ENCODING_PLAIN Utf8 None (Some False) None =
       Inr \<lparr>payload = Variable [[1], [], [2, 3]], num_values = 3, null_flags = None\<rparr>"
proof -
  obtain page where "encode_plain_binary_data_page plain_libs [[1], [], [2, 3]] None = Inr page"
    using example_binary_page by blast
  with plain_binary_page_roundtrip [OF plain_libs_laws this, of Utf8 "Some False" 0 None None] show ?thesis
    by (simp add: is_variable_len_def)
qed

end
