(* ===== verification/Index_Page.thy ===== *)
theory Index_Page
  imports Page_Codec
begin

text \<open>
  Index pages and indexed columns: the varint codecs (\<open>append_varint_u32\<close> of
  \<open>src/src/formats/starrocks/writer/segment_data.rs\<close>, \<open>decode_varint64\<close> of
  \<open>.../reader/page/index_page.rs\<close>), the index page decoder, and the ordinal index of
  \<open>.../reader/indexed_column.rs\<close> with its tree walk and the page references it resolves.
\<close>

subsection \<open>Varints\<close>

text \<open>The writer's loop on a \<open>u32\<close>.\<close>

function append_varint_u32 :: "byte list \<Rightarrow> 32 word \<Rightarrow> byte list" where
  "append_varint_u32 out v =
     (if 0x80 \<le> v then append_varint_u32 (out @ [ucast v OR 0x80]) (drop_bit 7 v)
      else out @ [ucast v])"
  by pat_completeness auto
termination
proof (relation "measure (\<lambda>(out, v). unat v)")
  fix v :: "32 word" and out :: "byte list"
  assume "0x80 \<le> v"
  then have "128 \<le> unat v" by (simp add: word_le_nat_alt)
  moreover have "unat (drop_bit 7 v) = unat v div 128"
    using drop_bit_eq_div [of 7 "unat v"] by (simp only: unat_drop_bit_eq) simp
  ultimately show "((out @ [ucast v OR 0x80], drop_bit 7 v), out, v) \<in> measure (\<lambda>(out, v). unat v)"
    by simp
qed simp

declare append_varint_u32.simps [simp del]

text \<open>The reader's loop; the offset it has reached survives a failure, as \<open>&mut offset\<close> does.\<close>

function decode_varint_loop :: "byte list \<Rightarrow> nat \<Rightarrow> nat \<Rightarrow> 64 word \<Rightarrow> 64 word option \<times> nat" where
  "decode_varint_loop buf offset shift out =
     (if offset < length buf \<and> shift < 64 then
        (let b = buf ! offset; out' = out OR push_bit shift (ucast (b AND 0x7F))
         in if b AND 0x80 = 0 then (Some out', offset + 1)
            else decode_varint_loop buf (offset + 1) (shift + 7) out')
      else (None, offset))"
  by pat_completeness auto
termination
  by (relation "measure (\<lambda>(buf, offset, shift, out). length buf - offset)") auto

declare decode_varint_loop.simps [simp del]

definition decode_varint64 :: "byte list \<Rightarrow> nat \<Rightarrow> nat option \<times> nat" where
  "decode_varint64 buf offset =
     (case decode_varint_loop buf offset 0 0 of (v, o') \<Rightarrow> (map_option unat v, o'))"

definition decode_varint32 :: "byte list \<Rightarrow> nat \<Rightarrow> nat option \<times> nat" where
  "decode_varint32 buf offset =
     (case decode_varint64 buf offset of
        (None, o') \<Rightarrow> (None, o')
      | (Some v, o') \<Rightarrow> (u32_try_from v, o'))"

subsection \<open>Index pages\<close>

datatype index_page_node_type = Leaf | Internal

record page_pointer =
  pp_offset :: nat
  pp_size :: nat

record index_page_entry =
  entry_key :: "byte list"
  page_pointer :: page_pointer

record decoded_index_page =
  node_type :: index_page_node_type
  entries :: "index_page_entry list"

definition decode_index_entry ::
  "byte list \<Rightarrow> nat \<Rightarrow> page_error + index_page_entry \<times> nat" where
  "decode_index_entry body offset =
     (case decode_varint32 body offset of
        (None, _) \<Rightarrow> Inl (MissingPart ''key_len'')
      | (Some key_len, o1) \<Rightarrow>
          (case checked_add_usize o1 key_len of
             None \<Rightarrow> Inl (SizeOverflow ''index key range'')
           | Some key_end \<Rightarrow>
               if length body < key_end then Inl (OutOfRange ''index key'' key_end (length body))
               else case decode_varint64 body key_end of
                 (None, _) \<Rightarrow> Inl (MissingPart ''page offset'')
               | (Some page_offset, o2) \<Rightarrow>
                   (case decode_varint32 body o2 of
                      (None, _) \<Rightarrow> Inl (MissingPart ''page size'')
                    | (Some page_size, o3) \<Rightarrow>
                        Inr (\<lparr>entry_key = subslice o1 key_end body,
                              page_pointer = \<lparr>pp_offset = page_offset, pp_size = page_size\<rparr>\<rparr>, o3))))"

fun decode_index_entries :: "byte list \<Rightarrow> nat \<Rightarrow> nat \<Rightarrow> page_error + index_page_entry list" where
  "decode_index_entries body 0 offset = Inr []"
| "decode_index_entries body (Suc n) offset =
     (case decode_index_entry body offset of
        Inl e \<Rightarrow> Inl e
      | Inr (x, o') \<Rightarrow> map_sum id ((#) x) (decode_index_entries body n o'))"

definition decode_index_page :: "page_libs \<Rightarrow> byte list \<Rightarrow> page_error + decoded_index_page" where
  "decode_index_page libs page_bytes =
     (case decode_page_envelope libs page_bytes COMPRESSION_NO_COMPRESSION of
        Inl e \<Rightarrow> Inl e
      | Inr (footer, body) \<Rightarrow>
          if page_type footer \<noteq> Some PAGE_TYPE_INDEX
          then Inl (Unsupported ''page type'' (case page_type footer of None \<Rightarrow> 0 | Some t \<Rightarrow> t))
          else case index_footer footer of
            None \<Rightarrow> Inl (MissingPart ''index_page_footer'')
          | Some f \<Rightarrow>
              let ty = (case if_type f of None \<Rightarrow> 0 | Some t \<Rightarrow> t);
                  n = (case num_entries f of None \<Rightarrow> 0 | Some k \<Rightarrow> k)
              in if ty = 1 then map_sum id (\<lambda>es. \<lparr>node_type = Leaf, entries = es\<rparr>) (decode_index_entries body n 0)
                 else if ty = 2 then map_sum id (\<lambda>es. \<lparr>node_type = Internal, entries = es\<rparr>) (decode_index_entries body n 0)
                 else Inl (Unsupported ''index page node type'' ty))"

subsection \<open>The ordinal index\<close>

definition MAX_INDEX_TREE_DEPTH :: nat where "MAX_INDEX_TREE_DEPTH = 16"

text \<open>The children of an internal page are decoded in order; the first error ends the walk.\<close>

fun collect_results :: "('a \<Rightarrow> 'e + 'b list) \<Rightarrow> 'a list \<Rightarrow> 'e + 'b list" where
  "collect_results f [] = Inr []"
| "collect_results f (x # xs) =
     (case f x of
        Inl e \<Rightarrow> Inl e
      | Inr ys \<Rightarrow> map_sum id (\<lambda>zs. ys @ zs) (collect_results f xs))"

lemma collect_results_cong [fundef_cong]:
  "xs = xs' \<Longrightarrow> (\<And>x. x \<in> set xs' \<Longrightarrow> f x = f' x) \<Longrightarrow> collect_results f xs = collect_results f' xs'"
  by (induction xs arbitrary: xs') (auto split: sum.splits)

function decode_leaf_entries_from_index_tree ::
  "page_libs \<Rightarrow> byte list \<Rightarrow> page_pointer \<Rightarrow> nat \<Rightarrow> page_error + index_page_entry list" where
  "decode_leaf_entries_from_index_tree libs segment_bytes ptr depth =
     (if MAX_INDEX_TREE_DEPTH < depth then Inl (SizeOverflow ''index tree depth'')
      else case slice_page_bytes segment_bytes (pp_offset ptr) (pp_size ptr) of
        Inl e \<Rightarrow> Inl e
      | Inr page_bytes \<Rightarrow>
          (case decode_index_page libs page_bytes of
             Inl e \<Rightarrow> Inl e
           | Inr decoded \<Rightarrow>
               (case node_type decoded of
                  Leaf \<Rightarrow> Inr (entries decoded)
                | Internal \<Rightarrow>
                    collect_results (\<lambda>x. decode_leaf_entries_from_index_tree libs segment_bytes
                        (page_pointer x) (depth + 1))
                      (entries decoded))))"
  by pat_completeness auto
termination
  by (relation "measure (\<lambda>(libs, segment_bytes, ptr, depth). Suc MAX_INDEX_TREE_DEPTH - depth)") auto

declare decode_leaf_entries_from_index_tree.simps [simp del]

record data_page_ref =
  ref_first_ordinal :: nat
  ref_num_values :: nat
  ref_page_pointer :: page_pointer

definition decode_unsigned_bigint_ordinal_key :: "byte list \<Rightarrow> page_error + nat" where
  "decode_unsigned_bigint_ordinal_key key =
     (if length key \<noteq> 8 then Inl (SizeMismatch ''ordinal key'' 8 (length key)) else Inr (from_be key))"

text \<open>One round of the loop over the leaf entries; \<open>next_first\<close> is the next key or the total.\<close>

definition push_page_ref ::
  "nat \<Rightarrow> index_page_entry list \<Rightarrow> nat \<Rightarrow> data_page_ref list \<Rightarrow> page_error option \<times> data_page_ref list" where
  "push_page_ref tot es idx refs =
     (case decode_unsigned_bigint_ordinal_key (entry_key (es ! idx)) of
        Inl e \<Rightarrow> (Some e, refs)
      | Inr first \<Rightarrow>
          if tot < first then (Some (OutOfRange ''ordinal key'' first tot), refs)
          else case (if idx + 1 < length es
                     then decode_unsigned_bigint_ordinal_key (entry_key (es ! (idx + 1))) else Inr tot) of
            Inl e \<Rightarrow> (Some e, refs)
          | Inr next_first \<Rightarrow>
              if tot < next_first then (Some (OutOfRange ''next ordinal key'' next_first tot), refs)
              else if next_first < first then (Some (NotSorted idx next_first), refs)
              else if next_first - first = 0 then (None, refs)
              else (None, refs @ [\<lparr>ref_first_ordinal = first, ref_num_values = next_first - first,
                                   ref_page_pointer = page_pointer (es ! idx)\<rparr>]))"

definition decode_data_page_refs_from_ordinal_index ::
  "page_libs \<Rightarrow> byte list \<Rightarrow> page_pointer \<Rightarrow> bool option \<Rightarrow> nat \<Rightarrow> page_error + data_page_ref list" where
  "decode_data_page_refs_from_ordinal_index libs segment_bytes root_page root_is_data_page tot =
     (case root_is_data_page of
        Some True \<Rightarrow>
          Inr [\<lparr>ref_first_ordinal = 0, ref_num_values = tot, ref_page_pointer = root_page\<rparr>]
      | Some False \<Rightarrow>
          (case decode_leaf_entries_from_index_tree libs segment_bytes root_page 0 of
             Inl e \<Rightarrow> Inl e
           | Inr es \<Rightarrow>
               if es = [] then Inl (ZeroCount ''ordinal index entries'')
               else case for_each (push_page_ref tot es) [0..<length es] [] of
                      (Some e, _) \<Rightarrow> Inl e
                    | (None, refs) \<Rightarrow> Inr refs)
      | None \<Rightarrow> Inl (MissingPart ''ordinal_index_root_is_data_page''))"

record indexed_column_meta =
  im_data_type :: "int option"
  im_encoding :: "int option"
  im_num_values :: "int option"
  im_root_page :: "page_pointer option"
  im_root_is_data_page :: "bool option"
  im_compression :: "int option"
  im_size :: "nat option"

definition read_indexed_page ::
  "page_libs \<Rightarrow> byte list \<Rightarrow> int \<Rightarrow> int \<Rightarrow> data_page_ref \<Rightarrow> page_error + byte list list" where
  "read_indexed_page libs segment_bytes compression encoding r =
     (case slice_page_bytes segment_bytes (pp_offset (ref_page_pointer r)) (pp_size (ref_page_pointer r)) of
        Inl e \<Rightarrow> Inl e
      | Inr page_bytes \<Rightarrow>
          (case decode_data_page_values libs page_bytes compression encoding Binary None (Some False) None of
             Inl e \<Rightarrow> Inl e
           | Inr decoded \<Rightarrow>
               if num_values decoded \<noteq> ref_num_values r
               then Inl (SizeMismatch ''indexed column page'' (ref_num_values r) (num_values decoded))
               else (case payload decoded of
                       Variable vals \<Rightarrow> Inr vals
                     | Fixed _ _ \<Rightarrow> Inl (Unsupported ''indexed column payload'' 0))))"

definition decode_indexed_binary_values ::
  "page_libs \<Rightarrow> byte list \<Rightarrow> indexed_column_meta \<Rightarrow> page_error + byte list list" where
  "decode_indexed_binary_values libs segment_bytes meta =
     (case im_encoding meta of
        None \<Rightarrow> Inl (MissingPart ''encoding'')
      | Some encoding \<Rightarrow>
          let compression = (case im_compression meta of None \<Rightarrow> COMPRESSION_NO_COMPRESSION | Some c \<Rightarrow> c) in
          case im_num_values meta of
            None \<Rightarrow> Inl (MissingPart ''num_values'')
          | Some n \<Rightarrow>
              if n < 0 then Inl (Unsupported ''num_values'' n)
              else case im_root_page meta of
                None \<Rightarrow> Inl (MissingPart ''ordinal index root page'')
              | Some root \<Rightarrow>
                  (case decode_data_page_refs_from_ordinal_index libs segment_bytes root
                          (im_root_is_data_page meta) (nat n) of
                     Inl e \<Rightarrow> Inl e
                   | Inr refs \<Rightarrow>
                       (case collect_results (read_indexed_page libs segment_bytes compression encoding) refs of
                          Inl e \<Rightarrow> Inl e
                        | Inr out \<Rightarrow>
                            if length out \<noteq> nat n
                            then Inl (SizeMismatch ''indexed column'' (nat n) (length out))
                            else Inr out)))"

subsection \<open>Varint round trips\<close>

lemma ucast_or_80:
  fixes v :: "32 word"
  shows "(ucast v OR 0x80 :: byte) = of_nat (128 + unat v mod 128)"
proof (rule bit_word_eqI)
  fix n assume "n < LENGTH(8)"
  then have "n < 8" by simp
  have b: "bit (of_nat (unat v mod 2 ^ 7 + 2 ^ 7 * 1) :: byte) n \<longleftrightarrow> n < 8 \<and> bit (unat v mod 2 ^ 7 + 2 ^ 7 * 1) n"
    by (simp add: bit_of_nat_iff del: of_nat_add)
  have s: "bit (unat v mod 2 ^ 7 + 2 ^ 7 * 1) n \<longleftrightarrow> (if n < 7 then bit (unat v mod 2 ^ 7) n else bit (1 :: nat) (n - 7))"
    by (rule bit_split) simp
  have m: "bit (unat v mod 2 ^ 7) n \<longleftrightarrow> n < 7 \<and> bit v n"
    unfolding take_bit_eq_mod [symmetric] by (auto simp: bit_take_bit_iff bit_unsigned_iff)
  have "(0x80 :: byte) = 2 ^ 7" by simp
  then have e: "bit (0x80 :: byte) n \<longleftrightarrow> n = 7" using \<open>n < 8\<close> by (simp only: bit_exp_iff) auto
  have one: "bit (1 :: nat) (n - 7) \<longleftrightarrow> n \<le> 7" by (simp only: bit_1_iff) simp
  have "(128 + unat v mod 128) = unat v mod 2 ^ 7 + 2 ^ 7 * 1" by simp
  then have "bit (of_nat (128 + unat v mod 128) :: byte) n \<longleftrightarrow> n < 8 \<and> (if n < 7 then n < 7 \<and> bit v n else n \<le> 7)"
    by (simp only: b s m one)
  with \<open>n < 8\<close> show "bit (ucast v OR 0x80 :: byte) n = bit (of_nat (128 + unat v mod 128) :: byte) n"
    by (simp only: bit_or_iff e bit_ucast_iff) auto
qed

lemma unat_drop_bit_7: "unat (drop_bit 7 (v :: 32 word)) = unat v div 128"
  using drop_bit_eq_div [of 7 "unat v"] by (simp only: unat_drop_bit_eq) simp

lemma append_varint_vlq: "append_varint_u32 out v = out @ vlq_bytes (unat v)"
proof (induction out v rule: append_varint_u32.induct)
  case (1 out v)
  show ?case
  proof (cases "0x80 \<le> v")
    case True
    then have "\<not> unat v < 128" by (simp add: word_le_nat_alt)
    with True 1 show ?thesis
      by (simp add: append_varint_u32.simps [of out v] vlq_bytes.simps [of "unat v"] unat_drop_bit_7
          ucast_or_80 del: of_nat_add)
  next
    case False
    then have "unat v < 128" by (simp add: word_le_nat_alt)
    moreover have "ucast v = (of_nat (unat v) :: byte)" by simp
    ultimately show ?thesis using False
      by (simp add: append_varint_u32.simps [of out v] vlq_bytes.simps [of "unat v"])
  qed
qed

lemma vlq_byte_bits_64:
  assumes "m < 128"
  shows "(ucast ((of_nat m :: byte) AND 0x7F) :: 64 word) = of_nat m"
    "(ucast ((of_nat (128 + m) :: byte) AND 0x7F) :: 64 word) = of_nat m"
proof -
  have "\<forall>m \<in> set [0..<128]. (ucast ((of_nat m :: byte) AND 0x7F) :: 64 word) = of_nat m \<and>
    (ucast ((of_nat (128 + m) :: byte) AND 0x7F) :: 64 word) = of_nat m"
    by code_simp
  with assms show "(ucast ((of_nat m :: byte) AND 0x7F) :: 64 word) = of_nat m"
    "(ucast ((of_nat (128 + m) :: byte) AND 0x7F) :: 64 word) = of_nat m"
    by (auto simp del: of_nat_add)
qed

lemma decode_varint_loop_encoded:
  assumes "length (vlq_bytes n) + i \<le> 10" and "a < 2 ^ (7 * i)"
  shows "decode_varint_loop (pre @ vlq_bytes n @ post) (length pre) (7 * i) (of_nat a) =
    (Some (of_nat (a + 2 ^ (7 * i) * n)), length pre + length (vlq_bytes n))"
  using assms
proof (induction n arbitrary: i a pre rule: vlq_bytes.induct)
  case (1 n)
  show ?case
  proof (cases "n < 128")
    case True
    then have "i < 10" using "1.prems"(1) by (simp add: vlq_bytes.simps [of n])
    with True or_push_bit_of_nat [OF "1.prems"(2)] show ?thesis
      by (simp add: vlq_byte_bits(2) vlq_byte_bits_64 vlq_bytes.simps [of n] nth_append
          decode_varint_loop.simps [of _ _ _ "of_nat a"] del: of_nat_add of_nat_mult)
  next
    case False
    let ?b = "of_nat (128 + n mod 128) :: byte" and ?a = "a + 2 ^ (7 * i) * (n mod 128)"
    have vlq: "vlq_bytes n = ?b # vlq_bytes (n div 128)" using False by (simp add: vlq_bytes.simps [of n])
    have len: "length (vlq_bytes (n div 128)) + Suc i \<le> 10" using "1.prems"(1) by (simp add: vlq)
    have "2 ^ (7 * i) * (n mod 128) \<le> 2 ^ (7 * i) * 127"
      using mod_less_divisor [of 128 n] by (intro mult_le_mono2) simp
    then have "?a < 128 * 2 ^ (7 * i)" using "1.prems"(2) by linarith
    then have "?a < 2 ^ (7 * Suc i)" by (simp add: power_add)
    from "1.IH" [OF False len this, of "pre @ [?b]"]
    have ih: "decode_varint_loop (pre @ vlq_bytes n @ post) (length pre + 1) (7 * i + 7) (of_nat ?a) =
      (Some (of_nat (?a + 2 ^ (7 * Suc i) * (n div 128))), length pre + length (vlq_bytes n))"
      by (simp add: vlq add.commute del: of_nat_add of_nat_mult)
    have "2 ^ (7 * Suc i) * (n div 128) = 2 ^ (7 * i) * (128 * (n div 128))" by (simp add: power_add)
    then have "?a + 2 ^ (7 * Suc i) * (n div 128) = a + 2 ^ (7 * i) * (n mod 128 + 128 * (n div 128))"
      by (simp only: distrib_left add.assoc)
    then have eq: "?a + 2 ^ (7 * Suc i) * (n div 128) = a + 2 ^ (7 * i) * n" by (simp only: mod_mult_div_eq)
    have nth: "(pre @ vlq_bytes n @ post) ! length pre = ?b" by (simp add: vlq del: of_nat_add)
    have bnd: "length pre < length (pre @ vlq_bytes n @ post) \<and> 7 * i < 64" using len by (simp add: vlq)
    have "decode_varint_loop (pre @ vlq_bytes n @ post) (length pre) (7 * i) (of_nat a) =
        decode_varint_loop (pre @ vlq_bytes n @ post) (length pre + 1) (7 * i + 7) (of_nat ?a)"
      using or_push_bit_of_nat [OF "1.prems"(2), of "n mod 128", where 'a = 64]
        vlq_byte_bits(4) [of "n mod 128"] vlq_byte_bits_64(2) [of "n mod 128"]
      by (subst decode_varint_loop.simps) (simp only: nth bnd Let_def simp_thms if_True if_False mod_less_divisor zero_less_numeral)
    then show ?thesis by (simp only: ih eq)
  qed
qed

lemma decode_varint64_encoded:
  assumes "n < 2 ^ 64"
  shows "decode_varint64 (pre @ vlq_bytes n @ post) (length pre) =
    (Some n, length pre + length (vlq_bytes n))"
proof -
  have "length (vlq_bytes n) \<le> 10" using assms by (intro length_vlq_bytes) simp_all
  then have "decode_varint_loop (pre @ vlq_bytes n @ post) (length pre) (7 * 0) (of_nat 0) =
    (Some (of_nat (0 + 2 ^ (7 * 0) * n)), length pre + length (vlq_bytes n))"
    by (intro decode_varint_loop_encoded) simp_all
  with assms show ?thesis by (simp add: decode_varint64_def unat_of_nat)
qed

lemma decode_varint32_encoded:
  assumes "n < 2 ^ 32"
  shows "decode_varint32 (pre @ vlq_bytes n @ post) (length pre) =
    (Some n, length pre + length (vlq_bytes n))"
  using assms decode_varint64_encoded [of n pre post]
  by (simp add: decode_varint32_def u32_try_from_def u32_limit_def)

text \<open>
  (C17) What the segment writer appends as a varint, the index page reader takes back: the same
  32-bit value, with the offset right after its last byte, whatever surrounds it.
\<close>

theorem varint_roundtrip:
  "decode_varint32 (append_varint_u32 pre v @ post) (length pre) =
     (Some (unat v), length (append_varint_u32 pre v))"
proof -
  have "unat v < 2 ^ 32" by (rule order_less_le_trans [OF unsigned_less]) simp
  from decode_varint32_encoded [OF this, of pre post] show ?thesis by (simp add: append_varint_vlq)
qed

subsection \<open>Index page round trip\<close>

text \<open>The documented layout of an entry: key length, key, page offset, page size.\<close>

definition entry_bytes :: "index_page_entry \<Rightarrow> byte list" where
  "entry_bytes x = vlq_bytes (length (entry_key x)) @ entry_key x @
     vlq_bytes (pp_offset (page_pointer x)) @ vlq_bytes (pp_size (page_pointer x))"

definition entry_ok :: "index_page_entry \<Rightarrow> bool" where
  "entry_ok x \<longleftrightarrow> length (entry_key x) < 2 ^ 32 \<and> pp_offset (page_pointer x) < 2 ^ 64 \<and>
     pp_size (page_pointer x) < 2 ^ 32"

lemma decode_index_entry_encoded:
  assumes "entry_ok x" and "body = pre @ entry_bytes x @ post" and "length body < usize_limit"
  shows "decode_index_entry body (length pre) = Inr (x, length pre + length (entry_bytes x))"
proof -
  let ?k = "vlq_bytes (length (entry_key x))" and ?p = "vlq_bytes (pp_offset (page_pointer x))"
    and ?s = "vlq_bytes (pp_size (page_pointer x))"
  have 1: "decode_varint32 body (length pre) = (Some (length (entry_key x)), length (pre @ ?k))"
    using assms(1) decode_varint32_encoded [of "length (entry_key x)" pre "entry_key x @ ?p @ ?s @ post"]
    by (simp add: assms(2) entry_bytes_def entry_ok_def)
  have 2: "decode_varint64 body (length (pre @ ?k) + length (entry_key x)) =
      (Some (pp_offset (page_pointer x)), length (pre @ ?k @ entry_key x @ ?p))"
    using assms(1) decode_varint64_encoded [of "pp_offset (page_pointer x)" "pre @ ?k @ entry_key x" "?s @ post"]
    by (simp add: assms(2) entry_bytes_def entry_ok_def add.assoc)
  have 3: "decode_varint32 body (length (pre @ ?k @ entry_key x @ ?p)) =
      (Some (pp_size (page_pointer x)), length pre + length (entry_bytes x))"
    using assms(1) decode_varint32_encoded [of "pp_size (page_pointer x)" "pre @ ?k @ entry_key x @ ?p" post]
    by (simp add: assms(2) entry_bytes_def entry_ok_def add.assoc)
  have len: "length (pre @ ?k) + length (entry_key x) \<le> length body" by (simp add: assms(2) entry_bytes_def)
  have "subslice (length (pre @ ?k)) (length (pre @ ?k) + length (entry_key x)) body = entry_key x"
    using subslice_middle [of _ "pre @ ?k" _ "entry_key x" "?p @ ?s @ post"] by (simp add: assms(2) entry_bytes_def)
  with len assms(3) show ?thesis
    by (simp add: decode_index_entry_def 1 2 3 checked_add_usize_def del: length_append)
qed

lemma decode_index_entries_encoded:
  assumes "\<forall>x \<in> set es. entry_ok x" and "body = pre @ concat (map entry_bytes es)"
    and "length body < usize_limit"
  shows "decode_index_entries body (length es) (length pre) = Inr es"
  using assms
proof (induction es arbitrary: pre)
  case (Cons x es)
  have "decode_index_entries body (length es) (length (pre @ entry_bytes x)) = Inr es"
    by (rule Cons.IH) (use Cons.prems in simp_all)
  moreover have "decode_index_entry body (length pre) = Inr (x, length pre + length (entry_bytes x))"
    by (rule decode_index_entry_encoded [where post = "concat (map entry_bytes es)"]) (use Cons.prems in simp_all)
  ultimately show ?case by simp
qed simp

definition index_footer_of :: "nat \<Rightarrow> index_page_node_type \<Rightarrow> index_page_footer" where
  "index_footer_of n ty = \<lparr>num_entries = Some n, if_type = Some (case ty of Leaf \<Rightarrow> 1 | Internal \<Rightarrow> 2)\<rparr>"

lemma decode_encoded_index_page:
  assumes "decode_page_envelope libs page COMPRESSION_NO_COMPRESSION =
      Inr (footer, concat (map entry_bytes es))"
    and "page_type footer = Some PAGE_TYPE_INDEX"
    and "index_footer footer = Some (index_footer_of (length es) ty)"
    and "\<forall>x \<in> set es. entry_ok x" and "length (concat (map entry_bytes es)) < 2 ^ 64"
  shows "decode_index_page libs page = Inr \<lparr>node_type = ty, entries = es\<rparr>"
proof -
  have "decode_index_entries (concat (map entry_bytes es)) (length es) (length []) = Inr es"
    using decode_index_entries_encoded [of es _ "[]"] assms(4,5) by (simp add: usize_limit_def)
  with assms(1-3) show ?thesis by (cases ty) (simp_all add: decode_index_page_def index_footer_of_def)
qed

text \<open>
  (C16) An index page laid out as the format documents it (key length, key, page offset and page
  size of every entry as varints) is decoded to exactly its entries and its node type.
\<close>

theorem index_page_roundtrip:
  assumes "decode_page_envelope libs page COMPRESSION_NO_COMPRESSION =
      Inr (footer, concat (map entry_bytes es))"
    and "page_type footer = Some PAGE_TYPE_INDEX"
    and "index_footer footer = Some (index_footer_of (length es) ty)"
    and "\<forall>x \<in> set es. entry_ok x" and "length (concat (map entry_bytes es)) < 2 ^ 64"
  shows "decode_index_page libs page = Inr \<lparr>node_type = ty, entries = es\<rparr>"
  by (rule decode_encoded_index_page [OF assms])

text \<open>A leaf page with two entries, and a library that knows its footer.\<close>

definition example_entries :: "index_page_entry list" where
  "example_entries =
     [\<lparr>entry_key = be_bytes 8 0, page_pointer = \<lparr>pp_offset = 300, pp_size = 40\<rparr>\<rparr>,
      \<lparr>entry_key = be_bytes 8 3, page_pointer = \<lparr>pp_offset = 340, pp_size = 60\<rparr>\<rparr>]"

definition example_footer :: page_footer where
  "example_footer = \<lparr>page_type = Some PAGE_TYPE_INDEX,
     uncompressed_size = Some (length (concat (map entry_bytes example_entries))), data_footer = None,
     index_footer = Some (index_footer_of 2 Leaf)\<rparr>"

definition index_libs :: page_libs where
  "index_libs = plain_libs\<lparr>footer_decode := (\<lambda>bs. Some example_footer), footer_encode := (\<lambda>f. [])\<rparr>"

definition example_index_page :: "byte list" where
  "example_index_page = concat (map entry_bytes example_entries) @ le_bytes 4 0 @ le_bytes 4 0"

lemma example_entries_ok:
  "\<forall>x \<in> set example_entries. entry_ok x" "length (concat (map entry_bytes example_entries)) = 24"
  "length example_entries = 2"
  by (simp_all add: example_entries_def entry_ok_def entry_bytes_def vlq_bytes.simps)

lemma example_envelope:
  "decode_page_envelope index_libs example_index_page COMPRESSION_NO_COMPRESSION =
     Inr (example_footer, concat (map entry_bytes example_entries))"
proof (rule decode_encoded_envelope)
  show "encode_page_with_footer index_libs (concat (map entry_bytes example_entries)) (data_page_footer_of 0 0 0) =
    Inr example_index_page"
    by (simp add: encode_page_with_footer_def index_libs_def plain_libs_def example_index_page_def
        u32_try_from_def u32_limit_def)
  show "concat (map entry_bytes example_entries) \<noteq> []"
    using example_entries_ok(2) by force
qed (simp_all add: index_libs_def example_footer_def)

lemma example_index_footer:
  "page_type example_footer = Some PAGE_TYPE_INDEX"
  "index_footer example_footer = Some (index_footer_of (length example_entries) Leaf)"
  "length (concat (map entry_bytes example_entries)) < 2 ^ 64"
  by (simp_all add: example_footer_def example_entries_ok(2,3))

theorem index_page_roundtrip_witness:
  "decode_index_page index_libs example_index_page = Inr \<lparr>node_type = Leaf, entries = example_entries\<rparr>"
  by (rule index_page_roundtrip [OF example_envelope example_index_footer(1,2) example_entries_ok(1) example_index_footer(3)])

subsection \<open>The index tree\<close>

datatype index_tree =
    TLeaf "index_page_entry list"
  | TNode "(index_page_entry \<times> index_tree) list"

fun tree_leaves :: "index_tree \<Rightarrow> index_page_entry list" where
  "tree_leaves (TLeaf es) = es"
| "tree_leaves (TNode cs) = concat (map (\<lambda>(x, t). tree_leaves t) cs)"

fun tree_height :: "index_tree \<Rightarrow> nat" where
  "tree_height (TLeaf es) = 0"
| "tree_height (TNode cs) = foldr max (map (\<lambda>(x, t). Suc (tree_height t)) cs) 0"

text \<open>The segment holds the tree at a page pointer.\<close>

inductive stores :: "page_libs \<Rightarrow> byte list \<Rightarrow> page_pointer \<Rightarrow> index_tree \<Rightarrow> bool"
  for libs segment_bytes where
  stores_leaf:
    "slice_page_bytes segment_bytes (pp_offset ptr) (pp_size ptr) = Inr page_bytes \<Longrightarrow>
     decode_index_page libs page_bytes = Inr \<lparr>node_type = Leaf, entries = es\<rparr> \<Longrightarrow>
     stores libs segment_bytes ptr (TLeaf es)"
| stores_node:
    "slice_page_bytes segment_bytes (pp_offset ptr) (pp_size ptr) = Inr page_bytes \<Longrightarrow>
     decode_index_page libs page_bytes = Inr \<lparr>node_type = Internal, entries = map fst cs\<rparr> \<Longrightarrow>
     \<forall>(x, t) \<in> set cs. stores libs segment_bytes (page_pointer x) t \<Longrightarrow>
     stores libs segment_bytes ptr (TNode cs)"

lemma foldr_max_le: "foldr max ns (0 :: nat) \<le> k \<longleftrightarrow> (\<forall>n \<in> set ns. n \<le> k)"
  by (induction ns) auto

lemma collect_results_map:
  "(\<And>x. x \<in> set xs \<Longrightarrow> f (g x) = Inr (h x)) \<Longrightarrow> collect_results f (map g xs) = Inr (concat (map h xs))"
  by (induction xs) auto

lemma map_sum_eq_Inr: "map_sum id f r = Inr y \<longleftrightarrow> (\<exists>x. r = Inr x \<and> y = f x)"
  by (cases r) auto

lemma collect_results_Inr:
  "collect_results f xs = Inr ys \<Longrightarrow> (\<forall>x \<in> set xs. \<exists>zs. f x = Inr zs) \<and> ys = concat (map (projr \<circ> f) xs)"
  by (induction xs arbitrary: ys) (auto split: sum.splits simp: map_sum_eq_Inr)

lemma stores_decodes:
  assumes "stores libs seg ptr t" and "depth + tree_height t \<le> MAX_INDEX_TREE_DEPTH"
  shows "decode_leaf_entries_from_index_tree libs seg ptr depth = Inr (tree_leaves t)"
  using assms
proof (induction arbitrary: depth rule: stores.induct)
  case (stores_leaf ptr page_bytes es)
  then show ?case by (simp add: decode_leaf_entries_from_index_tree.simps [of _ _ ptr])
next
  case (stores_node ptr page_bytes cs)
  have "decode_leaf_entries_from_index_tree libs seg (page_pointer (fst c)) (depth + 1) = Inr (tree_leaves (snd c))"
    if "c \<in> set cs" for c
  proof -
    have "Suc (tree_height (snd c)) \<le> MAX_INDEX_TREE_DEPTH - depth"
    proof -
      have "foldr max (map (\<lambda>(x, t). Suc (tree_height t)) cs) 0 \<le> MAX_INDEX_TREE_DEPTH - depth"
        using stores_node.prems by simp
      then show ?thesis using that by (force simp: foldr_max_le case_prod_beta)
    qed
    with that stores_node.IH show ?thesis by (auto split: prod.splits)
  qed
  then have "collect_results (\<lambda>x. decode_leaf_entries_from_index_tree libs seg (page_pointer x) (depth + 1)) (map fst cs) =
      Inr (concat (map (\<lambda>(x, t). tree_leaves t) cs))"
    by (intro collect_results_map) (simp add: case_prod_beta)
  with stores_node show ?case
    by (simp add: decode_leaf_entries_from_index_tree.simps [of _ _ ptr])
qed

lemma decodes_stores:
  assumes "decode_leaf_entries_from_index_tree libs seg ptr depth = Inr es"
  shows "\<exists>t. stores libs seg ptr t \<and> depth + tree_height t \<le> MAX_INDEX_TREE_DEPTH \<and> tree_leaves t = es"
  using assms
proof (induction "Suc MAX_INDEX_TREE_DEPTH - depth" arbitrary: ptr depth es rule: less_induct)
  case less
  let ?f = "\<lambda>x. decode_leaf_entries_from_index_tree libs seg (page_pointer x) (depth + 1)"
  obtain page_bytes d where d: "depth \<le> MAX_INDEX_TREE_DEPTH"
    "slice_page_bytes seg (pp_offset ptr) (pp_size ptr) = Inr page_bytes" "decode_index_page libs page_bytes = Inr d"
    "(case node_type d of Leaf \<Rightarrow> Inr (entries d) | Internal \<Rightarrow> collect_results ?f (entries d)) = Inr es"
    using less.prems by (auto simp: decode_leaf_entries_from_index_tree.simps [of _ _ ptr] split: if_splits sum.splits)
  show ?case
  proof (cases "node_type d")
    case Leaf
    then have "stores libs seg ptr (TLeaf es)" using d by (cases d) (auto intro: stores_leaf)
    then show ?thesis using d(1) by (intro exI [of _ "TLeaf es"]) simp
  next
    case Internal
    with d collect_results_Inr [of ?f "entries d" es]
    have ok: "\<forall>x \<in> set (entries d). \<exists>zs. ?f x = Inr zs" "es = concat (map (projr \<circ> ?f) (entries d))" by auto
    have "\<forall>x \<in> set (entries d). \<exists>t. stores libs seg (page_pointer x) t \<and>
        depth + 1 + tree_height t \<le> MAX_INDEX_TREE_DEPTH \<and> tree_leaves t = projr (?f x)"
      using ok(1) less.hyps [of "depth + 1"] d(1) by fastforce
    then obtain T where T: "\<forall>x \<in> set (entries d). stores libs seg (page_pointer x) (T x) \<and>
        depth + 1 + tree_height (T x) \<le> MAX_INDEX_TREE_DEPTH \<and> tree_leaves (T x) = projr (?f x)" by metis
    let ?t = "TNode (map (\<lambda>x. (x, T x)) (entries d))"
    have "stores libs seg ptr ?t"
      by (rule stores_node [OF d(2)]) (use d(3) Internal T in \<open>cases d; auto simp: comp_def\<close>)+
    moreover have "tree_height ?t \<le> MAX_INDEX_TREE_DEPTH - depth"
      using T by (auto simp: foldr_max_le)
    moreover have "tree_leaves ?t = es" using T ok(2) by (simp add: comp_def cong: map_cong)
    ultimately show ?thesis using d(1) by (intro exI [of _ ?t]) auto
  qed
qed

text \<open>
  (C14) The walk over the ordinal index implements the abstract tree: it succeeds exactly when the
  segment stores a tree of height at most 16 at the root pointer, and then returns its leaf
  entries from left to right.
\<close>

theorem index_tree_refines:
  "decode_leaf_entries_from_index_tree libs segment_bytes root 0 = Inr es \<longleftrightarrow>
     (\<exists>t. stores libs segment_bytes root t \<and> tree_height t \<le> MAX_INDEX_TREE_DEPTH \<and> tree_leaves t = es)"
  using decodes_stores [of libs segment_bytes root 0 es] stores_decodes [of libs segment_bytes root _ 0] by auto

subsection \<open>Page references\<close>

text \<open>The references run from ordinal \<open>a\<close> to ordinal \<open>b\<close> without gap or overlap.\<close>

fun page_chain :: "nat \<Rightarrow> data_page_ref list \<Rightarrow> nat \<Rightarrow> bool" where
  "page_chain a [] b \<longleftrightarrow> a = b"
| "page_chain a (r # rs) b \<longleftrightarrow>
     ref_first_ordinal r = a \<and> 0 < ref_num_values r \<and> page_chain (a + ref_num_values r) rs b"

definition covers :: "data_page_ref \<Rightarrow> nat \<Rightarrow> bool" where
  "covers r k \<longleftrightarrow> ref_first_ordinal r \<le> k \<and> k < ref_first_ordinal r + ref_num_values r"

lemma page_chain_snoc:
  "page_chain a (rs @ [r]) b \<longleftrightarrow>
     (\<exists>c. page_chain a rs c \<and> ref_first_ordinal r = c \<and> 0 < ref_num_values r \<and> b = c + ref_num_values r)"
  by (induction rs arbitrary: a) auto

lemma page_chain_le: "page_chain a rs b \<Longrightarrow> a \<le> b"
  by (induction rs arbitrary: a) (auto dest: add_leD1)

lemma page_chain_sum: "page_chain a rs b \<Longrightarrow> a + sum_list (map ref_num_values rs) = b"
  by (induction rs arbitrary: a) (auto simp: add.assoc [symmetric])

lemma page_chain_covers:
  assumes "page_chain a rs b"
  shows "length (filter (\<lambda>r. covers r k) rs) = (if a \<le> k \<and> k < b then 1 else 0)"
  using assms
proof (induction rs arbitrary: a)
  case (Cons r rs)
  then have "a + ref_num_values r \<le> b" using page_chain_le by auto
  with Cons.prems Cons.IH [of "a + ref_num_values r"] show ?case by (auto simp: covers_def)
qed simp

text \<open>The first ordinal of the leaf entry at \<open>i\<close>, the total after the last one.\<close>

definition bound_at :: "nat \<Rightarrow> index_page_entry list \<Rightarrow> nat \<Rightarrow> nat" where
  "bound_at tot es i = (if i < length es then from_be (entry_key (es ! i)) else tot)"

lemma push_page_ref_ok:
  assumes "push_page_ref tot es i refs = (None, refs')" and "i < length es"
  shows "bound_at tot es i \<le> bound_at tot es (Suc i) \<and> bound_at tot es (Suc i) \<le> tot \<and>
    refs' = (if bound_at tot es (Suc i) = bound_at tot es i then refs
      else refs @ [\<lparr>ref_first_ordinal = bound_at tot es i,
        ref_num_values = bound_at tot es (Suc i) - bound_at tot es i, ref_page_pointer = page_pointer (es ! i)\<rparr>])"
  using assms
  by (auto simp: push_page_ref_def decode_unsigned_bigint_ordinal_key_def bound_at_def split: if_splits)

lemma push_page_refs_chain:
  assumes "for_each (push_page_ref tot es) [0..<length es] [] = (None, refs)"
  shows "page_chain (bound_at tot es 0) refs tot"
proof -
  have "page_chain (bound_at tot es 0) refs (bound_at tot es (length es))"
    by (rule for_each_upt_rule [OF assms, where P = "\<lambda>i rs. page_chain (bound_at tot es 0) rs (bound_at tot es i)"])
      (auto dest!: push_page_ref_ok simp: page_chain_snoc split: if_splits)
  then show ?thesis by (simp add: bound_at_def)
qed

lemma page_refs_chain:
  assumes "decode_data_page_refs_from_ordinal_index libs seg root is_data tot = Inr refs" and "0 < tot"
  shows "\<exists>a \<le> tot. page_chain a refs tot \<and>
    (is_data = Some True \<and> a = 0 \<or> is_data = Some False \<and> (\<exists>es. es \<noteq> [] \<and>
      decode_leaf_entries_from_index_tree libs seg root 0 = Inr es \<and> a = from_be (entry_key (hd es))))"
proof (cases "is_data = Some True")
  case True
  with assms show ?thesis by (auto simp: decode_data_page_refs_from_ordinal_index_def intro!: exI [of _ 0])
next
  case False
  then obtain es where es: "is_data = Some False" "es \<noteq> []"
    "decode_leaf_entries_from_index_tree libs seg root 0 = Inr es"
    "for_each (push_page_ref tot es) [0..<length es] [] = (None, refs)"
    using assms(1) by (auto simp: decode_data_page_refs_from_ordinal_index_def
        split: option.splits bool.splits sum.splits if_splits prod.splits)
  note chain = push_page_refs_chain [OF es(4)]
  have "bound_at tot es 0 = from_be (entry_key (hd es))" using es(2) by (simp add: bound_at_def hd_conv_nth)
  with es chain page_chain_le [OF chain] show ?thesis by auto
qed

definition example_root :: page_pointer where
  "example_root = \<lparr>pp_offset = 0, pp_size = 32\<rparr>"

lemma example_leaves:
  "decode_leaf_entries_from_index_tree index_libs example_index_page example_root 0 = Inr example_entries"
proof -
  have "length example_index_page = 32" by (simp add: example_index_page_def example_entries_ok(2))
  then have "slice_page_bytes example_index_page (pp_offset example_root) (pp_size example_root) = Inr example_index_page"
    by (simp add: slice_page_bytes_def checked_add_usize_def usize_limit_def example_root_def)
  moreover have "decode_index_page index_libs example_index_page = Inr \<lparr>node_type = Leaf, entries = example_entries\<rparr>"
    by (rule decode_encoded_index_page [OF example_envelope example_index_footer(1,2) example_entries_ok(1)
        example_index_footer(3)])
  ultimately show ?thesis by (simp add: decode_leaf_entries_from_index_tree.simps)
qed

lemma example_refs:
  "decode_data_page_refs_from_ordinal_index index_libs example_index_page example_root (Some False) 5 =
     Inr [\<lparr>ref_first_ordinal = 0, ref_num_values = 3, ref_page_pointer = \<lparr>pp_offset = 300, pp_size = 40\<rparr>\<rparr>,
       \<lparr>ref_first_ordinal = 3, ref_num_values = 2, ref_page_pointer = \<lparr>pp_offset = 340, pp_size = 60\<rparr>\<rparr>]"
  by (simp add: decode_data_page_refs_from_ordinal_index_def example_leaves push_page_ref_def example_entries_def
      decode_unsigned_bigint_ordinal_key_def from_be_def be_bytes_def from_le_le_bytes)

text \<open>
  (C13) When the ordinal index resolves, its page references cut the ordinals from the first leaf
  key up to the total into consecutive non-empty pages: every ordinal of that range lies in
  exactly one page, no other ordinal in any, and with a data page as root the range starts at 0.
\<close>

theorem page_refs_partition:
  assumes "decode_data_page_refs_from_ordinal_index libs segment_bytes root is_data tot = Inr refs"
    and "0 < tot"
  shows "\<exists>a \<le> tot. page_chain a refs tot \<and>
    (\<forall>k. length (filter (\<lambda>r. covers r k) refs) = (if a \<le> k \<and> k < tot then 1 else 0)) \<and>
    (is_data = Some True \<and> a = 0 \<or> is_data = Some False \<and> (\<exists>es. es \<noteq> [] \<and>
      decode_leaf_entries_from_index_tree libs segment_bytes root 0 = Inr es \<and> a = from_be (entry_key (hd es))))"
proof -
  obtain a where a: "a \<le> tot" "page_chain a refs tot"
    "is_data = Some True \<and> a = 0 \<or> is_data = Some False \<and> (\<exists>es. es \<noteq> [] \<and>
      decode_leaf_entries_from_index_tree libs segment_bytes root 0 = Inr es \<and> a = from_be (entry_key (hd es)))"
    using page_refs_chain [OF assms] by blast
  with page_chain_covers [OF a(2)] show ?thesis by (intro exI [of _ a]) blast
qed

theorem page_refs_partition_witness:
  "\<exists>refs. decode_data_page_refs_from_ordinal_index index_libs example_index_page example_root (Some False) 5 =
     Inr refs \<and> length refs = 2 \<and> page_chain 0 refs 5"
proof -
  have "from_be (entry_key (hd example_entries)) = 0"
    by (simp add: example_entries_def from_be_def be_bytes_def from_le_le_bytes)
  with page_refs_partition [OF example_refs] example_leaves example_refs show ?thesis by auto
qed

lemma slice_values_length:
  assumes "for_each (slice_value body pos n) [0..<n] [] = (None, vals)"
  shows "length vals = n"
  by (rule for_each_upt_rule [OF assms, where P = "\<lambda>i vs. length vs = i"])
    (auto simp: slice_value_def Let_def split: if_splits)

lemma dict_lookups_length:
  assumes "for_each (dict_lookup dict codes) [0..<n] [] = (None, vals)"
  shows "length vals = n"
  by (rule for_each_upt_rule [OF assms, where P = "\<lambda>i vs. length vs = i"])
    (auto simp: dict_lookup_def Let_def split: if_splits)

lemma binary_plain_length: "decode_binary_plain_values body (Some n) = Inr vals \<Longrightarrow> length vals = n"
  by (auto simp: decode_binary_plain_values_def Let_def dest!: slice_values_length
      split: if_splits option.splits prod.splits)

lemma binary_dict_length: "decode_binary_dict_values libs body n dict = Inr vals \<Longrightarrow> length vals = n"
  by (auto simp: decode_binary_dict_values_def Let_def dest!: dict_lookups_length binary_plain_length
      split: if_splits option.splits prod.splits sum.splits)

lemma decode_variable_length:
  assumes "decode_data_page_values libs page c e kind es nullable dict = Inr p" and "payload p = Variable vals"
  shows "length vals = num_values p"
proof -
  obtain body n where "decode_page_payload libs body n e kind es dict = Inr (Variable vals)" "num_values p = n"
    using assms by (auto simp: decode_data_page_values_def Let_def
        split: sum.splits prod.splits if_splits option.splits)
  then show ?thesis
    by (auto simp: decode_page_payload_def map_sum_eq_Inr dest: binary_plain_length binary_dict_length
        split: if_splits sum.splits prod.splits option.splits)
qed

lemma read_indexed_page_length:
  "read_indexed_page libs seg c e r = Inr vals \<Longrightarrow> length vals = ref_num_values r"
  by (auto simp: read_indexed_page_def dest: decode_variable_length split: sum.splits if_splits page_payload.splits)

lemma collect_results_length:
  assumes "collect_results f rs = Inr out" and "\<And>r vs. f r = Inr vs \<Longrightarrow> length vs = n r"
  shows "length out = sum_list (map n rs)"
  using assms(1)
  by (induction rs arbitrary: out) (auto simp: map_sum_eq_Inr assms(2) split: sum.splits)

text \<open>
  (C15) An indexed column that decodes has no hole: its page references cover every ordinal from 0
  to the declared number of values, and the result is the values of those pages in ordinal
  order, one per ordinal. The ordinal index alone does not check that its first key is 0.
\<close>

theorem indexed_values_complete:
  assumes "decode_indexed_binary_values libs segment_bytes meta = Inr out" and "im_num_values meta = Some n" and "0 < n"
  shows "\<exists>root encoding refs. im_root_page meta = Some root \<and> im_encoding meta = Some encoding \<and>
    decode_data_page_refs_from_ordinal_index libs segment_bytes root (im_root_is_data_page meta) (nat n) = Inr refs \<and>
    page_chain 0 refs (nat n) \<and> length out = nat n \<and>
    out = concat (map (projr \<circ> read_indexed_page libs segment_bytes
      (case im_compression meta of None \<Rightarrow> COMPRESSION_NO_COMPRESSION | Some c \<Rightarrow> c) encoding) refs)"
proof -
  let ?c = "case im_compression meta of None \<Rightarrow> COMPRESSION_NO_COMPRESSION | Some c \<Rightarrow> c"
  obtain root encoding refs where d: "im_root_page meta = Some root" "im_encoding meta = Some encoding"
    "decode_data_page_refs_from_ordinal_index libs segment_bytes root (im_root_is_data_page meta) (nat n) = Inr refs"
    "collect_results (read_indexed_page libs segment_bytes ?c encoding) refs = Inr out" "length out = nat n"
    using assms by (auto simp: decode_indexed_binary_values_def Let_def split: option.splits sum.splits if_splits)
  then obtain a where a: "page_chain a refs (nat n)" using page_refs_chain assms(3) by (metis zero_less_nat_eq)
  have "length out = sum_list (map ref_num_values refs)"
    using d(4) read_indexed_page_length by (rule collect_results_length)
  then have "a = 0" using page_chain_sum [OF a] d(5) by simp
  with a d collect_results_Inr [OF d(4)] show ?thesis by auto
qed

text \<open>A segment of one plain data page.\<close>

definition example_indexed_meta :: "nat \<Rightarrow> indexed_column_meta" where
  "example_indexed_meta sz = \<lparr>im_data_type = None, im_encoding = Some ENCODING_PLAIN, im_num_values = Some 3,
     im_root_page = Some \<lparr>pp_offset = 0, pp_size = sz\<rparr>, im_root_is_data_page = Some True,
     im_compression = None, im_size = None\<rparr>"

lemma example_indexed_column:
  assumes "encode_plain_binary_data_page plain_libs [[1], [], [2, 3]] None = Inr page" and "length page < 2 ^ 32"
  shows "decode_indexed_binary_values plain_libs page (example_indexed_meta (length page)) = Inr [[1], [], [2, 3]]"
proof -
  have "decode_data_page_values plain_libs page COMPRESSION_NO_COMPRESSION ENCODING_PLAIN Binary None (Some False) None =
    Inr \<lparr>payload = Variable [[1], [], [2, 3]], num_values = length [[1], [], [2, 3 :: byte]], null_flags = None\<rparr>"
    by (rule decode_encoded_binary_page [OF plain_libs_laws assms(1)]) (simp_all add: is_variable_len_def)
  then have "read_indexed_page plain_libs page COMPRESSION_NO_COMPRESSION ENCODING_PLAIN
      \<lparr>ref_first_ordinal = 0, ref_num_values = 3, ref_page_pointer = \<lparr>pp_offset = 0, pp_size = length page\<rparr>\<rparr> =
    Inr [[1], [], [2, 3]]"
    using assms(2) by (simp add: read_indexed_page_def slice_page_bytes_def checked_add_usize_def usize_limit_def)
  then show ?thesis
    by (simp add: decode_indexed_binary_values_def example_indexed_meta_def decode_data_page_refs_from_ordinal_index_def)
qed

theorem indexed_values_complete_witness:
  "\<exists>page refs. encode_plain_binary_data_page plain_libs [[1], [], [2, 3]] None = Inr page \<and>
     decode_indexed_binary_values plain_libs page (example_indexed_meta (length page)) = Inr [[1], [], [2, 3]] \<and>
     decode_data_page_refs_from_ordinal_index plain_libs page \<lparr>pp_offset = 0, pp_size = length page\<rparr> (Some True) 3 =
       Inr refs \<and> page_chain 0 refs 3"
proof -
  obtain page where page: "encode_plain_binary_data_page plain_libs [[1], [], [2, 3]] None = Inr page"
    "length page < 2 ^ 32"
    by (simp add: encode_plain_binary_data_page_def push_binary_value_def encode_plain_data_page_body_def
      encode_page_with_footer_def u32_try_from_def u32_limit_def plain_libs_def data_page_footer_of_def Let_def)
  note col = example_indexed_column [OF this]
  show ?thesis
    using indexed_values_complete [OF col, of 3] col page(1) by (auto simp: example_indexed_meta_def)
qed

end
