(* ===== verification/Segment_Footer.thy ===== *)
theory Segment_Footer
  imports Index_Page
begin

text \<open>
  The footer of a segment file: \<open>decode_segment_footer\<close> and \<open>to_column_meta\<close> of
  \<open>src/src/formats/starrocks/segment.rs\<close> and the trailer that \<open>build_starrocks_native_segment_bytes\<close>
  of \<open>.../writer/segment_data.rs\<close> appends. The protobuf decoder and CRC32C are library code.
\<close>

subsection \<open>The protobuf view\<close>

record page_pointer_pb =
  ppb_offset :: "nat option"
  ppb_size :: "nat option"

record btree_meta_pb =
  btm_root_page :: "page_pointer_pb option"
  btm_is_root_data_page :: "bool option"

record zone_map_pb =
  zmp_min :: "byte list option"
  zmp_max :: "byte list option"
  zmp_has_null :: "bool option"
  zmp_has_not_null :: "bool option"

record indexed_column_meta_pb =
  icp_data_type :: "int option"
  icp_encoding :: "int option"
  icp_num_values :: "int option"
  icp_ordinal_index_meta :: "btree_meta_pb option"
  icp_compression :: "int option"
  icp_size :: "nat option"

record zone_map_index_pb =
  zip_segment_zone_map :: "zone_map_pb option"
  zip_page_zone_maps :: "indexed_column_meta_pb option"

record bloom_filter_index_pb =
  bfp_hash_strategy :: "int option"
  bfp_algorithm :: "int option"
  bfp_bloom_filter :: "indexed_column_meta_pb option"

text \<open>\<open>OrdinalIndexPbLite\<close> is a message with one optional field, its root page.\<close>

record column_index_meta_pb =
  cip_type :: "int option"
  cip_ordinal_index :: "btree_meta_pb option option"
  cip_zone_map_index :: "zone_map_index_pb option"
  cip_bloom_filter_index :: "bloom_filter_index_pb option"

record column_fields_pb =
  cfp_column_id :: "nat option"
  cfp_unique_id :: "nat option"
  cfp_type :: "int option"
  cfp_encoding :: "int option"
  cfp_compression :: "int option"
  cfp_is_nullable :: "bool option"
  cfp_indexes :: "column_index_meta_pb list"
  cfp_dict_page :: "page_pointer_pb option"
  cfp_num_rows :: "nat option"

datatype column_meta_pb = ColumnMetaPb column_fields_pb "column_meta_pb list"

record segment_footer_pb =
  sfp_version :: "nat option"
  sfp_columns :: "column_meta_pb list"
  sfp_num_rows :: "nat option"

subsection \<open>The decoded view\<close>

record bloom_filter_index_meta =
  bfm_hash_strategy :: "int option"
  bfm_algorithm :: "int option"
  bfm_bloom_filter :: "indexed_column_meta option"

text \<open>\<open>StarRocksZoneMapMeta\<close> has the fields of the message it is copied from.\<close>

record column_meta_fields =
  cmf_column_id :: "nat option"
  cmf_unique_id :: "nat option"
  cmf_logical_type :: "int option"
  cmf_encoding :: "int option"
  cmf_compression :: "int option"
  cmf_is_nullable :: "bool option"
  cmf_dict_page :: "page_pointer option"
  cmf_num_rows :: "nat option"
  cmf_root_page :: "page_pointer option"
  cmf_root_is_data_page :: "bool option"
  cmf_segment_zone_map :: "zone_map_pb option"
  cmf_page_zone_map_index :: "indexed_column_meta option"
  cmf_bloom_filter_index :: "bloom_filter_index_meta option"

datatype column_meta = ColumnMeta column_meta_fields "column_meta list"

record segment_footer =
  sf_footer_size :: nat
  sf_footer_checksum :: nat
  sf_version :: nat
  sf_num_rows :: "nat option"
  sf_columns :: "column_meta list"

definition SEGMENT_FOOTER_TRAILER_SIZE :: nat where "SEGMENT_FOOTER_TRAILER_SIZE = 12"
definition SEGMENT_MAGIC :: "byte list" where "SEGMENT_MAGIC = [0x44, 0x30, 0x52, 0x31]"
definition COLUMN_INDEX_TYPE_ORDINAL_INDEX :: int where "COLUMN_INDEX_TYPE_ORDINAL_INDEX = 1"
definition COLUMN_INDEX_TYPE_ZONE_MAP_INDEX :: int where "COLUMN_INDEX_TYPE_ZONE_MAP_INDEX = 2"
definition COLUMN_INDEX_TYPE_BLOOM_FILTER_INDEX :: int where "COLUMN_INDEX_TYPE_BLOOM_FILTER_INDEX = 4"

definition unwrap_or :: "'a option \<Rightarrow> 'a \<Rightarrow> 'a" where
  "unwrap_or x d = (case x of None \<Rightarrow> d | Some v \<Rightarrow> v)"

definition to_page_pointer :: "page_pointer_pb \<Rightarrow> page_pointer" where
  "to_page_pointer p = \<lparr>pp_offset = unwrap_or (ppb_offset p) 0, pp_size = unwrap_or (ppb_size p) 0\<rparr>"

definition to_indexed_column_meta :: "indexed_column_meta_pb \<Rightarrow> indexed_column_meta" where
  "to_indexed_column_meta pb =
     (let ordinal_index = icp_ordinal_index_meta pb
      in \<lparr>im_data_type = icp_data_type pb, im_encoding = icp_encoding pb, im_num_values = icp_num_values pb,
          im_root_page = map_option to_page_pointer (Option.bind ordinal_index btm_root_page),
          im_root_is_data_page = Option.bind ordinal_index btm_is_root_data_page,
          im_compression = icp_compression pb, im_size = icp_size pb\<rparr>)"

definition find_index :: "int \<Rightarrow> column_index_meta_pb list \<Rightarrow> column_index_meta_pb option" where
  "find_index ty idxs = List.find (\<lambda>idx. cip_type idx = Some ty) idxs"

definition to_column_fields :: "column_fields_pb \<Rightarrow> column_meta_fields" where
  "to_column_fields pb =
     (let idxs = cfp_indexes pb;
          ordinal_index = Option.bind (Option.bind (find_index COLUMN_INDEX_TYPE_ORDINAL_INDEX idxs) cip_ordinal_index) id;
          zone_map_index = Option.bind (find_index COLUMN_INDEX_TYPE_ZONE_MAP_INDEX idxs) cip_zone_map_index;
          bloom_filter_index = Option.bind (find_index COLUMN_INDEX_TYPE_BLOOM_FILTER_INDEX idxs) cip_bloom_filter_index
      in \<lparr>cmf_column_id = cfp_column_id pb, cmf_unique_id = cfp_unique_id pb, cmf_logical_type = cfp_type pb,
          cmf_encoding = cfp_encoding pb, cmf_compression = cfp_compression pb, cmf_is_nullable = cfp_is_nullable pb,
          cmf_dict_page = map_option to_page_pointer (cfp_dict_page pb), cmf_num_rows = cfp_num_rows pb,
          cmf_root_page = map_option to_page_pointer (Option.bind ordinal_index btm_root_page),
          cmf_root_is_data_page = Option.bind ordinal_index btm_is_root_data_page,
          cmf_segment_zone_map = Option.bind zone_map_index zip_segment_zone_map,
          cmf_page_zone_map_index =
            map_option to_indexed_column_meta (Option.bind zone_map_index zip_page_zone_maps),
          cmf_bloom_filter_index = map_option (\<lambda>meta.
            \<lparr>bfm_hash_strategy = bfp_hash_strategy meta, bfm_algorithm = bfp_algorithm meta,
             bfm_bloom_filter = map_option to_indexed_column_meta (bfp_bloom_filter meta)\<rparr>) bloom_filter_index\<rparr>)"

primrec to_column_meta :: "column_meta_pb \<Rightarrow> column_meta" where
  "to_column_meta (ColumnMetaPb flds children) = ColumnMeta (to_column_fields flds) (map to_column_meta children)"

subsection \<open>Reading and writing the trailer\<close>

record segment_libs =
  seg_crc32c :: "byte list \<Rightarrow> 32 word"
  segment_footer_decode :: "byte list \<Rightarrow> segment_footer_pb option"

definition decode_segment_footer :: "segment_libs \<Rightarrow> byte list \<Rightarrow> page_error + segment_footer" where
  "decode_segment_footer libs segment_bytes =
     (if length segment_bytes < SEGMENT_FOOTER_TRAILER_SIZE
      then Inl (TooSmall ''segment file'' (length segment_bytes))
      else let trailer_offset = length segment_bytes - SEGMENT_FOOTER_TRAILER_SIZE;
               footer_size = from_le (subslice trailer_offset (trailer_offset + 4) segment_bytes);
               footer_checksum = from_le (subslice (trailer_offset + 4) (trailer_offset + 8) segment_bytes);
               magic = subslice (trailer_offset + 8) (trailer_offset + SEGMENT_FOOTER_TRAILER_SIZE) segment_bytes
      in if magic \<noteq> SEGMENT_MAGIC then Inl (Unsupported ''segment magic'' 0)
         else if footer_size = 0 \<or> trailer_offset < footer_size
         then Inl (OutOfRange ''segment footer'' footer_size trailer_offset)
         else let footer_offset = trailer_offset - footer_size;
                  footer_bytes = subslice footer_offset trailer_offset segment_bytes;
                  actual_checksum = unat (seg_crc32c libs footer_bytes)
              in if actual_checksum \<noteq> footer_checksum
                 then Inl (ChecksumMismatch actual_checksum footer_checksum)
                 else case segment_footer_decode libs footer_bytes of
                   None \<Rightarrow> Inl FooterInvalid
                 | Some footer \<Rightarrow>
                     (case u32_try_from footer_size of
                        None \<Rightarrow> Inl (SizeOverflow ''segment footer'')
                      | Some sz \<Rightarrow>
                          Inr \<lparr>sf_footer_size = sz, sf_footer_checksum = footer_checksum,
                               sf_version = unwrap_or (sfp_version footer) 1, sf_num_rows = sfp_num_rows footer,
                               sf_columns = map to_column_meta (sfp_columns footer)\<rparr>))"

text \<open>The last lines of \<open>build_starrocks_native_segment_bytes\<close>, after the footer is serialized.\<close>

definition append_segment_trailer :: "segment_libs \<Rightarrow> byte list \<Rightarrow> byte list \<Rightarrow> page_error + byte list" where
  "append_segment_trailer libs segment_payload footer_bytes =
     (case u32_try_from (length footer_bytes) of
        None \<Rightarrow> Inl (SizeOverflow ''native segment footer'')
      | Some footer_size \<Rightarrow>
          let footer_checksum = unat (seg_crc32c libs footer_bytes)
          in Inr (segment_payload @ footer_bytes @ le_bytes 4 footer_size @ le_bytes 4 footer_checksum @ SEGMENT_MAGIC))"

subsection \<open>Round trip\<close>

text \<open>
  (C23) A segment whose trailer the writer appended opens: the reader finds the footer message the
  writer serialized, with all its columns, and every page the writer put into the payload is
  sliced from the file exactly as it was appended.
\<close>

theorem segment_file_roundtrip:
  assumes "append_segment_trailer libs segment_payload footer_bytes = Inr segment_bytes"
    and "segment_footer_decode libs footer_bytes = Some footer" and "footer_bytes \<noteq> []"
    and "segment_payload = pre @ page @ post" and "length segment_bytes < 2 ^ 64"
  shows "decode_segment_footer libs segment_bytes =
      Inr \<lparr>sf_footer_size = length footer_bytes, sf_footer_checksum = unat (seg_crc32c libs footer_bytes),
        sf_version = unwrap_or (sfp_version footer) 1, sf_num_rows = sfp_num_rows footer,
        sf_columns = map to_column_meta (sfp_columns footer)\<rparr> \<and>
    slice_page_bytes segment_bytes (length pre) (length page) = Inr page"
proof -
  let ?fs = "le_bytes 4 (length footer_bytes)" and ?cs = "le_bytes 4 (unat (seg_crc32c libs footer_bytes))"
  let ?t = "length (segment_payload @ footer_bytes)"
  have n: "length footer_bytes < 2 ^ 32" and seg: "segment_bytes = segment_payload @ footer_bytes @ ?fs @ ?cs @ SEGMENT_MAGIC"
    using assms(1) by (auto simp: append_segment_trailer_def u32_try_from_def u32_limit_def Let_def split: if_splits)
  have len: "length segment_bytes = ?t + 12" by (simp add: seg SEGMENT_MAGIC_def)
  have crc: "unat (seg_crc32c libs footer_bytes) < 2 ^ 32"
    by (rule order_less_le_trans [OF unsigned_less]) simp
  have size: "from_le (subslice ?t (?t + 4) segment_bytes) = length footer_bytes"
    using n subslice_middle [of ?t "segment_payload @ footer_bytes" "?t + 4" ?fs "?cs @ SEGMENT_MAGIC"]
    by (simp add: seg from_le_le_bytes)
  have sum: "from_le (subslice (?t + 4) (?t + 8) segment_bytes) = unat (seg_crc32c libs footer_bytes)"
    using crc subslice_middle [of "?t + 4" "segment_payload @ footer_bytes @ ?fs" "?t + 8" ?cs SEGMENT_MAGIC]
    by (simp add: seg from_le_le_bytes add.assoc)
  have magic: "subslice (?t + 8) (?t + 12) segment_bytes = SEGMENT_MAGIC"
    using subslice_middle [of "?t + 8" "segment_payload @ footer_bytes @ ?fs @ ?cs" "?t + 12" SEGMENT_MAGIC "[]"]
    by (simp add: seg SEGMENT_MAGIC_def add.assoc)
  have bytes: "subslice (length segment_payload) ?t segment_bytes = footer_bytes"
    using subslice_middle [of _ segment_payload ?t footer_bytes "?fs @ ?cs @ SEGMENT_MAGIC"] by (simp add: seg)
  have "subslice (length pre) (length pre + length page) segment_bytes = page"
    using subslice_middle [of _ pre _ page "post @ footer_bytes @ ?fs @ ?cs @ SEGMENT_MAGIC"] by (simp add: seg assms(4))
  then have "slice_page_bytes segment_bytes (length pre) (length page) = Inr page"
    using assms(4,5) len by (simp add: slice_page_bytes_def checked_add_usize_def usize_limit_def)
  moreover have "length segment_bytes - 12 = ?t" "?t - length footer_bytes = length segment_payload"
    "\<not> ?t < length footer_bytes"
    using len by simp_all
  ultimately show ?thesis
    using n size sum magic bytes assms(2,3) len
    by (simp add: decode_segment_footer_def SEGMENT_FOOTER_TRAILER_SIZE_def Let_def u32_try_from_def u32_limit_def
        del: length_append)
qed

definition example_segment_libs :: segment_libs where
  "example_segment_libs = \<lparr>seg_crc32c = (\<lambda>bs. of_nat (length bs)),
     segment_footer_decode = (\<lambda>bs. Some \<lparr>sfp_version = None, sfp_columns = [], sfp_num_rows = Some (length bs)\<rparr>)\<rparr>"

theorem segment_file_roundtrip_witness:
  "\<exists>segment_bytes. append_segment_trailer example_segment_libs [1, 2, 3, 4] [9] = Inr segment_bytes \<and>
     decode_segment_footer example_segment_libs segment_bytes =
       Inr \<lparr>sf_footer_size = 1, sf_footer_checksum = 1, sf_version = 1, sf_num_rows = Some 1, sf_columns = []\<rparr> \<and>
     slice_page_bytes segment_bytes 1 2 = Inr [2, 3]"
proof -
  define segment_bytes where
    "segment_bytes = [1, 2, 3, 4] @ [9] @ le_bytes 4 1 @ le_bytes 4 1 @ SEGMENT_MAGIC"
  have app: "append_segment_trailer example_segment_libs [1, 2, 3, 4] [9] = Inr segment_bytes"
    and len: "length segment_bytes < 2 ^ 64"
    by (simp_all add: append_segment_trailer_def example_segment_libs_def u32_try_from_def u32_limit_def
        segment_bytes_def SEGMENT_MAGIC_def)
  have dec: "segment_footer_decode example_segment_libs [9] =
      Some \<lparr>sfp_version = None, sfp_columns = [], sfp_num_rows = Some 1\<rparr>"
    by (simp add: example_segment_libs_def)
  have "[1, 2, 3, 4] = [1] @ [2, 3] @ [4 :: byte]" by simp
  from segment_file_roundtrip [OF app dec _ this len] app show ?thesis
    by (simp add: unwrap_or_def numeral_2_eq_2) (simp add: example_segment_libs_def)
qed

end
