(* ===== verification/Arrow_Types.thy ===== *)
theory Arrow_Types
  imports Nova_Prelude
begin

text \<open>
  Data types of columns: the Arrow types the engine works with, the thrift type descriptors of
  \<open>idl/thrift/Types.thrift\<close>, the conversions between them (\<open>src/src/lower/type_lowering.rs\<close>,
  \<open>src/src/sql/codegen/type_infer.rs\<close>) and the typing rules of SQL arithmetic and of type
  unification (\<open>src/src/sql/types.rs\<close>). Of Arrow's \<open>DataType\<close> the constructors the engine names are
  kept, \<open>DOther\<close> stands for the rest; a field's metadata is the sorted list of its entries.
\<close>

subsection \<open>Arrow types\<close>

datatype time_unit = Second | Millisecond | Microsecond | Nanosecond

datatype data_type =
    DNull | DBoolean | DInt8 | DInt16 | DInt32 | DInt64 | DFloat32 | DFloat64
  | DUtf8 | DLargeUtf8 | DBinary | DLargeBinary | DFixedSizeBinary int | DDate32
  | DTimestamp time_unit "string option" | DTime64 time_unit
  | DDecimal128 "8 word" "8 word" | DDecimal256 "8 word" "8 word"
  | DList field | DLargeList field | DMap field bool | DStruct "field list" | DOther string
and field = Field (fld_name: string) (fld_type: data_type) (fld_nullable: bool) (fld_meta: "(string \<times> string) list")

abbreviation new_field :: "string \<Rightarrow> data_type \<Rightarrow> bool \<Rightarrow> field" where
  "new_field name t nullable \<equiv> Field name t nullable []"

subsection \<open>Thrift type descriptors\<close>

datatype primitive_type =
    T_INVALID_TYPE | T_NULL_TYPE | T_BOOLEAN | T_TINYINT | T_SMALLINT | T_INT | T_BIGINT | T_FLOAT | T_DOUBLE | T_DATE
  | T_DATETIME | T_BINARY | T_DECIMAL | T_CHAR | T_LARGEINT | T_VARCHAR | T_HLL | T_DECIMALV2 | T_TIME | T_OBJECT
  | T_PERCENTILE | T_DECIMAL32 | T_DECIMAL64 | T_DECIMAL128 | T_JSON | T_FUNCTION | T_VARBINARY | T_DECIMAL256
  | T_INT256 | T_VARIANT | UNKNOWN_PRIMITIVE int

datatype node_kind = SCALAR | ARRAY | MAP | STRUCT | UNKNOWN_NODE int

record scalar_type =
  sc_type :: primitive_type
  sc_len :: "int option"
  sc_precision :: "int option"
  sc_scale :: "int option"

record struct_field_desc =
  sf_name :: "string option"
  sf_comment :: "string option"
  sf_id :: "int option"
  sf_physical_name :: "string option"

record type_node =
  node_type :: node_kind
  node_scalar :: "scalar_type option"
  node_struct_fields :: "struct_field_desc list option"
  node_is_named :: "bool option"

type_synonym type_desc = "type_node list option"

definition primitive_type_from_desc :: "type_desc \<Rightarrow> primitive_type option" where
  "primitive_type_from_desc desc =
     (case desc of
        Some (n # _) \<Rightarrow> if node_type n \<noteq> SCALAR then None else map_option sc_type (node_scalar n)
      | _ \<Rightarrow> None)"

definition scalar_type_desc :: "primitive_type \<Rightarrow> type_desc" where
  "scalar_type_desc p =
     Some [\<lparr>node_type = SCALAR, node_scalar = Some \<lparr>sc_type = p, sc_len = None, sc_precision = None, sc_scale = None\<rparr>,
            node_struct_fields = None, node_is_named = None\<rparr>]"

definition LEGACY_DECIMALV2_PRECISION :: "8 word" where "LEGACY_DECIMALV2_PRECISION = 27"
definition LEGACY_DECIMALV2_SCALE :: "8 word" where "LEGACY_DECIMALV2_SCALE = 9"

definition u8_try_from :: "int \<Rightarrow> 8 word option" where
  "u8_try_from v = (if 0 \<le> v \<and> v < 256 then Some (word_of_int v) else None)"

definition i8_try_from :: "int \<Rightarrow> 8 word option" where
  "i8_try_from v = (if - 128 \<le> v \<and> v < 128 then Some (word_of_int v) else None)"

text \<open>The decimal branch of \<open>arrow_type_from_nodes\<close>: wide precisions go to 256 bits.\<close>

definition decimal_arrow_type :: "scalar_type \<Rightarrow> data_type option" where
  "decimal_arrow_type sc =
     (case Option.bind (sc_precision sc) u8_try_from of
        None \<Rightarrow> None
      | Some precision \<Rightarrow>
          (case Option.bind (sc_scale sc) i8_try_from of
             None \<Rightarrow> None
           | Some scale \<Rightarrow>
               Some (if sc_type sc = T_DECIMAL256 \<or> 38 < precision
                     then DDecimal256 precision scale else DDecimal128 precision scale)))"

definition arrow_type_from_primitive :: "primitive_type \<Rightarrow> data_type option" where
  "arrow_type_from_primitive p =
     (case p of
        T_NULL_TYPE \<Rightarrow> Some DNull
      | T_BOOLEAN \<Rightarrow> Some DBoolean
      | T_TINYINT \<Rightarrow> Some DInt8
      | T_SMALLINT \<Rightarrow> Some DInt16
      | T_INT \<Rightarrow> Some DInt32
      | T_BIGINT \<Rightarrow> Some DInt64
      | T_LARGEINT \<Rightarrow> Some (DFixedSizeBinary 16)
      | T_FLOAT \<Rightarrow> Some DFloat32
      | T_DOUBLE \<Rightarrow> Some DFloat64
      | T_DATE \<Rightarrow> Some DDate32
      | T_DATETIME \<Rightarrow> Some (DTimestamp Microsecond None)
      | T_TIME \<Rightarrow> Some (DTimestamp Microsecond None)
      | T_BINARY \<Rightarrow> Some DBinary
      | T_VARBINARY \<Rightarrow> Some DBinary
      | T_HLL \<Rightarrow> Some DBinary
      | T_OBJECT \<Rightarrow> Some DBinary
      | T_PERCENTILE \<Rightarrow> Some DBinary
      | T_CHAR \<Rightarrow> Some DUtf8
      | T_VARCHAR \<Rightarrow> Some DUtf8
      | T_JSON \<Rightarrow> Some DUtf8
      | T_FUNCTION \<Rightarrow> Some DUtf8
      | T_VARIANT \<Rightarrow> Some DLargeBinary
      | T_DECIMALV2 \<Rightarrow> Some (DDecimal128 LEGACY_DECIMALV2_PRECISION LEGACY_DECIMALV2_SCALE)
      | _ \<Rightarrow> None)"

definition scalar_arrow_type :: "scalar_type \<Rightarrow> data_type option" where
  "scalar_arrow_type sc =
     (case sc_type sc of
        T_NULL_TYPE \<Rightarrow> Some DNull
      | T_BOOLEAN \<Rightarrow> Some DBoolean
      | T_TINYINT \<Rightarrow> Some DInt8
      | T_SMALLINT \<Rightarrow> Some DInt16
      | T_INT \<Rightarrow> Some DInt32
      | T_BIGINT \<Rightarrow> Some DInt64
      | T_LARGEINT \<Rightarrow> Some (DFixedSizeBinary 16)
      | T_FLOAT \<Rightarrow> Some DFloat32
      | T_DOUBLE \<Rightarrow> Some DFloat64
      | T_DATE \<Rightarrow> Some DDate32
      | T_DATETIME \<Rightarrow> Some (DTimestamp Microsecond None)
      | T_TIME \<Rightarrow> Some (DTimestamp Microsecond None)
      | T_DECIMALV2 \<Rightarrow> Some (DDecimal128 LEGACY_DECIMALV2_PRECISION LEGACY_DECIMALV2_SCALE)
      | T_DECIMAL32 \<Rightarrow> decimal_arrow_type sc
      | T_DECIMAL64 \<Rightarrow> decimal_arrow_type sc
      | T_DECIMAL128 \<Rightarrow> decimal_arrow_type sc
      | T_DECIMAL256 \<Rightarrow> decimal_arrow_type sc
      | T_DECIMAL \<Rightarrow> decimal_arrow_type sc
      | T_BINARY \<Rightarrow> Some DBinary
      | T_VARBINARY \<Rightarrow> Some DBinary
      | T_HLL \<Rightarrow> Some DBinary
      | T_OBJECT \<Rightarrow> Some DBinary
      | T_PERCENTILE \<Rightarrow> Some DBinary
      | T_CHAR \<Rightarrow> Some DUtf8
      | T_VARCHAR \<Rightarrow> Some DUtf8
      | T_JSON \<Rightarrow> Some DUtf8
      | T_FUNCTION \<Rightarrow> Some DUtf8
      | T_VARIANT \<Rightarrow> Some DLargeBinary
      | _ \<Rightarrow> None)"

text \<open>
  The recursive walk over the flat node list. The cursor is passed by reference in the code; here
  a result carries the cursor after it. The recursion ends because every node moves the cursor.
\<close>

function (sequential) arrow_type_from_nodes :: "type_node list \<Rightarrow> nat \<Rightarrow> (data_type \<times> nat) option"
  and arrow_field_from_nodes_with_name ::
    "type_node list \<Rightarrow> nat \<Rightarrow> string \<Rightarrow> bool \<Rightarrow> (field \<times> nat) option"
  and arrow_struct_fields :: "type_node list \<Rightarrow> nat \<Rightarrow> struct_field_desc list \<Rightarrow> (field list \<times> nat) option"
where
  "arrow_type_from_nodes ns cursor =
     (if length ns \<le> cursor then None
      else case node_type (ns ! cursor) of
        SCALAR \<Rightarrow>
          (case node_scalar (ns ! cursor) of
             None \<Rightarrow> None
           | Some sc \<Rightarrow> (case scalar_arrow_type sc of None \<Rightarrow> None | Some t \<Rightarrow> Some (t, cursor + 1)))
      | STRUCT \<Rightarrow>
          (case node_struct_fields (ns ! cursor) of
             None \<Rightarrow> None
           | Some fs \<Rightarrow>
               (case arrow_struct_fields ns (cursor + 1) fs of
                  None \<Rightarrow> None
                | Some (out_fields, c) \<Rightarrow> Some (DStruct out_fields, c)))
      | ARRAY \<Rightarrow>
          (case arrow_field_from_nodes_with_name ns (cursor + 1) ''item'' True of
             None \<Rightarrow> None
           | Some (item_field, c) \<Rightarrow> Some (DList item_field, c))
      | MAP \<Rightarrow>
          (case arrow_field_from_nodes_with_name ns (cursor + 1) ''key'' True of
             None \<Rightarrow> None
           | Some (key_field, c) \<Rightarrow>
               (case arrow_field_from_nodes_with_name ns c ''value'' True of
                  None \<Rightarrow> None
                | Some (value_field, c') \<Rightarrow>
                    Some (DMap (new_field ''entries'' (DStruct [key_field, value_field]) False) False, c')))
      | UNKNOWN_NODE _ \<Rightarrow> None)"
| "arrow_field_from_nodes_with_name ns cursor name nullable =
     (case arrow_type_from_nodes ns cursor of
        None \<Rightarrow> None
      | Some (t, c) \<Rightarrow> Some (new_field name t nullable, c))"
| "arrow_struct_fields ns cursor [] = Some ([], cursor)"
| "arrow_struct_fields ns cursor (f # fs) =
     (case sf_name f of
        None \<Rightarrow> None
      | Some name \<Rightarrow>
          (case arrow_field_from_nodes_with_name ns cursor name True of
             None \<Rightarrow> None
           | Some (fld, c) \<Rightarrow>
               (case arrow_struct_fields ns c fs of
                  None \<Rightarrow> None
                | Some (out_fields, c') \<Rightarrow> Some (fld # out_fields, c'))))"
  by pat_completeness auto

lemma arrow_nodes_progress:
  "arrow_type_from_nodes_arrow_field_from_nodes_with_name_arrow_struct_fields_dom (Inl (ns, cursor)) \<Longrightarrow>
     arrow_type_from_nodes ns cursor = Some (t, c) \<Longrightarrow> cursor < c"
  "arrow_type_from_nodes_arrow_field_from_nodes_with_name_arrow_struct_fields_dom (Inr (Inl (ns, cursor, name, nullable))) \<Longrightarrow>
     arrow_field_from_nodes_with_name ns cursor name nullable = Some (f, c) \<Longrightarrow> cursor < c"
  "arrow_type_from_nodes_arrow_field_from_nodes_with_name_arrow_struct_fields_dom (Inr (Inr (ns, cursor, fs))) \<Longrightarrow>
     arrow_struct_fields ns cursor fs = Some (fs', c) \<Longrightarrow> cursor \<le> c"
proof (induction ns cursor and ns cursor name nullable and ns cursor fs arbitrary: t c and f c and fs' c
    rule: arrow_type_from_nodes_arrow_field_from_nodes_with_name_arrow_struct_fields.pinduct)
  case (1 ns cursor)
  then show ?case
    by (auto simp: arrow_type_from_nodes.psimps split: if_splits node_kind.splits option.splits) force+
qed (auto simp: arrow_field_from_nodes_with_name.psimps arrow_struct_fields.psimps split: option.splits, force+)

termination arrow_type_from_nodes
  by (relation "measures
      [\<lambda>x. case x of Inl (ns, c) \<Rightarrow> length ns - c | Inr (Inl (ns, c, _, _)) \<Rightarrow> length ns - c
           | Inr (Inr (ns, c, _)) \<Rightarrow> length ns - c,
       \<lambda>x. case x of Inl _ \<Rightarrow> 0 | Inr (Inl _) \<Rightarrow> 1 | Inr (Inr (_, _, fs)) \<Rightarrow> 2 + length fs]")
    (auto dest: arrow_nodes_progress(2) split: if_splits)

declare arrow_type_from_nodes.simps [simp del] arrow_field_from_nodes_with_name.simps [simp del]

lemma arrow_cursor_moves:
  "arrow_type_from_nodes ns cursor = Some (t, c) \<Longrightarrow> cursor < c \<and> c \<le> length ns"
  "arrow_field_from_nodes_with_name ns cursor name nullable = Some (f, c) \<Longrightarrow> cursor < c \<and> c \<le> length ns"
  "arrow_struct_fields ns cursor fs = Some (fs', c) \<Longrightarrow> cursor \<le> c \<and> (cursor \<le> length ns \<longrightarrow> c \<le> length ns)"
proof (induction ns cursor and ns cursor name nullable and ns cursor fs arbitrary: t c and f c and fs' c
    rule: arrow_type_from_nodes_arrow_field_from_nodes_with_name_arrow_struct_fields.induct)
  case (1 ns cursor)
  then show ?case
    by (auto simp: arrow_type_from_nodes.simps [of ns cursor] split: if_splits node_kind.splits option.splits) force+
qed (auto simp: arrow_field_from_nodes_with_name.simps split: option.splits, force+)

definition arrow_type_from_desc :: "type_desc \<Rightarrow> data_type option" where
  "arrow_type_from_desc desc =
     (case desc of None \<Rightarrow> None | Some ns \<Rightarrow> map_option fst (arrow_type_from_nodes ns 0))"

subsection \<open>Descriptors of Arrow types\<close>

datatype type_error =
    UnsupportedType data_type | MapEntriesNotStruct data_type | MapEntriesArity nat

definition arrow_type_to_primitive :: "data_type \<Rightarrow> type_error + primitive_type" where
  "arrow_type_to_primitive t =
     (case t of
        DBoolean \<Rightarrow> Inr T_BOOLEAN
      | DInt8 \<Rightarrow> Inr T_TINYINT
      | DInt16 \<Rightarrow> Inr T_SMALLINT
      | DInt32 \<Rightarrow> Inr T_INT
      | DInt64 \<Rightarrow> Inr T_BIGINT
      | DFloat32 \<Rightarrow> Inr T_FLOAT
      | DFloat64 \<Rightarrow> Inr T_DOUBLE
      | DUtf8 \<Rightarrow> Inr T_VARCHAR
      | DLargeUtf8 \<Rightarrow> Inr T_VARCHAR
      | DBinary \<Rightarrow> Inr T_VARBINARY
      | DLargeBinary \<Rightarrow> Inr T_VARIANT
      | DDate32 \<Rightarrow> Inr T_DATE
      | DTimestamp _ _ \<Rightarrow> Inr T_DATETIME
      | DDecimal128 _ _ \<Rightarrow> Inr T_DECIMAL128
      | DDecimal256 _ _ \<Rightarrow> Inr T_DECIMAL256
      | DFixedSizeBinary n \<Rightarrow> (if n = 16 then Inr T_LARGEINT else Inl (UnsupportedType t))
      | DTime64 _ \<Rightarrow> Inr T_TIME
      | DNull \<Rightarrow> Inr T_NULL_TYPE
      | _ \<Rightarrow> Inl (UnsupportedType t))"

definition kind_node :: "node_kind \<Rightarrow> struct_field_desc list option \<Rightarrow> type_node" where
  "kind_node k fs = \<lparr>node_type = k, node_scalar = None, node_struct_fields = fs, node_is_named = None\<rparr>"

definition decimal_node :: "primitive_type \<Rightarrow> 8 word \<Rightarrow> 8 word \<Rightarrow> type_node" where
  "decimal_node prim p s =
     \<lparr>node_type = SCALAR,
      node_scalar = Some \<lparr>sc_type = prim, sc_len = None, sc_precision = Some (uint p), sc_scale = Some (sint s)\<rparr>,
      node_struct_fields = None, node_is_named = None\<rparr>"

definition struct_field_of :: "field \<Rightarrow> struct_field_desc" where
  "struct_field_of f = \<lparr>sf_name = Some (fld_name f), sf_comment = None, sf_id = None, sf_physical_name = None\<rparr>"

fun append_arrow_type_nodes :: "data_type \<Rightarrow> type_node list \<Rightarrow> type_error + type_node list"
  and append_field_nodes :: "field list \<Rightarrow> type_node list \<Rightarrow> type_error + type_node list" where
  "append_arrow_type_nodes (DList (Field _ t _ _)) nodes = append_arrow_type_nodes t (nodes @ [kind_node ARRAY None])"
| "append_arrow_type_nodes (DMap (Field _ (DStruct [Field _ k _ _, Field _ v _ _]) _ _) _) nodes =
     result_bind (append_arrow_type_nodes k (nodes @ [kind_node MAP None])) (append_arrow_type_nodes v)"
| "append_arrow_type_nodes (DMap (Field _ (DStruct fs) _ _) _) nodes = Inl (MapEntriesArity (length fs))"
| "append_arrow_type_nodes (DMap (Field _ t _ _) _) nodes = Inl (MapEntriesNotStruct t)"
| "append_arrow_type_nodes (DStruct fs) nodes =
     append_field_nodes fs (nodes @ [kind_node STRUCT (Some (map struct_field_of fs))])"
| "append_arrow_type_nodes (DDecimal128 p s) nodes = Inr (nodes @ [decimal_node T_DECIMAL128 p s])"
| "append_arrow_type_nodes (DDecimal256 p s) nodes = Inr (nodes @ [decimal_node T_DECIMAL256 p s])"
| "append_arrow_type_nodes t nodes =
     result_bind (arrow_type_to_primitive t)
       (\<lambda>p. Inr (nodes @ (case scalar_type_desc p of None \<Rightarrow> [] | Some ns \<Rightarrow> ns)))"
| "append_field_nodes [] nodes = Inr nodes"
| "append_field_nodes (Field _ t _ _ # fs) nodes =
     result_bind (append_arrow_type_nodes t nodes) (append_field_nodes fs)"

definition arrow_type_to_type_desc :: "data_type \<Rightarrow> type_error + type_desc" where
  "arrow_type_to_type_desc t = result_bind (append_arrow_type_nodes t []) (\<lambda>nodes. Inr (Some nodes))"

text \<open>What a type becomes on the way through a descriptor.\<close>

fun canonical_type :: "data_type \<Rightarrow> data_type" where
  "canonical_type (DList (Field _ t _ _)) = DList (new_field ''item'' (canonical_type t) True)"
| "canonical_type (DMap (Field _ (DStruct [Field _ k _ _, Field _ v _ _]) _ _) _) =
     DMap (new_field ''entries'' (DStruct [new_field ''key'' (canonical_type k) True, new_field ''value'' (canonical_type v) True]) False) False"
| "canonical_type (DStruct fs) = DStruct (map (\<lambda>f. case f of Field n t _ _ \<Rightarrow> new_field n (canonical_type t) True) fs)"
| "canonical_type (DDecimal128 p s) = (if 38 < p then DDecimal256 p s else DDecimal128 p s)"
| "canonical_type DLargeUtf8 = DUtf8"
| "canonical_type (DTimestamp _ _) = DTimestamp Microsecond None"
| "canonical_type (DTime64 _) = DTimestamp Microsecond None"
| "canonical_type t = t"

lemma u8_try_from_uint [simp]: "u8_try_from (uint p) = Some p"
  using uint_lt2p [of p] by (simp add: u8_try_from_def)

lemma i8_try_from_sint [simp]: "i8_try_from (sint s) = Some (s :: 8 word)"
  using sint_greater_eq [of s] sint_less [of s] by (simp add: i8_try_from_def)

lemma read_decimal_node:
  assumes "prim = T_DECIMAL128 \<or> prim = T_DECIMAL256"
  shows "arrow_type_from_nodes (pre @ decimal_node prim p s # post) (length pre) =
     Some (if prim = T_DECIMAL256 \<or> 38 < p then DDecimal256 p s else DDecimal128 p s, Suc (length pre))"
  using assms
  by (auto simp: arrow_type_from_nodes.simps decimal_node_def scalar_arrow_type_def decimal_arrow_type_def)

lemma read_scalar_node:
  assumes "arrow_type_to_primitive t = Inr prim" and "\<nexists>p s. t = DDecimal128 p s" "\<nexists>p s. t = DDecimal256 p s"
  shows "arrow_type_from_nodes (pre @ (case scalar_type_desc prim of None \<Rightarrow> [] | Some ns \<Rightarrow> ns) @ post) (length pre) =
     Some (canonical_type t, Suc (length pre))"
  using assms
  by (cases t) (auto simp: arrow_type_from_nodes.simps arrow_type_to_primitive_def scalar_type_desc_def
    scalar_arrow_type_def split: if_splits)

text \<open>Reading back the nodes a writer appended, at whatever position they stand.\<close>

definition reads_as :: "type_node list \<Rightarrow> data_type \<Rightarrow> bool" where
  "reads_as ks t \<longleftrightarrow> (\<forall>pre post. arrow_type_from_nodes (pre @ ks @ post) (length pre) = Some (t, length pre + length ks))"

definition reads_as_fields :: "type_node list \<Rightarrow> field list \<Rightarrow> bool" where
  "reads_as_fields ks fs \<longleftrightarrow>
     (\<forall>pre post. arrow_struct_fields (pre @ ks @ post) (length pre) (map struct_field_of fs) =
        Some (map (\<lambda>f. new_field (fld_name f) (canonical_type (fld_type f)) True) fs, length pre + length ks))"

lemma reads_as_array: "reads_as ks t \<Longrightarrow> reads_as (kind_node ARRAY None # ks) (DList (new_field ''item'' t True))"
  unfolding reads_as_def
proof (intro allI)
  fix pre post
  assume *: "\<forall>pre post. arrow_type_from_nodes (pre @ ks @ post) (length pre) = Some (t, length pre + length ks)"
  show "arrow_type_from_nodes (pre @ (kind_node ARRAY None # ks) @ post) (length pre) =
      Some (DList (new_field ''item'' t True), length pre + length (kind_node ARRAY None # ks))"
    using *[rule_format, of "pre @ [kind_node ARRAY None]" post]
    by (subst arrow_type_from_nodes.simps)
      (simp add: kind_node_def arrow_field_from_nodes_with_name.simps)
qed

lemma reads_as_map:
  assumes "reads_as ks k" and "reads_as vs v"
  shows "reads_as (kind_node MAP None # ks @ vs)
    (DMap (new_field ''entries'' (DStruct [new_field ''key'' k True, new_field ''value'' v True]) False) False)"
  unfolding reads_as_def
proof (intro allI)
  fix pre post
  have "arrow_type_from_nodes (pre @ kind_node MAP None # ks @ vs @ post) (Suc (length pre)) =
      Some (k, Suc (length pre + length ks))"
    using assms(1)[unfolded reads_as_def, rule_format, of "pre @ [kind_node MAP None]" "vs @ post"] by simp
  moreover have "arrow_type_from_nodes (pre @ kind_node MAP None # ks @ vs @ post) (Suc (length pre + length ks)) =
      Some (v, Suc (length pre + length ks + length vs))"
    using assms(2)[unfolded reads_as_def, rule_format, of "pre @ kind_node MAP None # ks" post] by simp
  ultimately show "arrow_type_from_nodes (pre @ (kind_node MAP None # ks @ vs) @ post) (length pre) =
      Some (DMap (new_field ''entries'' (DStruct [new_field ''key'' k True, new_field ''value'' v True]) False) False,
            length pre + length (kind_node MAP None # ks @ vs))"
    by (subst arrow_type_from_nodes.simps)
      (simp add: kind_node_def arrow_field_from_nodes_with_name.simps)
qed

lemma reads_as_struct:
  assumes "reads_as_fields ks fs"
  shows "reads_as (kind_node STRUCT (Some (map struct_field_of fs)) # ks) (canonical_type (DStruct fs))"
  unfolding reads_as_def
proof (intro allI)
  fix pre post
  let ?n = "kind_node STRUCT (Some (map struct_field_of fs))"
  have "map (\<lambda>f. new_field (fld_name f) (canonical_type (fld_type f)) True) fs =
      map (\<lambda>f. case f of Field n t _ _ \<Rightarrow> new_field n (canonical_type t) True) fs"
    by (simp add: field.case_eq_if)
  with assms[unfolded reads_as_fields_def, rule_format, of "pre @ [?n]" post]
  show "arrow_type_from_nodes (pre @ (?n # ks) @ post) (length pre) =
      Some (canonical_type (DStruct fs), length pre + length (?n # ks))"
    by (subst arrow_type_from_nodes.simps) (simp add: kind_node_def)
qed

lemma reads_as_fields_Cons:
  assumes "reads_as ks (canonical_type t)" and "reads_as_fields ls fs"
  shows "reads_as_fields (ks @ ls) (Field n t b m # fs)"
  unfolding reads_as_fields_def
proof (intro allI)
  fix pre post
  show "arrow_struct_fields (pre @ (ks @ ls) @ post) (length pre) (map struct_field_of (Field n t b m # fs)) =
      Some (map (\<lambda>f. new_field (fld_name f) (canonical_type (fld_type f)) True) (Field n t b m # fs),
            length pre + length (ks @ ls))"
    using assms(1)[unfolded reads_as_def, rule_format, of pre "ls @ post"]
      assms(2)[unfolded reads_as_fields_def, rule_format, of "pre @ ks" post]
    by (simp add: struct_field_of_def arrow_field_from_nodes_with_name.simps)
qed

definition appends :: "type_node list \<Rightarrow> type_node list \<Rightarrow> data_type \<Rightarrow> bool" where
  "appends nodes nodes' t \<longleftrightarrow> (\<exists>ks. nodes' = nodes @ ks \<and> reads_as ks t)"

definition appends_fields :: "type_node list \<Rightarrow> type_node list \<Rightarrow> field list \<Rightarrow> bool" where
  "appends_fields nodes nodes' fs \<longleftrightarrow> (\<exists>ks. nodes' = nodes @ ks \<and> reads_as_fields ks fs)"

lemma appends_array: "appends (nodes @ [kind_node ARRAY None]) nodes' t \<Longrightarrow> appends nodes nodes' (DList (new_field ''item'' t True))"
  unfolding appends_def using reads_as_array by fastforce

lemma appends_map:
  "appends (nodes @ [kind_node MAP None]) mid k \<Longrightarrow> appends mid nodes' v \<Longrightarrow>
   appends nodes nodes' (DMap (new_field ''entries'' (DStruct [new_field ''key'' k True, new_field ''value'' v True]) False) False)"
  unfolding appends_def using reads_as_map by fastforce

lemma appends_struct:
  "appends_fields (nodes @ [kind_node STRUCT (Some (map struct_field_of fs))]) nodes' fs \<Longrightarrow>
   appends nodes nodes' (canonical_type (DStruct fs))"
  unfolding appends_def appends_fields_def using reads_as_struct by fastforce

lemma appends_fields_Nil: "appends_fields nodes nodes []"
  by (simp add: appends_fields_def reads_as_fields_def)

lemma appends_fields_Cons:
  "appends nodes mid (canonical_type t) \<Longrightarrow> appends_fields mid nodes' fs \<Longrightarrow>
   appends_fields nodes nodes' (Field n t b m # fs)"
  unfolding appends_def appends_fields_def using reads_as_fields_Cons by fastforce

lemma appends_decimal:
  "prim = T_DECIMAL128 \<or> prim = T_DECIMAL256 \<Longrightarrow>
   appends nodes (nodes @ [decimal_node prim p s])
     (if prim = T_DECIMAL256 \<or> 38 < p then DDecimal256 p s else DDecimal128 p s)"
  using read_decimal_node [of prim] by (auto simp: appends_def reads_as_def)

lemma appends_scalar:
  assumes "arrow_type_to_primitive t = Inr prim" and "\<nexists>p s. t = DDecimal128 p s" "\<nexists>p s. t = DDecimal256 p s"
  shows "appends nodes (nodes @ (case scalar_type_desc prim of None \<Rightarrow> [] | Some ns \<Rightarrow> ns)) (canonical_type t)"
proof -
  have "reads_as (case scalar_type_desc prim of None \<Rightarrow> [] | Some ns \<Rightarrow> ns) (canonical_type t)"
    using read_scalar_node [OF assms] by (simp add: reads_as_def scalar_type_desc_def)
  then show ?thesis by (auto simp: appends_def)
qed

lemma append_nodes_appends:
  "append_arrow_type_nodes t nodes = Inr nodes' \<Longrightarrow> appends nodes nodes' (canonical_type t)"
  "append_field_nodes fs nodes = Inr nodes' \<Longrightarrow> appends_fields nodes nodes' fs"
  using appends_decimal [of T_DECIMAL128] appends_decimal [of T_DECIMAL256] appends_struct
  by (induction t nodes and fs nodes arbitrary: nodes' and nodes'
      rule: append_arrow_type_nodes_append_field_nodes.induct)
    (auto simp: rust_results appends_fields_Nil dest!: appends_scalar
      intro: appends_array appends_map appends_fields_Cons simp del: canonical_type.simps(3))

lemma canonical_type_idem: "canonical_type (canonical_type t) = canonical_type t"
  by (induction t rule: canonical_type.induct) (auto split: field.splits)

subsection \<open>Typing of SQL arithmetic and type unification\<close>

definition i8_max :: "8 word \<Rightarrow> 8 word \<Rightarrow> 8 word" where
  "i8_max a b = (if sint a \<le> sint b then b else a)"

definition i8_min :: "8 word \<Rightarrow> 8 word \<Rightarrow> 8 word" where
  "i8_min a b = (if sint a \<le> sint b then a else b)"

text \<open>Additions of \<open>i8\<close> values wrap, as in a build without overflow checks.\<close>

definition decimal_arithmetic_result_type ::
  "8 word \<Rightarrow> 8 word \<Rightarrow> 8 word \<Rightarrow> 8 word \<Rightarrow> string \<Rightarrow> data_type" where
  "decimal_arithmetic_result_type p1 s1 p2 s2 op =
     (if op = ''mul'' \<or> op = ''*'' then DDecimal128 (i8_min (p1 + p2) 38) (s1 + s2)
      else if op = ''div'' \<or> op = ''/''
      then DDecimal128 38 (if sint s1 \<le> 6 then s1 + 6 else if sint s1 \<le> 12 then 12 else s1)
      else let s = i8_max s1 s2
           in DDecimal128 (i8_min (i8_max (p1 - s1) (p2 - s2) + s + 1) 38) s)"

definition is_integral :: "data_type \<Rightarrow> bool" where
  "is_integral t \<longleftrightarrow> t \<in> {DInt8, DInt16, DInt32, DInt64}"

definition is_float :: "data_type \<Rightarrow> bool" where
  "is_float t \<longleftrightarrow> t \<in> {DFloat64, DFloat32}"

definition arithmetic_result_type_with_op :: "data_type \<Rightarrow> data_type \<Rightarrow> string \<Rightarrow> data_type" where
  "arithmetic_result_type_with_op left right op =
     (if op = ''div'' \<and> is_integral left \<and> is_integral right then DFloat64
      else case left of
        DDecimal128 p s \<Rightarrow>
          (case right of
             DDecimal128 p2 s2 \<Rightarrow> decimal_arithmetic_result_type p s p2 s2 op
           | _ \<Rightarrow> if is_integral right then decimal_arithmetic_result_type p s 19 0 op else DFloat64)
      | _ \<Rightarrow>
          (case right of
             DDecimal128 p s \<Rightarrow>
               if is_integral left then decimal_arithmetic_result_type 19 0 p s op else DFloat64
           | _ \<Rightarrow>
               if is_float left \<or> is_float right then DFloat64
               else if left = DInt64 \<or> right = DInt64 then DInt64
               else if left = DInt32 \<or> right = DInt32 then DInt64
               else if left = DInt16 \<or> right = DInt16 then DInt32
               else if left = DInt8 \<or> right = DInt8 then DInt16
               else DFloat64))"

text \<open>The arms of \<open>wider_type\<close> below the composite types.\<close>

definition wider_decimal :: "8 word \<Rightarrow> 8 word \<Rightarrow> 8 word \<Rightarrow> 8 word \<Rightarrow> data_type" where
  "wider_decimal p1 s1 p2 s2 =
     (let scale = i8_max s1 s2
      in DDecimal128 (i8_min (i8_max (p1 - s1) (p2 - s2) + scale) 38) scale)"

definition wider_scalar :: "data_type \<Rightarrow> data_type \<Rightarrow> data_type" where
  "wider_scalar a b =
     (case a of
        DDecimal128 p s \<Rightarrow>
          (case b of
             DDecimal128 p2 s2 \<Rightarrow> wider_decimal p s p2 s2
           | _ \<Rightarrow> if is_float b then DFloat64 else DDecimal128 p s)
      | _ \<Rightarrow>
          (case b of
             DDecimal128 p s \<Rightarrow> if is_float a then DFloat64 else DDecimal128 p s
           | _ \<Rightarrow>
               if is_float a \<or> is_float b then DFloat64
               else if a = DInt64 \<or> b = DInt64 then DInt64
               else if a = DInt32 \<or> b = DInt32 then DInt64
               else if a = DUtf8 \<or> b = DUtf8 then DUtf8
               else if a = DLargeUtf8 \<or> b = DLargeUtf8 then DUtf8
               else a))"

fun wider_type :: "data_type \<Rightarrow> data_type \<Rightarrow> data_type"
  and wider_map_type :: "field \<Rightarrow> field \<Rightarrow> data_type"
  and wider_fields :: "field list \<Rightarrow> field list \<Rightarrow> field list" where
  "wider_type a b =
     (if a = b then a
      else if a = DNull then b
      else if b = DNull then a
      else case a of
        DList (Field n t nullable m) \<Rightarrow>
          (case b of
             DList (Field _ t' nullable' _) \<Rightarrow> DList (new_field n (wider_type t t') (nullable \<or> nullable'))
           | _ \<Rightarrow> wider_scalar a b)
      | DMap left_entries _ \<Rightarrow>
          (case b of
             DMap right_entries _ \<Rightarrow> wider_map_type left_entries right_entries
           | _ \<Rightarrow> wider_scalar a b)
      | DStruct left_fields \<Rightarrow>
          (case b of
             DStruct right_fields \<Rightarrow>
               if length left_fields = length right_fields then DStruct (wider_fields left_fields right_fields)
               else wider_scalar a b
           | _ \<Rightarrow> wider_scalar a b)
      | _ \<Rightarrow> wider_scalar a b)"
| "wider_map_type (Field n t nullable m) right_entries =
     (case t of
        DStruct [Field _ k kn _, Field _ v vn _] \<Rightarrow>
          (case fld_type right_entries of
             DStruct [Field _ k' kn' _, Field _ v' vn' _] \<Rightarrow>
               DMap (new_field ''entries'' (DStruct
                 [new_field ''key'' (wider_type k k') (kn \<or> kn'), new_field ''value'' (wider_type v v') (vn \<or> vn')])
                 False) False
           | _ \<Rightarrow> DMap (Field n t nullable m) False)
      | _ \<Rightarrow> DMap (Field n t nullable m) False)"
| "wider_fields (Field n t nullable m # fs) (Field n' t' nullable' m' # gs) =
     new_field n (wider_type t t') (nullable \<or> nullable') # wider_fields fs gs"
| "wider_fields _ _ = []"

declare wider_type.simps [simp del] wider_map_type.simps [simp del]

subsection \<open>Lowered types\<close>

text \<open>The types a descriptor can be written for.\<close>

fun describable :: "data_type \<Rightarrow> bool" where
  "describable (DList (Field _ t _ _)) = describable t"
| "describable (DMap (Field _ (DStruct [Field _ k _ _, Field _ v _ _]) _ _) _) = (describable k \<and> describable v)"
| "describable (DMap _ _) = False"
| "describable (DStruct fs) = (\<forall>f \<in> set fs. case f of Field _ t _ _ \<Rightarrow> describable t)"
| "describable (DFixedSizeBinary n) = (n = 16)"
| "describable (DLargeList _) = False"
| "describable (DOther _) = False"
| "describable _ = True"

lemma append_nodes_total:
  "(\<exists>nodes'. append_arrow_type_nodes t nodes = Inr nodes') \<longleftrightarrow> describable t"
  "(\<exists>nodes'. append_field_nodes fs nodes = Inr nodes') \<longleftrightarrow> (\<forall>f \<in> set fs. case f of Field _ t _ _ \<Rightarrow> describable t)"
  by (induction t nodes and fs nodes rule: append_arrow_type_nodes_append_field_nodes.induct)
    (auto simp: rust_results arrow_type_to_primitive_def)

lemma arrow_type_to_type_desc_total: "(\<exists>d. arrow_type_to_type_desc t = Inr d) \<longleftrightarrow> describable t"
  unfolding append_nodes_total(1) [of t "[]", symmetric] by (auto simp: arrow_type_to_type_desc_def rust_results)

lemma scalar_arrow_type_canonical:
  "scalar_arrow_type sc = Some t \<Longrightarrow> describable t \<and> canonical_type t = t"
  by (auto simp: scalar_arrow_type_def decimal_arrow_type_def LEGACY_DECIMALV2_PRECISION_def
    split: primitive_type.splits option.splits if_splits)

definition lowered :: "data_type \<Rightarrow> bool" where
  "lowered t \<longleftrightarrow> describable t \<and> canonical_type t = t"

definition lowered_field :: "field \<Rightarrow> bool" where
  "lowered_field f \<longleftrightarrow> (case f of Field n t nullable m \<Rightarrow> lowered t \<and> nullable \<and> m = [])"

lemma lowered_list: "lowered_field f \<Longrightarrow> fld_name f = ''item'' \<Longrightarrow> lowered (DList f)"
  by (cases f) (simp add: lowered_field_def lowered_def)

lemma lowered_map:
  "lowered_field k \<Longrightarrow> lowered_field v \<Longrightarrow> fld_name k = ''key'' \<Longrightarrow> fld_name v = ''value'' \<Longrightarrow>
   lowered (DMap (new_field ''entries'' (DStruct [k, v]) False) False)"
  by (cases k; cases v) (simp add: lowered_field_def lowered_def)

lemma lowered_struct: "list_all lowered_field fs \<Longrightarrow> lowered (DStruct fs)"
  unfolding lowered_def lowered_field_def list_all_iff
  by (fastforce split: field.splits intro!: map_idI)

lemma lowered_types:
  "arrow_type_from_nodes ns cursor = Some (t, c) \<Longrightarrow> lowered t"
  "arrow_field_from_nodes_with_name ns cursor name nullable = Some (f, c) \<Longrightarrow> nullable \<Longrightarrow> lowered_field f \<and> fld_name f = name"
  "arrow_struct_fields ns cursor fs = Some (out, c) \<Longrightarrow> list_all lowered_field out"
proof (induction ns cursor and ns cursor name nullable and ns cursor fs arbitrary: t c and f c and out c
    rule: arrow_type_from_nodes_arrow_field_from_nodes_with_name_arrow_struct_fields.induct)
  case (1 ns cursor)
  note step = 1(5) [unfolded arrow_type_from_nodes.simps [of ns]]
  show ?case
  proof (cases "node_type (ns ! cursor)")
    case MAP
    then obtain k b v where k: "arrow_field_from_nodes_with_name ns (cursor + 1) ''key'' True = Some (k, b)"
      and v: "arrow_field_from_nodes_with_name ns b ''value'' True = Some (v, c)" and bound: "\<not> length ns \<le> cursor"
      and t: "t = DMap (new_field ''entries'' (DStruct [k, v]) False) False"
      using step by (auto split: if_splits option.splits)
    show ?thesis
      using lowered_map 1(2) [OF bound MAP k] 1(3) [OF bound MAP k refl v] unfolding t by blast
  qed (use step 1(1,4) scalar_arrow_type_canonical in
      \<open>auto split: if_splits option.splits intro: lowered_list lowered_struct simp flip: lowered_def\<close>)
next
  case (4 ns cursor f fs)
  then obtain name g b out' where name: "sf_name f = Some name"
    and g: "arrow_field_from_nodes_with_name ns cursor name True = Some (g, b)"
    and rest: "arrow_struct_fields ns b fs = Some (out', c)" and out: "out = g # out'"
    by (auto split: option.splits)
  from 4(1) [OF name g] 4(2) [OF name g refl rest] show ?case by (simp add: out)
qed (auto simp: arrow_field_from_nodes_with_name.simps lowered_field_def split: option.splits)

subsection \<open>Decimal results\<close>

definition valid_decimal :: "8 word \<Rightarrow> 8 word \<Rightarrow> bool" where
  "valid_decimal p s \<longleftrightarrow> 1 \<le> uint p \<and> uint p \<le> 38 \<and> 0 \<le> sint s \<and> sint s \<le> uint p"

text \<open>An unscaled value of the given precision.\<close>

definition fits :: "8 word \<Rightarrow> int \<Rightarrow> bool" where
  "fits p x \<longleftrightarrow> \<bar>x\<bar> < 10 ^ unat p"

lemma sint_i8: "uint p < 128 \<Longrightarrow> sint (p :: 8 word) = uint p"
  using signed_take_bit_int_eq_self [of 7 "uint p"] uint_ge_0 [of p] by (simp add: sint_uint)

lemma sint_i8_add: "- 128 \<le> sint a + sint b \<Longrightarrow> sint a + sint b < 128 \<Longrightarrow> sint (a + b :: 8 word) = sint a + sint b"
  by (simp add: sint_word_ariths signed_take_bit_int_eq_self)

lemma sint_i8_diff: "- 128 \<le> sint a - sint b \<Longrightarrow> sint a - sint b < 128 \<Longrightarrow> sint (a - b :: 8 word) = sint a - sint b"
  by (simp add: sint_word_ariths signed_take_bit_int_eq_self)

lemma sint_i8_max: "sint (i8_max a b) = max (sint a) (sint b)"
  by (simp add: i8_max_def)

lemma sint_i8_min: "sint (i8_min a b) = min (sint a) (sint b)"
  by (simp add: i8_min_def)

lemma uint_i8: "0 \<le> sint p \<Longrightarrow> uint (p :: 8 word) = sint p"
  using sint_less [of p] by (subst uint_sint, intro take_bit_int_eq_self) simp_all

lemma decimal_mul_valid:
  assumes "valid_decimal p1 s1" and "valid_decimal p2 s2"
  shows "uint (i8_min (p1 + p2) 38) = min (uint p1 + uint p2) 38" "sint (s1 + s2) = sint s1 + sint s2"
proof -
  have "sint (p1 + p2) = uint p1 + uint p2"
    using assms by (simp add: valid_decimal_def sint_i8 sint_i8_add)
  then have "sint (i8_min (p1 + p2) 38) = min (uint p1 + uint p2) 38"
    by (simp add: sint_i8_min)
  then show "uint (i8_min (p1 + p2) 38) = min (uint p1 + uint p2) 38"
    using assms by (subst uint_i8) (simp_all add: valid_decimal_def)
  show "sint (s1 + s2) = sint s1 + sint s2"
    using assms by (simp add: valid_decimal_def sint_i8 sint_i8_add)
qed

text \<open>The digits an addition needs: integral digits of the wider operand, the larger scale, a carry.\<close>

definition add_digits :: "8 word \<Rightarrow> 8 word \<Rightarrow> 8 word \<Rightarrow> 8 word \<Rightarrow> int" where
  "add_digits p1 s1 p2 s2 = max (uint p1 - sint s1) (uint p2 - sint s2) + max (sint s1) (sint s2) + 1"

lemma decimal_add_valid:
  assumes "valid_decimal p1 s1" and "valid_decimal p2 s2"
  shows "uint (i8_min (i8_max (p1 - s1) (p2 - s2) + i8_max s1 s2 + 1) 38) = min (add_digits p1 s1 p2 s2) 38"
proof -
  have d: "sint (p1 - s1) = uint p1 - sint s1" "sint (p2 - s2) = uint p2 - sint s2"
    using assms by (simp_all add: valid_decimal_def sint_i8 sint_i8_diff)
  have m: "sint (i8_max (p1 - s1) (p2 - s2) + i8_max s1 s2) =
      max (uint p1 - sint s1) (uint p2 - sint s2) + max (sint s1) (sint s2)"
    using assms by (subst sint_i8_add) (auto simp: d sint_i8_max valid_decimal_def)
  have "sint (i8_max (p1 - s1) (p2 - s2) + i8_max s1 s2 + 1) = add_digits p1 s1 p2 s2"
    using assms by (subst sint_i8_add) (auto simp: m add_digits_def valid_decimal_def)
  then have "sint (i8_min (i8_max (p1 - s1) (p2 - s2) + i8_max s1 s2 + 1) 38) = min (add_digits p1 s1 p2 s2) 38"
    by (simp add: sint_i8_min)
  then show ?thesis
    using assms by (subst uint_i8) (auto simp: add_digits_def valid_decimal_def)
qed

lemma abs_mult_less: "\<bar>x\<bar> < a \<Longrightarrow> \<bar>y\<bar> < b \<Longrightarrow> \<bar>x * y\<bar> < a * (b :: int)"
  by (simp add: abs_mult mult_strict_mono')

lemma fits_mul:
  assumes "fits p1 x" "fits p2 y" "uint p = uint p1 + uint p2"
  shows "fits p (x * y)"
proof -
  have "unat p = unat p1 + unat p2" using assms(3) unfolding uint_nat by linarith
  then show ?thesis using assms(1,2) abs_mult_less [of x "10 ^ unat p1" y "10 ^ unat p2"]
    by (simp add: fits_def power_add)
qed

lemma scaled_less:
  assumes "fits p1 x" "valid_decimal p1 s1" "sint s1 \<le> sint s" "uint p1 - sint s1 + sint s \<le> int n"
  shows "\<bar>x * 10 ^ nat (sint s - sint s1)\<bar> < 10 ^ n"
proof -
  have "unat p1 + nat (sint s - sint s1) \<le> n" using assms(3,4) unfolding uint_nat by linarith
  have "\<bar>x * 10 ^ nat (sint s - sint s1)\<bar> < 10 ^ unat p1 * 10 ^ nat (sint s - sint s1)"
    using assms(1) by (simp add: fits_def abs_mult)
  also have "\<dots> = (10 :: int) ^ (unat p1 + nat (sint s - sint s1))" by (simp add: power_add)
  also have "\<dots> \<le> 10 ^ n"
    using \<open>unat p1 + nat (sint s - sint s1) \<le> n\<close> by (intro power_increasing) simp_all
  finally show ?thesis .
qed

lemma fits_add:
  assumes valid: "valid_decimal p1 s1" "valid_decimal p2 s2" and "fits p1 x" "fits p2 y"
    and s: "sint s = max (sint s1) (sint s2)" and p: "uint p = add_digits p1 s1 p2 s2"
  shows "fits p (x * 10 ^ nat (sint s - sint s1) + y * 10 ^ nat (sint s - sint s2))"
proof -
  define n where "n = unat p - 1"
  have pos: "1 \<le> uint p" using valid p by (auto simp: add_digits_def valid_decimal_def)
  then have n: "int n = uint p - 1" "unat p = Suc n" unfolding n_def uint_nat by linarith+
  have "\<bar>x * 10 ^ nat (sint s - sint s1)\<bar> < 10 ^ n" "\<bar>y * 10 ^ nat (sint s - sint s2)\<bar> < 10 ^ n"
    using scaled_less [OF assms(3) valid(1), of s n] scaled_less [OF assms(4) valid(2), of s n]
    by (simp_all add: s n p add_digits_def)
  then have "\<bar>x * 10 ^ nat (sint s - sint s1) + y * 10 ^ nat (sint s - sint s2)\<bar> < 2 * 10 ^ n" by linarith
  also have "\<dots> \<le> (10 :: int) ^ unat p" by (simp add: n)
  finally show ?thesis by (simp add: fits_def)
qed

lemma decimal_add_exact:
  assumes "valid_decimal p1 s1" and "valid_decimal p2 s2"
    and "decimal_arithmetic_result_type p1 s1 p2 s2 ''add'' = DDecimal128 p s"
  shows "valid_decimal p s" and "add_digits p1 s1 p2 s2 \<le> 38 \<Longrightarrow> fits p1 x \<Longrightarrow> fits p2 y \<Longrightarrow>
    fits p (x * 10 ^ nat (sint s - sint s1) + y * 10 ^ nat (sint s - sint s2))"
proof -
  have s: "sint s = max (sint s1) (sint s2)" and p: "uint p = min (add_digits p1 s1 p2 s2) 38"
    using assms(3) decimal_add_valid [OF assms(1,2)]
    by (auto simp: decimal_arithmetic_result_type_def Let_def sint_i8_max)
  show "valid_decimal p s" using assms(1,2) unfolding valid_decimal_def p s add_digits_def by auto
  show "fits p (x * 10 ^ nat (sint s - sint s1) + y * 10 ^ nat (sint s - sint s2))"
    if "add_digits p1 s1 p2 s2 \<le> 38" "fits p1 x" "fits p2 y"
    using fits_add [OF assms(1,2) that(2,3) s, of p] that(1) p by simp
qed

lemma decimal_mul_exact:
  assumes "valid_decimal p1 s1" and "valid_decimal p2 s2"
    and "decimal_arithmetic_result_type p1 s1 p2 s2 ''mul'' = DDecimal128 p s"
  shows "valid_decimal p s \<longleftrightarrow> sint s1 + sint s2 \<le> 38"
    and "uint p1 + uint p2 \<le> 38 \<Longrightarrow> fits p1 x \<Longrightarrow> fits p2 y \<Longrightarrow> fits p (x * y)"
proof -
  have s: "sint s = sint s1 + sint s2" and p: "uint p = min (uint p1 + uint p2) 38"
    using assms(3) decimal_mul_valid [OF assms(1,2)] by (auto simp: decimal_arithmetic_result_type_def)
  show "valid_decimal p s \<longleftrightarrow> sint s1 + sint s2 \<le> 38"
    using assms(1,2) unfolding valid_decimal_def p s by auto
  show "fits p (x * y)" if "uint p1 + uint p2 \<le> 38" "fits p1 x" "fits p2 y"
    using fits_mul [OF that(2,3), of p] that(1) p by simp
qed

lemma decimal_div_valid:
  assumes "valid_decimal p1 s1" and "decimal_arithmetic_result_type p1 s1 p2 s2 ''div'' = DDecimal128 p s"
  shows "valid_decimal p s"
proof -
  have "sint (s1 + 6) = sint s1 + 6" if "sint s1 \<le> 6"
    using that assms(1) by (subst sint_i8_add) (auto simp: valid_decimal_def)
  with assms show ?thesis
    by (auto simp: decimal_arithmetic_result_type_def valid_decimal_def split: if_splits)
qed

lemma decimal_result_decimal: "\<exists>p s. decimal_arithmetic_result_type p1 s1 p2 s2 op = DDecimal128 p s"
  by (simp add: decimal_arithmetic_result_type_def Let_def)

subsection \<open>Properties\<close>

text \<open>
  (C28) Type descriptors. The descriptor written for a type reads back as the type's canonical
  form: nullable fields without metadata, \<open>item\<close>, \<open>key\<close> and \<open>value\<close> as names, microsecond
  timestamps, decimals above 38 digits in 256 bits. Every type that lowering a descriptor gives
  is canonical, has a descriptor and survives the trip unchanged.
\<close>

theorem type_desc_roundtrip:
  "(\<forall>d. arrow_type_to_type_desc t = Inr d \<longrightarrow> arrow_type_from_desc d = Some (canonical_type t)) \<and>
   ((\<exists>d. arrow_type_from_desc d = Some t) \<longrightarrow>
      (\<exists>d. arrow_type_to_type_desc t = Inr d \<and> arrow_type_from_desc d = Some t))"
proof -
  have read: "arrow_type_from_desc d = Some (canonical_type t)" if desc: "arrow_type_to_type_desc t = Inr d" for d
  proof -
    obtain nodes where "append_arrow_type_nodes t [] = Inr nodes" and d: "d = Some nodes"
      using desc by (auto simp: arrow_type_to_type_desc_def rust_results)
    then have "reads_as nodes (canonical_type t)" using append_nodes_appends(1) unfolding appends_def by fastforce
    then have "arrow_type_from_nodes nodes 0 = Some (canonical_type t, length nodes)"
      unfolding reads_as_def using append_Nil append_Nil2 list.size(3) add_0 by metis
    then show ?thesis by (simp add: d arrow_type_from_desc_def)
  qed
  moreover have "describable t \<and> canonical_type t = t" if "arrow_type_from_desc d = Some t" for d
    using that lowered_types(1) by (auto simp: arrow_type_from_desc_def lowered_def split: option.splits)
  ultimately show ?thesis using arrow_type_to_type_desc_total by metis
qed

definition demo_map_type :: data_type where
  "demo_map_type = DMap (new_field ''entries'' (DStruct
     [new_field ''key'' DInt32 True, new_field ''value'' (DDecimal128 10 2) True]) False) False"

theorem type_desc_roundtrip_witness:
  "\<exists>d. arrow_type_to_type_desc demo_map_type = Inr d \<and> arrow_type_from_desc d = Some demo_map_type"
proof -
  obtain d where d: "arrow_type_to_type_desc demo_map_type = Inr d"
    using arrow_type_to_type_desc_total [of demo_map_type] by (auto simp: demo_map_type_def)
  with type_desc_roundtrip [of demo_map_type] have "arrow_type_from_desc d = Some demo_map_type"
    by (simp add: demo_map_type_def)
  with d type_desc_roundtrip [of demo_map_type] show ?thesis by blast
qed

text \<open>
  (C29) Decimal arithmetic. For operands of valid decimal types, the result type of an addition
  or a division is valid; the result type of a multiplication is valid if and only if the scales
  add up to at most 38, since only the precision is capped. Where the precision is not capped, the
  result type holds every exact sum, at the larger scale, and every exact product.
\<close>

theorem decimal_result_exact:
  assumes "valid_decimal p1 s1" and "valid_decimal p2 s2"
    and "decimal_arithmetic_result_type p1 s1 p2 s2 ''add'' = DDecimal128 pa sa"
    and "decimal_arithmetic_result_type p1 s1 p2 s2 ''mul'' = DDecimal128 pm sm"
    and "decimal_arithmetic_result_type p1 s1 p2 s2 ''div'' = DDecimal128 pd sd"
  shows "valid_decimal pa sa \<and> valid_decimal pd sd \<and> (valid_decimal pm sm \<longleftrightarrow> sint s1 + sint s2 \<le> 38) \<and>
    (\<forall>x y. fits p1 x \<longrightarrow> fits p2 y \<longrightarrow>
       (add_digits p1 s1 p2 s2 \<le> 38 \<longrightarrow>
          fits pa (x * 10 ^ nat (sint sa - sint s1) + y * 10 ^ nat (sint sa - sint s2))) \<and>
       (uint p1 + uint p2 \<le> 38 \<longrightarrow> fits pm (x * y)))"
  using decimal_add_exact [OF assms(1,2,3)] decimal_mul_exact [OF assms(1,2,4)] decimal_div_valid [OF assms(1,5)]
  by blast

theorem decimal_result_exact_witness:
  "fits (16 :: 8 word) (1234567 * 10 ^ nat (sint (4 :: 8 word) - sint (2 :: 8 word)) + 89 * 10 ^ nat (sint (4 :: 8 word) - sint (4 :: 8 word)))"
  using decimal_result_exact [of 13 2 10 4 16 4 23 6 38 8]
  by (auto simp: valid_decimal_def decimal_arithmetic_result_type_def i8_max_def i8_min_def add_digits_def fits_def)

definition int_bits :: "data_type \<Rightarrow> nat" where
  "int_bits t = (case t of DInt8 \<Rightarrow> 8 | DInt16 \<Rightarrow> 16 | DInt32 \<Rightarrow> 32 | DInt64 \<Rightarrow> 64 | _ \<Rightarrow> 0)"

text \<open>
  (C30) Unifying integer types. The type two integer types are unified to holds the values of
  both, except that 8 and 16 bits are not ordered: the left one of the two is taken, so the result
  is too narrow exactly when an 8-bit column stands left of a 16-bit one.
\<close>

theorem wider_type_integral:
  assumes "is_integral a" and "is_integral b"
  shows "is_integral (wider_type a b) \<and>
    (max (int_bits a) (int_bits b) \<le> int_bits (wider_type a b) \<longleftrightarrow> \<not> (a = DInt8 \<and> b = DInt16))"
  using assms
  by (auto simp: is_integral_def wider_type.simps wider_scalar_def is_float_def int_bits_def)

theorem wider_type_integral_witness:
  "int_bits (wider_type DInt8 DInt16) < 16 \<and> 16 \<le> int_bits (wider_type DInt16 DInt8)"
  using wider_type_integral [of DInt8 DInt16] wider_type_integral [of DInt16 DInt8]
  by (simp add: is_integral_def int_bits_def)

end
