(* ===== verification/Chunk_Schema.thy ===== *)
theory Chunk_Schema
  imports Arrow_Types
begin

text \<open>
  Schemas of chunks: \<open>src/src/exec/chunk/schema.rs\<close> and the constructors of
  \<open>src/src/exec/chunk/chunk_impl.rs\<close>. A slot pairs an Arrow field with a tree of type descriptors;
  a chunk schema indexes its slots by their ids; a chunk is a record batch with a schema aligned
  to it. The memory accounting of a chunk is modelled with the memory trackers.
\<close>

type_synonym slot_id = "32 word"

subsection \<open>Field schemas\<close>

datatype chunk_field_schema =
  ChunkFieldSchema (cfs_desc: "type_desc option") (cfs_children: "chunk_field_schema list")

datatype schema_error =
    DescMissingNodes | DescTrailingNodes nat nat | DescEnded nat | DescMissingStructFields
  | DescUnsupportedNode node_kind | FieldMapNotStruct data_type | FieldMapArity nat
  | SlotMissingDesc slot_id | SlotUnsupportedDesc slot_id | DuplicateSlot slot_id nat
  | SlotIdLength nat nat | MissingSlot slot_id | FieldLength nat nat
  | ContractLength nat nat | FieldMismatch nat | SchemaTypeMismatch data_type data_type
  | MissingSlotAt nat | BatchRejected string | SlotNotInChunk slot_id | SlotIndexInvalid slot_id nat

definition node_slice :: "type_node list \<Rightarrow> nat \<Rightarrow> nat \<Rightarrow> type_node list" where
  "node_slice ns a b = take (b - a) (drop a ns)"

function (sequential) from_desc_nodes :: "type_node list \<Rightarrow> nat \<Rightarrow> schema_error + chunk_field_schema \<times> nat"
  and from_desc_children :: "type_node list \<Rightarrow> nat \<Rightarrow> nat \<Rightarrow> schema_error + chunk_field_schema list \<times> nat"
where
  "from_desc_nodes ns start =
     (if length ns \<le> start then Inl (DescEnded start)
      else case node_type (ns ! start) of
        SCALAR \<Rightarrow> Inr (ChunkFieldSchema (Some (Some [ns ! start])) [], start + 1)
      | STRUCT \<Rightarrow>
          (case node_struct_fields (ns ! start) of
             None \<Rightarrow> Inl DescMissingStructFields
           | Some struct_fields \<Rightarrow>
               (case from_desc_children ns (start + 1) (length struct_fields) of
                  Inl e \<Rightarrow> Inl e
                | Inr (children, cursor) \<Rightarrow>
                    Inr (ChunkFieldSchema (Some (Some (node_slice ns start cursor))) children, cursor)))
      | ARRAY \<Rightarrow>
          (case from_desc_nodes ns (start + 1) of
             Inl e \<Rightarrow> Inl e
           | Inr (item, next) \<Rightarrow>
               Inr (ChunkFieldSchema (Some (Some (node_slice ns start next))) [item], next))
      | MAP \<Rightarrow>
          (case from_desc_nodes ns (start + 1) of
             Inl e \<Rightarrow> Inl e
           | Inr (key, mid) \<Rightarrow>
               (case from_desc_nodes ns mid of
                  Inl e \<Rightarrow> Inl e
                | Inr (val, next) \<Rightarrow>
                    Inr (ChunkFieldSchema (Some (Some (node_slice ns start next))) [key, val], next)))
      | UNKNOWN_NODE k \<Rightarrow> Inl (DescUnsupportedNode (UNKNOWN_NODE k)))"
| "from_desc_children ns cursor 0 = Inr ([], cursor)"
| "from_desc_children ns cursor (Suc n) =
     (case from_desc_nodes ns cursor of
        Inl e \<Rightarrow> Inl e
      | Inr (child, next) \<Rightarrow>
          (case from_desc_children ns next n of
             Inl e \<Rightarrow> Inl e
           | Inr (children, c) \<Rightarrow> Inr (child # children, c)))"
  by pat_completeness auto

lemma from_desc_progress:
  "from_desc_nodes_from_desc_children_dom (Inl (ns, start)) \<Longrightarrow>
     from_desc_nodes ns start = Inr (f, c) \<Longrightarrow> start < c"
  "from_desc_nodes_from_desc_children_dom (Inr (ns, start, n)) \<Longrightarrow>
     from_desc_children ns start n = Inr (fs, c) \<Longrightarrow> start \<le> c"
proof (induction ns start and ns start n arbitrary: f c and fs c rule: from_desc_nodes_from_desc_children.pinduct)
  case (1 ns start)
  then show ?case
    by (auto simp: from_desc_nodes.psimps split: if_splits node_kind.splits option.splits sum.splits) force+
qed (auto simp: from_desc_children.psimps split: sum.splits, force+)

termination from_desc_nodes
  by (relation "measures
      [\<lambda>x. case x of Inl (ns, c) \<Rightarrow> length ns - c | Inr (ns, c, _) \<Rightarrow> length ns - c,
       \<lambda>x. case x of Inl _ \<Rightarrow> 0 | Inr (_, _, n) \<Rightarrow> Suc n]")
    (auto dest: from_desc_progress(1) split: if_splits)

declare from_desc_nodes.simps [simp del]

definition field_schema_from_type_desc :: "type_desc \<Rightarrow> schema_error + chunk_field_schema" where
  "field_schema_from_type_desc desc =
     (case desc of
        None \<Rightarrow> Inl DescMissingNodes
      | Some nodes \<Rightarrow>
          (case from_desc_nodes nodes 0 of
             Inl e \<Rightarrow> Inl e
           | Inr (field_schema, next) \<Rightarrow>
               if next \<noteq> length nodes then Inl (DescTrailingNodes next (length nodes))
               else Inr field_schema))"

definition field_schema_try_new :: "type_desc option \<Rightarrow> schema_error + chunk_field_schema" where
  "field_schema_try_new d =
     (case d of Some desc \<Rightarrow> field_schema_from_type_desc desc | None \<Rightarrow> Inr (ChunkFieldSchema None []))"

fun from_arrow_data_type :: "data_type \<Rightarrow> schema_error + chunk_field_schema"
  and from_arrow_fields :: "field list \<Rightarrow> schema_error + chunk_field_schema list" where
  "from_arrow_data_type t =
     (case t of
        DStruct fs \<Rightarrow> result_bind (from_arrow_fields fs) (\<lambda>cs. Inr (ChunkFieldSchema None cs))
      | DList (Field _ item _ _) \<Rightarrow> result_bind (from_arrow_data_type item) (\<lambda>c. Inr (ChunkFieldSchema None [c]))
      | DLargeList (Field _ item _ _) \<Rightarrow> result_bind (from_arrow_data_type item) (\<lambda>c. Inr (ChunkFieldSchema None [c]))
      | DMap (Field _ entries _ _) _ \<Rightarrow>
          (case entries of
             DStruct [Field _ k _ _, Field _ v _ _] \<Rightarrow>
               result_bind (from_arrow_data_type k) (\<lambda>ck.
               result_bind (from_arrow_data_type v) (\<lambda>cv. Inr (ChunkFieldSchema None [ck, cv])))
           | DStruct fs \<Rightarrow> Inl (FieldMapArity (length fs))
           | _ \<Rightarrow> Inl (FieldMapNotStruct entries))
      | _ \<Rightarrow> Inr (ChunkFieldSchema None []))"
| "from_arrow_fields [] = Inr []"
| "from_arrow_fields (Field _ t _ _ # fs) =
     result_bind (from_arrow_data_type t) (\<lambda>c. result_bind (from_arrow_fields fs) (\<lambda>cs. Inr (c # cs)))"

declare from_arrow_data_type.simps [simp del]

definition field_schema_primitive :: "chunk_field_schema \<Rightarrow> primitive_type option" where
  "field_schema_primitive f = Option.bind (cfs_desc f) primitive_type_from_desc"

definition json_semantic :: "chunk_field_schema \<Rightarrow> bool" where
  "json_semantic f \<longleftrightarrow> field_schema_primitive f = Some T_JSON"

definition struct_child :: "chunk_field_schema \<Rightarrow> nat \<Rightarrow> chunk_field_schema option" where
  "struct_child f i = (if i < length (cfs_children f) then Some (cfs_children f ! i) else None)"

subsection \<open>Slots\<close>

record slot_schema =
  slot_id :: slot_id
  slot_field :: field
  slot_field_schema :: chunk_field_schema
  slot_unique_id :: "int option"

definition slot_try_new_with_field ::
  "slot_id \<Rightarrow> field \<Rightarrow> chunk_field_schema option \<Rightarrow> int option \<Rightarrow> schema_error + slot_schema" where
  "slot_try_new_with_field i f fs u =
     result_bind (case fs of Some schema \<Rightarrow> Inr schema | None \<Rightarrow> from_arrow_data_type (fld_type f))
       (\<lambda>schema. Inr \<lparr>slot_id = i, slot_field = f, slot_field_schema = schema, slot_unique_id = u\<rparr>)"

definition slot_from_type_desc ::
  "slot_id \<Rightarrow> string \<Rightarrow> bool \<Rightarrow> type_desc \<Rightarrow> int option \<Rightarrow> schema_error + slot_schema" where
  "slot_from_type_desc i name nullable desc u =
     result_bind (field_schema_from_type_desc desc) (\<lambda>schema.
     result_bind (ok_or (arrow_type_from_desc desc) (SlotUnsupportedDesc i)) (\<lambda>t.
       slot_try_new_with_field i (new_field name t nullable) (Some schema) u))"

definition slot_try_new ::
  "slot_id \<Rightarrow> string \<Rightarrow> bool \<Rightarrow> type_desc option \<Rightarrow> int option \<Rightarrow> schema_error + slot_schema" where
  "slot_try_new i name nullable d u =
     (case d of None \<Rightarrow> Inl (SlotMissingDesc i) | Some desc \<Rightarrow> slot_from_type_desc i name nullable desc u)"

definition slot_with_nullable :: "bool \<Rightarrow> slot_schema \<Rightarrow> slot_schema" where
  "slot_with_nullable nullable s =
     (case slot_field s of
        Field n t b m \<Rightarrow> if b = nullable then s else s\<lparr>slot_field := Field n t nullable m\<rparr>)"

definition slot_from_field :: "slot_id \<Rightarrow> field \<Rightarrow> int option \<Rightarrow> schema_error + slot_schema" where
  "slot_from_field i f u = slot_try_new_with_field i f None u"

definition slot_with_field_and_slot_id :: "slot_id \<Rightarrow> field \<Rightarrow> slot_schema \<Rightarrow> schema_error + slot_schema" where
  "slot_with_field_and_slot_id i f s = slot_try_new_with_field i f (Some (slot_field_schema s)) (slot_unique_id s)"

definition slot_with_field :: "field \<Rightarrow> slot_schema \<Rightarrow> schema_error + slot_schema" where
  "slot_with_field f s = slot_try_new_with_field (slot_id s) f (Some (slot_field_schema s)) (slot_unique_id s)"

definition slot_with_slot_id :: "slot_id \<Rightarrow> slot_schema \<Rightarrow> schema_error + slot_schema" where
  "slot_with_slot_id i s =
     slot_try_new_with_field i (slot_field s) (Some (slot_field_schema s)) (slot_unique_id s)"

subsection \<open>Chunk schemas\<close>

record chunk_schema =
  cs_slots :: "slot_schema list"
  cs_arrow_schema :: "field list"
  cs_slot_ids :: "slot_id list"
  cs_index_by_slot :: "slot_id \<rightharpoonup> nat"

definition empty_schema :: chunk_schema where
  "empty_schema = \<lparr>cs_slots = [], cs_arrow_schema = [], cs_slot_ids = [], cs_index_by_slot = Map.empty\<rparr>"

definition schema_insert_slot ::
  "nat \<times> slot_schema \<Rightarrow> chunk_schema \<Rightarrow> schema_error option \<times> chunk_schema" where
  "schema_insert_slot is cs =
     (case is of (idx, slot) \<Rightarrow>
        if cs_index_by_slot cs (slot_id slot) \<noteq> None then (Some (DuplicateSlot (slot_id slot) idx), cs)
        else (None, cs\<lparr>cs_index_by_slot := (cs_index_by_slot cs)(slot_id slot \<mapsto> idx),
                       cs_slot_ids := cs_slot_ids cs @ [slot_id slot],
                       cs_arrow_schema := cs_arrow_schema cs @ [slot_field slot]\<rparr>))"

definition schema_try_new :: "slot_schema list \<Rightarrow> schema_error + chunk_schema" where
  "schema_try_new slots =
     (case for_each schema_insert_slot (zip [0..<length slots] slots) empty_schema of
        (Some e, _) \<Rightarrow> Inl e
      | (None, cs) \<Rightarrow> Inr (cs\<lparr>cs_slots := slots\<rparr>))"

definition schema_slot :: "chunk_schema \<Rightarrow> slot_id \<Rightarrow> slot_schema option" where
  "schema_slot cs i =
     Option.bind (cs_index_by_slot cs i) (\<lambda>idx. if idx < length (cs_slots cs) then Some (cs_slots cs ! idx) else None)"

fun collect_ok :: "('e + 'a) list \<Rightarrow> 'e + 'a list" where
  "collect_ok [] = Inr []"
| "collect_ok (r # rs) = result_bind r (\<lambda>x. result_bind (collect_ok rs) (\<lambda>xs. Inr (x # xs)))"

definition schema_from_slot_ids :: "field list \<Rightarrow> slot_id list \<Rightarrow> schema_error + chunk_schema" where
  "schema_from_slot_ids fs ids =
     (if length fs \<noteq> length ids then Inl (SlotIdLength (length fs) (length ids))
      else result_bind (collect_ok (map2 (\<lambda>f i. slot_from_field i f None) fs ids)) schema_try_new)"

definition project_by_slots :: "chunk_schema \<Rightarrow> slot_id list \<Rightarrow> schema_error + chunk_schema" where
  "project_by_slots cs ids =
     result_bind (collect_ok (map (\<lambda>i. ok_or (schema_slot cs i) (MissingSlot i)) ids)) schema_try_new"

definition with_fields_in_order :: "chunk_schema \<Rightarrow> field list \<Rightarrow> schema_error + chunk_schema" where
  "with_fields_in_order cs fs =
     (if length fs \<noteq> length (cs_slots cs) then Inl (FieldLength (length fs) (length (cs_slots cs)))
      else result_bind (collect_ok (map2 (\<lambda>s f. slot_with_field f s) (cs_slots cs) fs)) schema_try_new)"

definition schema_concat :: "chunk_schema list \<Rightarrow> schema_error + chunk_schema" where
  "schema_concat parts = schema_try_new (concat (map cs_slots parts))"

subsection \<open>Type compatibility and reconciliation\<close>

fun is_compatible_chunk_field_type :: "data_type \<Rightarrow> data_type \<Rightarrow> bool"
  and compatible_fields :: "field list \<Rightarrow> field list \<Rightarrow> bool" where
  "is_compatible_chunk_field_type expected actual =
     (case expected of
        DDecimal128 _ _ \<Rightarrow> (case actual of DDecimal128 _ _ \<Rightarrow> True | _ \<Rightarrow> False)
      | DDecimal256 _ _ \<Rightarrow> (case actual of DDecimal256 _ _ \<Rightarrow> True | _ \<Rightarrow> False)
      | DTimestamp _ _ \<Rightarrow> (case actual of DTimestamp _ _ \<Rightarrow> True | _ \<Rightarrow> False)
      | DUtf8 \<Rightarrow> actual = DBinary \<or> actual = DUtf8
      | DBinary \<Rightarrow> actual = DUtf8 \<or> actual = DBinary
      | DList (Field _ t _ _) \<Rightarrow>
          (case actual of DList (Field _ t' _ _) \<Rightarrow> is_compatible_chunk_field_type t t' | _ \<Rightarrow> False)
      | DLargeList (Field _ t _ _) \<Rightarrow>
          (case actual of DLargeList (Field _ t' _ _) \<Rightarrow> is_compatible_chunk_field_type t t' | _ \<Rightarrow> False)
      | DMap (Field _ t _ _) _ \<Rightarrow>
          (case actual of DMap (Field _ t' _ _) _ \<Rightarrow> is_compatible_chunk_field_type t t' | _ \<Rightarrow> False)
      | DStruct fs \<Rightarrow>
          (case actual of DStruct fs' \<Rightarrow> length fs = length fs' \<and> compatible_fields fs fs' | _ \<Rightarrow> False)
      | _ \<Rightarrow> expected = actual)"
| "compatible_fields (Field _ t _ _ # fs) (Field _ t' _ _ # fs') =
     (is_compatible_chunk_field_type t t' \<and> compatible_fields fs fs')"
| "compatible_fields _ _ = True"

declare is_compatible_chunk_field_type.simps [simp del]

fun reconcile_chunk_data_type :: "data_type \<Rightarrow> data_type \<Rightarrow> schema_error + data_type"
  and reconcile_chunk_field_to_field :: "field \<Rightarrow> field \<Rightarrow> schema_error + field"
  and reconcile_fields :: "field list \<Rightarrow> field list \<Rightarrow> schema_error + field list" where
  "reconcile_chunk_data_type expected actual =
     (if expected = actual then Inr expected
      else case expected of
        DDecimal128 _ _ \<Rightarrow>
          (case actual of DDecimal128 _ _ \<Rightarrow> Inr actual | _ \<Rightarrow> Inl (SchemaTypeMismatch expected actual))
      | DDecimal256 _ _ \<Rightarrow>
          (case actual of DDecimal256 _ _ \<Rightarrow> Inr actual | _ \<Rightarrow> Inl (SchemaTypeMismatch expected actual))
      | DTimestamp _ _ \<Rightarrow>
          (case actual of DTimestamp _ _ \<Rightarrow> Inr actual | _ \<Rightarrow> Inl (SchemaTypeMismatch expected actual))
      | DUtf8 \<Rightarrow> if actual = DBinary then Inr actual else Inl (SchemaTypeMismatch expected actual)
      | DBinary \<Rightarrow> if actual = DUtf8 then Inr actual else Inl (SchemaTypeMismatch expected actual)
      | DList f \<Rightarrow>
          (case actual of
             DList f' \<Rightarrow> result_bind (reconcile_chunk_field_to_field f f') (\<lambda>g. Inr (DList g))
           | _ \<Rightarrow> Inl (SchemaTypeMismatch expected actual))
      | DLargeList f \<Rightarrow>
          (case actual of
             DLargeList f' \<Rightarrow> result_bind (reconcile_chunk_field_to_field f f') (\<lambda>g. Inr (DLargeList g))
           | _ \<Rightarrow> Inl (SchemaTypeMismatch expected actual))
      | DMap f ord \<Rightarrow>
          (case actual of
             DMap f' ord' \<Rightarrow>
               if ord = ord' then result_bind (reconcile_chunk_field_to_field f f') (\<lambda>g. Inr (DMap g ord))
               else Inl (SchemaTypeMismatch expected actual)
           | _ \<Rightarrow> Inl (SchemaTypeMismatch expected actual))
      | DStruct fs \<Rightarrow>
          (case actual of
             DStruct fs' \<Rightarrow>
               if length fs = length fs' then result_bind (reconcile_fields fs fs') (\<lambda>gs. Inr (DStruct gs))
               else Inl (SchemaTypeMismatch expected actual)
           | _ \<Rightarrow> Inl (SchemaTypeMismatch expected actual))
      | _ \<Rightarrow> Inl (SchemaTypeMismatch expected actual))"
| "reconcile_chunk_field_to_field (Field n t nullable m) actual =
     result_bind (reconcile_chunk_data_type t (fld_type actual)) (\<lambda>t'.
       let nullable' = nullable \<or> fld_nullable actual
       in Inr (if t' = t \<and> nullable' = nullable then Field n t nullable m else new_field n t' nullable'))"
| "reconcile_fields (f # fs) (f' # fs') =
     result_bind (reconcile_chunk_field_to_field f f') (\<lambda>g.
     result_bind (reconcile_fields fs fs') (\<lambda>gs. Inr (g # gs)))"
| "reconcile_fields _ _ = Inr []"

declare reconcile_chunk_data_type.simps [simp del] reconcile_chunk_field_to_field.simps [simp del]

definition reconcile_chunk_field_to_data_type :: "field \<Rightarrow> data_type \<Rightarrow> bool \<Rightarrow> schema_error + field" where
  "reconcile_chunk_field_to_data_type expected actual actual_nullable =
     result_bind (reconcile_chunk_data_type (fld_type expected) actual) (\<lambda>t.
       let nullable = fld_nullable expected \<or> actual_nullable
       in Inr (if t = fld_type expected \<and> nullable = fld_nullable expected then expected
               else new_field (fld_name expected) t nullable))"

subsection \<open>Chunks\<close>

text \<open>Arrow arrays and record batches as far as the engine looks at them.\<close>

record 'v array =
  arr_type :: data_type
  arr_len :: nat
  arr_null_count :: nat
  arr_data :: 'v

record 'v batch =
  batch_schema :: "field list"
  batch_columns :: "'v array list"
  batch_rows :: nat

text \<open>
  \<open>RecordBatch::try_new\<close> belongs to Arrow and is a parameter. It accepts a schema and columns when
  there is a column, the counts and the types agree, the columns are equally long and no column
  of a field that is not nullable has nulls.
\<close>

type_synonym 'v record_batch_new = "field list \<Rightarrow> 'v array list \<Rightarrow> string + 'v batch"

definition batch_accepts :: "field list \<Rightarrow> 'v array list \<Rightarrow> bool" where
  "batch_accepts fs cols \<longleftrightarrow>
     cols \<noteq> [] \<and> length fs = length cols \<and> (\<forall>c \<in> set cols. arr_len c = arr_len (hd cols)) \<and>
     list_all2 (\<lambda>f c. fld_type f = arr_type c \<and> (fld_nullable f \<or> arr_null_count c = 0)) fs cols"

definition record_batch_law :: "'v record_batch_new \<Rightarrow> bool" where
  "record_batch_law try_new \<longleftrightarrow>
     (\<forall>fs cols. if batch_accepts fs cols
        then try_new fs cols = Inr \<lparr>batch_schema = fs, batch_columns = cols, batch_rows = arr_len (hd cols)\<rparr>
        else (\<exists>e. try_new fs cols = Inl e))"

definition align_slot_to_field :: "nat \<Rightarrow> field \<Rightarrow> slot_schema \<Rightarrow> schema_error + slot_schema" where
  "align_slot_to_field idx f expected =
     (let nullable_ok = (fld_nullable f = fld_nullable (slot_field expected) \<or> fld_nullable f)
      in if fld_name f \<noteq> fld_name (slot_field expected) \<or>
            \<not> is_compatible_chunk_field_type (fld_type (slot_field expected)) (fld_type f) \<or> \<not> nullable_ok
         then Inl (FieldMismatch idx)
         else slot_with_field_and_slot_id (slot_id expected) f expected)"

definition align_chunk_schema_to_batch :: "'v batch \<Rightarrow> chunk_schema \<Rightarrow> schema_error + chunk_schema" where
  "align_chunk_schema_to_batch b cs =
     (if length (batch_columns b) \<noteq> length (cs_slots cs)
      then Inl (ContractLength (length (batch_columns b)) (length (cs_slots cs)))
      else result_bind
        (collect_ok (map (\<lambda>idx. if idx < length (cs_slots cs)
             then align_slot_to_field idx (batch_schema b ! idx) (cs_slots cs ! idx)
             else Inl (MissingSlotAt idx)) [0..<length (batch_schema b)]))
        schema_try_new)"

definition align_chunk_schema_to_columns :: "'v array list \<Rightarrow> chunk_schema \<Rightarrow> schema_error + chunk_schema" where
  "align_chunk_schema_to_columns cols cs =
     (if length cols \<noteq> length (cs_slots cs) then Inl (ContractLength (length cols) (length (cs_slots cs)))
      else result_bind
        (collect_ok (map2 (\<lambda>c expected.
           result_bind (reconcile_chunk_field_to_data_type (slot_field expected) (arr_type c) (0 < arr_null_count c))
             (\<lambda>f. slot_with_field_and_slot_id (slot_id expected) f expected)) cols (cs_slots cs)))
        schema_try_new)"

record 'v data_chunk =
  ck_batch :: "'v batch"
  ck_schema :: chunk_schema

definition try_new_with_chunk_schema :: "'v batch \<Rightarrow> chunk_schema \<Rightarrow> schema_error + 'v data_chunk" where
  "try_new_with_chunk_schema b cs =
     result_bind (align_chunk_schema_to_batch b cs) (\<lambda>cs'. Inr \<lparr>ck_batch = b, ck_schema = cs'\<rparr>)"

definition try_new_with_columns ::
  "'v record_batch_new \<Rightarrow> chunk_schema \<Rightarrow> 'v array list \<Rightarrow> schema_error + 'v data_chunk" where
  "try_new_with_columns record_batch_new cs cols =
     result_bind (align_chunk_schema_to_columns cols cs) (\<lambda>cs'.
     result_bind (case record_batch_new (cs_arrow_schema cs') cols of Inl e \<Rightarrow> Inl (BatchRejected e) | Inr b \<Rightarrow> Inr b)
       (\<lambda>b. try_new_with_chunk_schema b cs'))"

definition try_new_like :: "'v batch \<Rightarrow> 'v data_chunk \<Rightarrow> schema_error + 'v data_chunk" where
  "try_new_like b source = try_new_with_chunk_schema b (ck_schema source)"

definition column_by_slot_id :: "'v data_chunk \<Rightarrow> slot_id \<Rightarrow> schema_error + 'v array" where
  "column_by_slot_id c i =
     result_bind (ok_or (cs_index_by_slot (ck_schema c) i) (SlotNotInChunk i)) (\<lambda>idx.
       if idx < length (batch_columns (ck_batch c)) then Inr (batch_columns (ck_batch c) ! idx)
       else Inl (SlotIndexInvalid i idx))"

subsection \<open>Schemas index their slots\<close>

definition schema_of :: "slot_schema list \<Rightarrow> chunk_schema" where
  "schema_of slots = \<lparr>cs_slots = slots, cs_arrow_schema = map slot_field slots, cs_slot_ids = map slot_id slots,
     cs_index_by_slot = map_of (zip (map slot_id slots) [0..<length slots])\<rparr>"

lemma map_of_zip_snoc:
  "length xs = length ys \<Longrightarrow> x \<notin> set xs \<Longrightarrow> map_of (zip (xs @ [x]) (ys @ [y])) = (map_of (zip xs ys))(x \<mapsto> y)"
  by (induction xs ys rule: list_induct2) (auto simp: fun_upd_twist)

lemma schema_insert_step:
  "schema_insert_slot (length xs, x) ((schema_of xs)\<lparr>cs_slots := []\<rparr>) =
     (if slot_id x \<in> set (map slot_id xs)
      then (Some (DuplicateSlot (slot_id x) (length xs)), (schema_of xs)\<lparr>cs_slots := []\<rparr>)
      else (None, (schema_of (xs @ [x]))\<lparr>cs_slots := []\<rparr>))"
proof -
  have "cs_index_by_slot ((schema_of xs)\<lparr>cs_slots := []\<rparr>) (slot_id x) = None \<longleftrightarrow> slot_id x \<notin> set (map slot_id xs)"
    by (simp add: schema_of_def map_of_zip_is_None del: map_of_eq_None_iff)
  then show ?thesis
    by (simp add: schema_insert_slot_def schema_of_def map_of_zip_snoc del: zip_append map_of_eq_None_iff)
qed

lemma schema_insert_all:
  "for_each schema_insert_slot (zip [0..<length slots] slots) empty_schema =
     (None, (schema_of slots)\<lparr>cs_slots := []\<rparr>) \<and> distinct (map slot_id slots) \<or>
   (\<exists>e cs. for_each schema_insert_slot (zip [0..<length slots] slots) empty_schema = (Some e, cs)) \<and>
     \<not> distinct (map slot_id slots)"
proof (induction slots rule: rev_induct)
  case Nil
  show ?case by (simp add: empty_schema_def schema_of_def)
next
  case (snoc x xs)
  have "for_each schema_insert_slot (zip [0..<length (xs @ [x])] (xs @ [x])) empty_schema =
      (case for_each schema_insert_slot (zip [0..<length xs] xs) empty_schema of
         (Some e, s') \<Rightarrow> (Some e, s') | (None, s') \<Rightarrow> for_each schema_insert_slot [(length xs, x)] s')"
    by (simp add: for_each_append)
  with snoc.IH show ?case by (auto simp: schema_insert_step)
qed

lemma schema_try_new_eq:
  "schema_try_new slots = Inr cs \<longleftrightarrow> distinct (map slot_id slots) \<and> cs = schema_of slots"
  using schema_insert_all [of slots] by (auto simp: schema_try_new_def schema_of_def)

lemma schema_of_simps [simp]:
  "cs_slots (schema_of slots) = slots" "cs_arrow_schema (schema_of slots) = map slot_field slots"
  "cs_slot_ids (schema_of slots) = map slot_id slots"
  by (simp_all add: schema_of_def)

lemma schema_index:
  assumes "distinct (map slot_id slots)" and "k < length slots"
  shows "cs_index_by_slot (schema_of slots) (slot_id (slots ! k)) = Some k"
proof -
  have "map_of (zip (map slot_id slots) [0..<length slots]) (map slot_id slots ! k) = Some ([0..<length slots] ! k)"
    using assms by (intro map_of_zip_nth) simp_all
  with assms(2) show ?thesis by (simp add: schema_of_def)
qed

lemma schema_slot_lookup:
  assumes "distinct (map slot_id slots)" and "x \<in> set slots"
  shows "schema_slot (schema_of slots) (slot_id x) = Some x"
  using assms schema_index by (auto simp: schema_slot_def in_set_conv_nth)

lemma schema_slot_Some:
  "schema_slot (schema_of slots) i = Some x \<Longrightarrow> x \<in> set slots"
  by (auto simp: schema_slot_def split: if_splits bind_splits)

lemma collect_ok_eq_Inr:
  "collect_ok rs = Inr xs \<longleftrightarrow> rs = map Inr xs"
  by (induction rs arbitrary: xs) (auto simp: rust_results Cons_eq_map_conv)

subsection \<open>Descriptors and field schemas walk the same nodes\<close>

text \<open>The types below a type, none where a map's entries have another form.\<close>

definition child_types :: "data_type \<Rightarrow> data_type list option" where
  "child_types t =
     (case t of
        DStruct fs \<Rightarrow> Some (map fld_type fs)
      | DList f \<Rightarrow> Some [fld_type f]
      | DLargeList f \<Rightarrow> Some [fld_type f]
      | DMap f _ \<Rightarrow> (case fld_type f of DStruct [k, v] \<Rightarrow> Some [fld_type k, fld_type v] | _ \<Rightarrow> None)
      | _ \<Rightarrow> Some [])"

text \<open>A field schema has the shape of a type, and its descriptors satisfy a condition at every level.\<close>

fun schema_fits :: "(type_desc option \<Rightarrow> data_type \<Rightarrow> bool) \<Rightarrow> chunk_field_schema \<Rightarrow> data_type \<Rightarrow> bool"
  and schemas_fit :: "(type_desc option \<Rightarrow> data_type \<Rightarrow> bool) \<Rightarrow> chunk_field_schema list \<Rightarrow> data_type list \<Rightarrow> bool" where
  "schema_fits P (ChunkFieldSchema d cs) t \<longleftrightarrow>
     P d t \<and> (case child_types t of None \<Rightarrow> False | Some ts \<Rightarrow> schemas_fit P cs ts)"
| "schemas_fit P [] ts \<longleftrightarrow> ts = []"
| "schemas_fit P (c # cs) ts \<longleftrightarrow> (case ts of [] \<Rightarrow> False | t # ts' \<Rightarrow> schema_fits P c t \<and> schemas_fit P cs ts')"

abbreviation well_shaped :: "chunk_field_schema \<Rightarrow> data_type \<Rightarrow> bool" where
  "well_shaped \<equiv> schema_fits (\<lambda>d t. True)"

abbreviation described :: "chunk_field_schema \<Rightarrow> data_type \<Rightarrow> bool" where
  "described \<equiv> schema_fits (\<lambda>d t. \<exists>desc. d = Some desc \<and> arrow_type_from_desc desc = Some t)"

lemma schema_fits_mono:
  "schema_fits P f t \<Longrightarrow> (\<And>d t. P d t \<Longrightarrow> Q d t) \<Longrightarrow> schema_fits Q f t"
  "schemas_fit P fs ts \<Longrightarrow> (\<And>d t. P d t \<Longrightarrow> Q d t) \<Longrightarrow> schemas_fit Q fs ts"
  by (induction P f t and P fs ts rule: schema_fits_schemas_fit.induct) (auto split: option.splits list.splits)

definition nodes_agree :: "type_node list \<Rightarrow> nat \<Rightarrow> nat \<Rightarrow> type_node list \<Rightarrow> nat \<Rightarrow> bool" where
  "nodes_agree ns a b ns' e \<longleftrightarrow> (\<forall>i. a \<le> i \<and> i < b \<longrightarrow> e + (i - a) < length ns' \<and> ns' ! (e + (i - a)) = ns ! i)"

lemma nodes_agree_sub:
  "nodes_agree ns a b ns' e \<Longrightarrow> a \<le> c \<Longrightarrow> d \<le> b \<Longrightarrow> nodes_agree ns c d ns' (e + (c - a))"
  by (force simp: nodes_agree_def)

lemma nodes_agree_hd: "nodes_agree ns a b ns' e \<Longrightarrow> a < b \<Longrightarrow> e < length ns' \<and> ns' ! e = ns ! a"
  by (force simp: nodes_agree_def)

lemma nodes_agree_slice: "b \<le> length ns \<Longrightarrow> nodes_agree ns a b (node_slice ns a b) 0"
  by (auto simp: nodes_agree_def node_slice_def)

text \<open>The walk only looks at the nodes it consumes.\<close>

lemma arrow_walk_local:
  "arrow_type_from_nodes ns a = Some (t, b) \<Longrightarrow> nodes_agree ns a b ns' e \<Longrightarrow>
     arrow_type_from_nodes ns' e = Some (t, e + (b - a))"
  "arrow_field_from_nodes_with_name ns a name nullable = Some (f, b) \<Longrightarrow> nodes_agree ns a b ns' e \<Longrightarrow>
     arrow_field_from_nodes_with_name ns' e name nullable = Some (f, e + (b - a))"
  "arrow_struct_fields ns a fs = Some (out, b) \<Longrightarrow> nodes_agree ns a b ns' e \<Longrightarrow>
     arrow_struct_fields ns' e fs = Some (out, e + (b - a))"
proof (induction ns a and ns a name nullable and ns a fs arbitrary: t b e and f b e and out b e
    rule: arrow_type_from_nodes_arrow_field_from_nodes_with_name_arrow_struct_fields.induct)
  case (1 ns a)
  note step = 1(5) [unfolded arrow_type_from_nodes.simps [of ns]]
  have ab: "a < b" "\<not> length ns \<le> a" using arrow_cursor_moves(1) [OF 1(5)] step by (auto split: if_splits)
  have hd: "\<not> length ns' \<le> e" "ns' ! e = ns ! a" using nodes_agree_hd [OF 1(6) ab(1)] by auto
  have tail: "nodes_agree ns (a + 1) c ns' (e + 1)" if "c \<le> b" for c
    using nodes_agree_sub [OF 1(6), of "a + 1" c] that by simp
  have fin: "e + 1 + (b - (a + 1)) = e + (b - a)" using ab by simp
  show ?case
  proof (cases "node_type (ns ! a)")
    case SCALAR
    with step ab hd show ?thesis by (auto simp: arrow_type_from_nodes.simps [of ns'] split: option.splits)
  next
    case ARRAY
    then obtain f where f: "arrow_field_from_nodes_with_name ns (a + 1) ''item'' True = Some (f, b)" and t: "t = DList f"
      using step ab by (auto split: option.splits)
    from 1(1) [OF ab(2) ARRAY f tail, unfolded fin] ARRAY hd show ?thesis
      by (simp add: arrow_type_from_nodes.simps [of ns'] t)
  next
    case MAP
    then obtain k c v where k: "arrow_field_from_nodes_with_name ns (a + 1) ''key'' True = Some (k, c)"
      and v: "arrow_field_from_nodes_with_name ns c ''value'' True = Some (v, b)"
      and t: "t = DMap (new_field ''entries'' (DStruct [k, v]) False) False"
      using step ab by (auto split: option.splits)
    have c: "a + 1 < c" "c < b" using arrow_cursor_moves(2) [OF k] arrow_cursor_moves(2) [OF v] by auto
    have "arrow_field_from_nodes_with_name ns' (e + 1) ''key'' True = Some (k, e + (c - a))"
      using 1(2) [OF ab(2) MAP k tail] c by simp
    moreover have "arrow_field_from_nodes_with_name ns' (e + (c - a)) ''value'' True = Some (v, e + (b - a))"
      using 1(3) [OF ab(2) MAP k refl v nodes_agree_sub [OF 1(6)]] c by simp
    ultimately show ?thesis using MAP hd by (simp add: arrow_type_from_nodes.simps [of ns'] t)
  next
    case STRUCT
    then obtain sfs out where sfs: "node_struct_fields (ns ! a) = Some sfs"
      and out: "arrow_struct_fields ns (a + 1) sfs = Some (out, b)" and t: "t = DStruct out"
      using step ab by (auto split: option.splits)
    from 1(4) [OF ab(2) STRUCT sfs out tail, unfolded fin] STRUCT sfs hd show ?thesis
      by (simp add: arrow_type_from_nodes.simps [of ns'] t)
  qed (use step ab in simp)
next
  case (4 ns a f fs)
  then obtain name g c out' where name: "sf_name f = Some name"
    and g: "arrow_field_from_nodes_with_name ns a name True = Some (g, c)"
    and rest: "arrow_struct_fields ns c fs = Some (out', b)" and out: "out = g # out'"
    by (auto split: option.splits)
  have c: "a < c" "c \<le> b" using arrow_cursor_moves(2) [OF g] arrow_cursor_moves(3) [OF rest] by auto
  have "arrow_field_from_nodes_with_name ns' e name True = Some (g, e + (c - a))"
    using 4(1) [OF name g] nodes_agree_sub [OF 4(4), of a c] c by simp
  moreover have "arrow_struct_fields ns' (e + (c - a)) fs = Some (out', e + (b - a))"
    using 4(2) [OF name g refl rest nodes_agree_sub [OF 4(4), of c b]] c by simp
  ultimately show ?case using name by (simp add: out)
qed (auto simp: arrow_field_from_nodes_with_name.simps split: option.splits)

lemma slice_lowers:
  assumes "arrow_type_from_nodes ns a = Some (t, b)"
  shows "arrow_type_from_desc (Some (node_slice ns a b)) = Some t"
  using arrow_walk_local(1) [OF assms nodes_agree_slice] arrow_cursor_moves(1) [OF assms]
  by (simp add: arrow_type_from_desc_def)

lemma node_slice_one: "a < length ns \<Longrightarrow> node_slice ns a (Suc a) = [ns ! a]"
  by (simp add: node_slice_def take_Suc_conv_app_nth hd_drop_conv_nth take_Suc)

lemma scalar_child_types: "scalar_arrow_type sc = Some t \<Longrightarrow> child_types t = Some []"
  by (auto simp: scalar_arrow_type_def decimal_arrow_type_def child_types_def
    split: primitive_type.splits option.splits if_splits)

lemma schema_fits_slice:
  assumes "arrow_type_from_nodes ns a = Some (t, b)" and "child_types t = Some ts" and "schemas_fit P cs ts"
    and P: "P = (\<lambda>d t. \<exists>desc. d = Some desc \<and> arrow_type_from_desc desc = Some t)"
  shows "schema_fits P (ChunkFieldSchema (Some (Some (node_slice ns a b))) cs) t"
  using assms(2,3) slice_lowers [OF assms(1)] by (simp add: P)

text \<open>Where a descriptor lowers to an Arrow type, the field schema walk takes the same nodes.\<close>

lemma desc_walks_agree:
  "arrow_type_from_nodes ns a = Some (t, b) \<Longrightarrow> \<exists>f. from_desc_nodes ns a = Inr (f, b) \<and> described f t"
  "arrow_field_from_nodes_with_name ns a name nullable = Some (g, b) \<Longrightarrow>
     \<exists>f. from_desc_nodes ns a = Inr (f, b) \<and> described f (fld_type g)"
  "arrow_struct_fields ns a fs = Some (out, b) \<Longrightarrow>
     \<exists>cs. from_desc_children ns a (length fs) = Inr (cs, b) \<and>
       schemas_fit (\<lambda>d t. \<exists>desc. d = Some desc \<and> arrow_type_from_desc desc = Some t) cs (map fld_type out)"
proof (induction ns a and ns a name nullable and ns a fs arbitrary: t b and g b and out b
    rule: arrow_type_from_nodes_arrow_field_from_nodes_with_name_arrow_struct_fields.induct)
  case (1 ns a)
  note step = 1(5) [unfolded arrow_type_from_nodes.simps [of ns]]
  note fits = schema_fits_slice [OF 1(5) _ _ refl]
  have ab: "\<not> length ns \<le> a" using step by (auto split: if_splits)
  show ?case
  proof (cases "node_type (ns ! a)")
    case SCALAR
    then obtain sc where sc: "scalar_arrow_type sc = Some t" "b = a + 1"
      using step ab by (auto split: option.splits)
    with fits [OF scalar_child_types [OF sc(1)], of "[]"] SCALAR ab show ?thesis
      by (simp add: from_desc_nodes.simps [of ns a] node_slice_one)
  next
    case ARRAY
    then obtain f where f: "arrow_field_from_nodes_with_name ns (a + 1) ''item'' True = Some (f, b)" and t: "t = DList f"
      using step ab by (auto split: option.splits)
    from 1(1) [OF ab ARRAY f] obtain c where "from_desc_nodes ns (a + 1) = Inr (c, b)" "described c (fld_type f)" by blast
    with fits [of "[fld_type f]" "[c]"] ARRAY ab show ?thesis
      by (simp add: from_desc_nodes.simps [of ns a] t child_types_def)
  next
    case MAP
    then obtain k m v where k: "arrow_field_from_nodes_with_name ns (a + 1) ''key'' True = Some (k, m)"
      and v: "arrow_field_from_nodes_with_name ns m ''value'' True = Some (v, b)"
      and t: "t = DMap (new_field ''entries'' (DStruct [k, v]) False) False"
      using step ab by (auto split: option.splits)
    from 1(2) [OF ab MAP k] obtain ck where "from_desc_nodes ns (a + 1) = Inr (ck, m)" "described ck (fld_type k)" by blast
    moreover from 1(3) [OF ab MAP k refl v] obtain cv where "from_desc_nodes ns m = Inr (cv, b)" "described cv (fld_type v)" by blast
    ultimately show ?thesis using fits [of "[fld_type k, fld_type v]" "[ck, cv]"] MAP ab
      by (simp add: from_desc_nodes.simps [of ns a] t child_types_def)
  next
    case STRUCT
    then obtain sfs out where sfs: "node_struct_fields (ns ! a) = Some sfs"
      and out: "arrow_struct_fields ns (a + 1) sfs = Some (out, b)" and t: "t = DStruct out"
      using step ab by (auto split: option.splits)
    from 1(4) [OF ab STRUCT sfs out] obtain cs where "from_desc_children ns (a + 1) (length sfs) = Inr (cs, b)"
      "schemas_fit (\<lambda>d t. \<exists>desc. d = Some desc \<and> arrow_type_from_desc desc = Some t) cs (map fld_type out)" by blast
    with fits [of "map fld_type out" cs] STRUCT sfs ab show ?thesis
      by (simp add: from_desc_nodes.simps [of ns a] t child_types_def)
  qed (use step ab in simp)
next
  case (4 ns a f fs)
  then obtain name g c out' where name: "sf_name f = Some name"
    and g: "arrow_field_from_nodes_with_name ns a name True = Some (g, c)"
    and rest: "arrow_struct_fields ns c fs = Some (out', b)" and out: "out = g # out'"
    by (auto split: option.splits)
  from 4(1) [OF name g] 4(2) [OF name g refl rest] show ?case by (auto simp: out)
qed (auto simp: arrow_field_from_nodes_with_name.simps split: option.splits)

text \<open>Field schemas of Arrow types have their shape, without descriptors.\<close>

lemma from_arrow_well_shaped:
  "from_arrow_data_type t = Inr f \<Longrightarrow> well_shaped f t"
  "from_arrow_fields fs = Inr cs \<Longrightarrow> schemas_fit (\<lambda>d t. True) cs (map fld_type fs)"
proof (induction t and fs arbitrary: f and cs rule: from_arrow_data_type_from_arrow_fields.induct)
  case (1 t)
  then show ?case
    by (subst (asm) from_arrow_data_type.simps)
      (auto simp: child_types_def rust_results split: data_type.splits field.splits list.splits)
qed (auto simp: rust_results)

lemma schemas_fit_Cons2 [simp]:
  "schemas_fit P cs (t # ts) \<longleftrightarrow> (\<exists>c cs'. cs = c # cs' \<and> schema_fits P c t \<and> schemas_fit P cs' ts)"
  "schemas_fit P cs [] \<longleftrightarrow> cs = []"
  by (cases cs; simp)+

lemma well_shaped_map:
  "well_shaped f (DMap g ordered) \<longleftrightarrow> (\<exists>k v. fld_type g = DStruct [k, v]) \<and> well_shaped f (fld_type g)"
  by (cases f) (auto simp: child_types_def split: data_type.splits list.splits)

lemma compatible_struct2:
  "is_compatible_chunk_field_type (DStruct [k, v]) t \<Longrightarrow> \<exists>k' v'. t = DStruct [k', v']"
  by (auto simp: is_compatible_chunk_field_type.simps length_Suc_conv Suc_length_conv split: data_type.splits)

lemma compatible_map:
  "is_compatible_chunk_field_type (DMap g ordered) t \<Longrightarrow>
   \<exists>g' ordered'. t = DMap g' ordered' \<and> is_compatible_chunk_field_type (fld_type g) (fld_type g')"
  by (subst (asm) is_compatible_chunk_field_type.simps) (auto split: data_type.splits field.splits)

lemma compatible_list:
  "is_compatible_chunk_field_type (DList g) t \<Longrightarrow> \<exists>g'. t = DList g' \<and> is_compatible_chunk_field_type (fld_type g) (fld_type g')"
  "is_compatible_chunk_field_type (DLargeList g) t \<Longrightarrow>
     \<exists>g'. t = DLargeList g' \<and> is_compatible_chunk_field_type (fld_type g) (fld_type g')"
  by (subst (asm) is_compatible_chunk_field_type.simps; auto split: data_type.splits field.splits)+

lemma compatible_struct:
  "is_compatible_chunk_field_type (DStruct fs) t \<Longrightarrow> \<exists>fs'. t = DStruct fs' \<and> length fs = length fs' \<and> compatible_fields fs fs'"
  by (subst (asm) is_compatible_chunk_field_type.simps) (auto split: data_type.splits)

definition is_scalar :: "data_type \<Rightarrow> bool" where
  "is_scalar t \<longleftrightarrow> (case t of DList _ \<Rightarrow> False | DLargeList _ \<Rightarrow> False | DMap _ _ \<Rightarrow> False | DStruct _ \<Rightarrow> False | _ \<Rightarrow> True)"

lemma compatible_scalar: "is_compatible_chunk_field_type t t' \<Longrightarrow> is_scalar t \<Longrightarrow> child_types t = Some [] \<and> child_types t' = Some []"
  by (cases t) (auto simp: is_scalar_def is_compatible_chunk_field_type.simps child_types_def split: data_type.splits)

lemma well_shaped_compatible:
  "is_compatible_chunk_field_type t t' \<Longrightarrow> well_shaped f t \<Longrightarrow> well_shaped f t'"
  "compatible_fields fs fs' \<Longrightarrow> length fs = length fs' \<Longrightarrow> schemas_fit (\<lambda>d t. True) cs (map fld_type fs) \<Longrightarrow>
     schemas_fit (\<lambda>d t. True) cs (map fld_type fs')"
proof (induction t t' and fs fs' arbitrary: f and cs rule: is_compatible_chunk_field_type_compatible_fields.induct)
  case (1 t t')
  obtain d cs where f: "f = ChunkFieldSchema d cs" by (cases f)
  consider (map) g ordered where "t = DMap g ordered" | (list) g where "t = DList g" | (large) g where "t = DLargeList g"
    | (struct) fs where "t = DStruct fs" | (scalar) "is_scalar t"
    by (cases t) (auto simp: is_scalar_def)
  then show ?case
  proof cases
    case map
    from compatible_map [OF 1(5) [unfolded map]]
    obtain g' ordered' where t': "t' = DMap g' ordered'" and comp: "is_compatible_chunk_field_type (fld_type g) (fld_type g')" by blast
    from 1(6) obtain k v where kv: "fld_type g = DStruct [k, v]" "well_shaped f (fld_type g)"
      unfolding map well_shaped_map by blast
    have "well_shaped f (fld_type g')" using 1(3) [OF map field.exhaust_sel [of g] t' field.exhaust_sel [of g'] comp kv(2)] .
    then show ?thesis using compatible_struct2 comp kv(1) unfolding t' well_shaped_map by auto
  next
    case list
    from compatible_list(1) [OF 1(5) [unfolded list]]
    obtain g' where t': "t' = DList g'" and comp: "is_compatible_chunk_field_type (fld_type g) (fld_type g')" by blast
    have "well_shaped c (fld_type g')" if "well_shaped c (fld_type g)" for c
      using 1(1) [OF list field.exhaust_sel [of g] t' field.exhaust_sel [of g'] comp that] .
    with 1(6) show ?thesis by (auto simp: f list t' child_types_def)
  next
    case large
    from compatible_list(2) [OF 1(5) [unfolded large]]
    obtain g' where t': "t' = DLargeList g'" and comp: "is_compatible_chunk_field_type (fld_type g) (fld_type g')" by blast
    have "well_shaped c (fld_type g')" if "well_shaped c (fld_type g)" for c
      using 1(2) [OF large field.exhaust_sel [of g] t' field.exhaust_sel [of g'] comp that] .
    with 1(6) show ?thesis by (auto simp: f large t' child_types_def)
  next
    case struct
    from compatible_struct [OF 1(5) [unfolded struct]]
    obtain fs' where t': "t' = DStruct fs'" and comp: "length fs = length fs'" "compatible_fields fs fs'" by blast
    from 1(4) [OF struct t' comp(2) comp(1)] 1(6) show ?thesis by (simp add: f struct t' child_types_def)
  next
    case scalar
    from compatible_scalar [OF 1(5) scalar] 1(6) show ?thesis by (simp add: f)
  qed
qed auto

subsection \<open>Alignment\<close>

definition slot_well_shaped :: "slot_schema \<Rightarrow> bool" where
  "slot_well_shaped s \<longleftrightarrow> well_shaped (slot_field_schema s) (fld_type (slot_field s))"

text \<open>What aligning does to one slot: the field is the batch's, everything else is kept.\<close>

lemma align_slot_to_field_eq:
  "align_slot_to_field idx f s = Inr s' \<longleftrightarrow>
     fld_name f = fld_name (slot_field s) \<and> is_compatible_chunk_field_type (fld_type (slot_field s)) (fld_type f) \<and>
     (fld_nullable (slot_field s) \<longrightarrow> fld_nullable f) \<and> s' = s\<lparr>slot_field := f\<rparr>"
  by (auto simp: align_slot_to_field_def slot_with_field_and_slot_id_def slot_try_new_with_field_def Let_def)

lemma align_batch_eq:
  assumes "align_chunk_schema_to_batch b cs = Inr cs'" and len: "length (batch_schema b) = length (batch_columns b)"
  shows "length (cs_slots cs) = length (batch_schema b)" and "distinct (map slot_id (cs_slots cs))"
    and "cs' = schema_of (map2 (\<lambda>s f. s\<lparr>slot_field := f\<rparr>) (cs_slots cs) (batch_schema b))"
    and "\<And>k. k < length (batch_schema b) \<Longrightarrow>
      is_compatible_chunk_field_type (fld_type (slot_field (cs_slots cs ! k))) (fld_type (batch_schema b ! k))"
proof -
  let ?n = "length (batch_schema b)"
  show n: "length (cs_slots cs) = ?n" using assms by (auto simp: align_chunk_schema_to_batch_def split: if_splits)
  then obtain slots where col: "map (\<lambda>idx. if idx < ?n then align_slot_to_field idx (batch_schema b ! idx) (cs_slots cs ! idx)
        else Inl (MissingSlotAt idx)) [0..<?n] = map Inr slots" and new: "schema_try_new slots = Inr cs'"
    using assms by (auto simp: align_chunk_schema_to_batch_def rust_results collect_ok_eq_Inr split: if_splits)
  have ln: "length slots = ?n" using arg_cong [OF col, of length] by simp
  have al: "align_slot_to_field k (batch_schema b ! k) (cs_slots cs ! k) = Inr (slots ! k)" if "k < ?n" for k
    using arg_cong [OF col, of "\<lambda>xs. xs ! k"] that ln by simp
  then show "is_compatible_chunk_field_type (fld_type (slot_field (cs_slots cs ! k))) (fld_type (batch_schema b ! k))"
    if "k < ?n" for k using that unfolding align_slot_to_field_eq by blast
  have slots: "slots = map2 (\<lambda>s f. s\<lparr>slot_field := f\<rparr>) (cs_slots cs) (batch_schema b)"
    using ln n al unfolding align_slot_to_field_eq by (intro nth_equalityI) simp_all
  have "map slot_id slots = map slot_id (cs_slots cs)"
    using n by (intro nth_equalityI) (simp_all add: slots)
  with new show "distinct (map slot_id (cs_slots cs))"
    and "cs' = schema_of (map2 (\<lambda>s f. s\<lparr>slot_field := f\<rparr>) (cs_slots cs) (batch_schema b))"
    by (simp_all add: schema_try_new_eq slots)
qed

lemma reconcile_refl [simp]: "reconcile_chunk_data_type t t = Inr t"
  by (simp add: reconcile_chunk_data_type.simps)

lemma compatible_fields_same:
  "(\<And>f. f \<in> set fs \<Longrightarrow> is_compatible_chunk_field_type (fld_type f) (fld_type f)) \<Longrightarrow> compatible_fields fs fs"
proof (induction fs)
  case (Cons f fs)
  then have "is_compatible_chunk_field_type (fld_type f) (fld_type f)" by simp
  with Cons show ?case by (cases f) simp
qed simp

lemma compatible_refl [simp]:
  "is_compatible_chunk_field_type t t" "is_compatible_chunk_field_type (fld_type f) (fld_type f)"
proof (induction t and f rule: data_type.induct field.induct)
  case (DList f)
  then show ?case by (cases f) (simp add: is_compatible_chunk_field_type.simps [of "DList _"])
next
  case (DLargeList f)
  then show ?case by (cases f) (simp add: is_compatible_chunk_field_type.simps [of "DLargeList _"])
next
  case (DMap f b)
  then show ?case by (cases f) (simp add: is_compatible_chunk_field_type.simps [of "DMap _ _"])
next
  case (DStruct fs)
  then show ?case by (simp add: is_compatible_chunk_field_type.simps [of "DStruct _"] compatible_fields_same)
qed (simp_all add: is_compatible_chunk_field_type.simps)

lemma align_columns_same_types:
  assumes "length cols = length (cs_slots cs)" and "distinct (map slot_id (cs_slots cs))"
    and types: "\<forall>k < length cols. fld_type (slot_field (cs_slots cs ! k)) = arr_type (cols ! k)"
  shows "\<exists>slots. align_chunk_schema_to_columns cols cs = Inr (schema_of slots) \<and>
    map slot_id slots = map slot_id (cs_slots cs) \<and> length slots = length cols \<and>
    (\<forall>k < length cols. fld_name (slot_field (slots ! k)) = fld_name (slot_field (cs_slots cs ! k)) \<and>
       fld_type (slot_field (slots ! k)) = arr_type (cols ! k) \<and>
       (fld_nullable (slot_field (slots ! k)) \<longleftrightarrow>
          fld_nullable (slot_field (cs_slots cs ! k)) \<or> 0 < arr_null_count (cols ! k)))"
proof -
  define widen where "widen c s = s\<lparr>slot_field :=
      (if fld_nullable (slot_field s) \<or> arr_null_count c = 0 then slot_field s
       else new_field (fld_name (slot_field s)) (fld_type (slot_field s)) True)\<rparr>" for c :: "'a array" and s :: slot_schema
  let ?slots = "map2 widen cols (cs_slots cs)"
  have one: "result_bind (reconcile_chunk_field_to_data_type (slot_field s) (arr_type c) (0 < arr_null_count c))
      (\<lambda>f. slot_with_field_and_slot_id (slot_id s) f s) = Inr (widen c s)" if "fld_type (slot_field s) = arr_type c" for c s
    using that by (auto simp: reconcile_chunk_field_to_data_type_def slot_with_field_and_slot_id_def
      slot_try_new_with_field_def widen_def Let_def)
  have "collect_ok (map2 (\<lambda>c s. result_bind (reconcile_chunk_field_to_data_type (slot_field s) (arr_type c) (0 < arr_null_count c))
      (\<lambda>f. slot_with_field_and_slot_id (slot_id s) f s)) cols (cs_slots cs)) = Inr ?slots"
    unfolding collect_ok_eq_Inr using assms(1) types by (intro nth_equalityI) (simp_all add: one)
  moreover have ids: "map slot_id ?slots = map slot_id (cs_slots cs)"
    using assms(1) by (intro nth_equalityI) (simp_all add: widen_def)
  moreover have "schema_try_new ?slots = Inr (schema_of ?slots)"
    unfolding schema_try_new_eq ids using assms(2) by simp
  ultimately have "align_chunk_schema_to_columns cols cs = Inr (schema_of ?slots)"
    using assms(1) unfolding align_chunk_schema_to_columns_def by simp
  moreover have "\<forall>k < length cols. fld_name (slot_field (?slots ! k)) = fld_name (slot_field (cs_slots cs ! k)) \<and>
       fld_type (slot_field (?slots ! k)) = arr_type (cols ! k) \<and>
       (fld_nullable (slot_field (?slots ! k)) \<longleftrightarrow>
          fld_nullable (slot_field (cs_slots cs ! k)) \<or> 0 < arr_null_count (cols ! k))"
    using assms(1) types by (simp add: widen_def)
  ultimately show ?thesis using ids assms(1) by (intro exI [of _ ?slots] conjI) simp_all
qed

lemma align_batch_self:
  assumes "map slot_field slots = batch_schema b" and "length slots = length (batch_columns b)"
    and "distinct (map slot_id slots)"
  shows "align_chunk_schema_to_batch b (schema_of slots) = Inr (schema_of slots)"
proof -
  have n: "length (batch_schema b) = length slots" using assms(1) by (metis length_map)
  have same: "batch_schema b ! k = slot_field (slots ! k)" if "k < length slots" for k
    using assms(1) that by (metis nth_map)
  have "align_slot_to_field k (slot_field (slots ! k)) (slots ! k) = Inr (slots ! k)" for k
    by (simp add: align_slot_to_field_eq)
  then have "collect_ok (map (\<lambda>idx. if idx < length slots then align_slot_to_field idx (batch_schema b ! idx) (slots ! idx)
      else Inl (MissingSlotAt idx)) [0..<length slots]) = Inr slots"
    unfolding collect_ok_eq_Inr using same by (intro nth_equalityI) simp_all
  moreover have "schema_try_new slots = Inr (schema_of slots)" using assms(3) by (simp add: schema_try_new_eq)
  ultimately show ?thesis
    unfolding align_chunk_schema_to_batch_def schema_of_simps n using assms(2) by simp
qed

text \<open>What building a slot from a descriptor goes through.\<close>

lemma slot_from_type_desc_eq:
  "slot_from_type_desc i name nullable desc u = Inr s \<longleftrightarrow>
     (\<exists>ns f t b. desc = Some ns \<and> from_desc_nodes ns 0 = Inr (f, length ns) \<and> arrow_type_from_nodes ns 0 = Some (t, b) \<and>
        s = \<lparr>slot_id = i, slot_field = new_field name t nullable, slot_field_schema = f, slot_unique_id = u\<rparr>)"
  by (auto simp: slot_from_type_desc_def slot_try_new_with_field_def field_schema_from_type_desc_def rust_results
      arrow_type_from_desc_def split: option.splits sum.splits if_splits)

subsection \<open>Properties\<close>

text \<open>
  (C31) A slot built from a type descriptor is consistently typed: its field has the type the
  descriptor lowers to, its field schema has the shape of that type, and at every level of the
  tree the descriptor kept there lowers to the type at that level. Building fails exactly when
  the descriptor does not lower or has nodes left over.
\<close>

theorem slot_schema_described:
  "(slot_from_type_desc i name nullable desc u = Inr s \<longrightarrow>
      described (slot_field_schema s) (fld_type (slot_field s)) \<and> slot_id s = i \<and>
      arrow_type_from_desc desc = Some (fld_type (slot_field s))) \<and>
   ((\<exists>s. slot_from_type_desc i name nullable desc u = Inr s) \<longleftrightarrow>
      (\<exists>ns t. desc = Some ns \<and> arrow_type_from_nodes ns 0 = Some (t, length ns)))"
proof -
  have agree: "\<exists>f. from_desc_nodes ns 0 = Inr (f, b) \<and> described f t"
    if "arrow_type_from_nodes ns 0 = Some (t, b)" for ns t b
    using desc_walks_agree(1) [OF that] .
  have "described (slot_field_schema s) (fld_type (slot_field s)) \<and> slot_id s = i \<and>
      arrow_type_from_desc desc = Some (fld_type (slot_field s))"
    if built: "slot_from_type_desc i name nullable desc u = Inr s"
  proof -
    obtain ns f t b where ns: "desc = Some ns" "from_desc_nodes ns 0 = Inr (f, length ns)" "arrow_type_from_nodes ns 0 = Some (t, b)"
      "s = \<lparr>slot_id = i, slot_field = new_field name t nullable, slot_field_schema = f, slot_unique_id = u\<rparr>"
      using built unfolding slot_from_type_desc_eq by blast
    with agree [OF ns(3)] have "described f t" by auto
    moreover have "arrow_type_from_desc desc = Some t" using ns by (simp add: arrow_type_from_desc_def)
    ultimately show ?thesis by (simp add: ns(4))
  qed
  moreover have "(\<exists>s. slot_from_type_desc i name nullable desc u = Inr s) \<longleftrightarrow>
      (\<exists>ns t. desc = Some ns \<and> arrow_type_from_nodes ns 0 = Some (t, length ns))"
  proof
    assume "\<exists>s. slot_from_type_desc i name nullable desc u = Inr s"
    then obtain ns f t b where ns: "desc = Some ns" "from_desc_nodes ns 0 = Inr (f, length ns)" "arrow_type_from_nodes ns 0 = Some (t, b)"
      unfolding slot_from_type_desc_eq by blast
    with agree [OF ns(3)] show "\<exists>ns t. desc = Some ns \<and> arrow_type_from_nodes ns 0 = Some (t, length ns)" by auto
  next
    assume "\<exists>ns t. desc = Some ns \<and> arrow_type_from_nodes ns 0 = Some (t, length ns)"
    then obtain ns t where ns: "desc = Some ns" "arrow_type_from_nodes ns 0 = Some (t, length ns)" by blast
    from agree [OF ns(2)] ns show "\<exists>s. slot_from_type_desc i name nullable desc u = Inr s"
      unfolding slot_from_type_desc_eq by blast
  qed
  ultimately show ?thesis by blast
qed

theorem slot_schema_described_witness:
  "\<exists>s. slot_from_type_desc 7 ''a'' True (scalar_type_desc T_INT) None = Inr s \<and> described (slot_field_schema s) DInt32"
proof -
  have "arrow_type_from_nodes (the (scalar_type_desc T_INT)) 0 = Some (DInt32, length (the (scalar_type_desc T_INT)))"
    by (simp add: arrow_type_from_nodes.simps scalar_type_desc_def scalar_arrow_type_def)
  then obtain s where s: "slot_from_type_desc 7 ''a'' True (scalar_type_desc T_INT) None = Inr s"
    using slot_schema_described [of 7 "''a''" True "scalar_type_desc T_INT" None] by (auto simp: scalar_type_desc_def)
  moreover have "arrow_type_from_desc (scalar_type_desc T_INT) = Some DInt32"
    by (simp add: arrow_type_from_desc_def arrow_type_from_nodes.simps scalar_type_desc_def scalar_arrow_type_def)
  ultimately show ?thesis
    using slot_schema_described [of 7 "''a''" True "scalar_type_desc T_INT" None s] by auto
qed

text \<open>
  (C32) A chunk made of a batch and a schema is consistent: the schema of the chunk is the batch's,
  the slot ids are the contract's, looking up the id of any slot gives the column at the slot's
  position, and slots whose field schemas have the shape of their types keep that shape although
  they take the batch's types.
\<close>

theorem chunk_columns_by_slot:
  assumes "try_new_with_chunk_schema b cs = Inr c" and "length (batch_schema b) = length (batch_columns b)"
    and "k < length (cs_slots cs)"
  shows "column_by_slot_id c (slot_id (cs_slots cs ! k)) = Inr (batch_columns b ! k) \<and>
    cs_arrow_schema (ck_schema c) = batch_schema b \<and> cs_slot_ids (ck_schema c) = map slot_id (cs_slots cs) \<and>
    (list_all slot_well_shaped (cs_slots cs) \<longrightarrow> list_all slot_well_shaped (cs_slots (ck_schema c)))"
proof -
  obtain cs' where al: "align_chunk_schema_to_batch b cs = Inr cs'" and c: "c = \<lparr>ck_batch = b, ck_schema = cs'\<rparr>"
    using assms(1) by (auto simp: try_new_with_chunk_schema_def rust_results)
  note eq = align_batch_eq [OF al assms(2)]
  let ?slots = "map2 (\<lambda>s f. s\<lparr>slot_field := f\<rparr>) (cs_slots cs) (batch_schema b)"
  have ids: "map slot_id ?slots = map slot_id (cs_slots cs)" using eq(1) by (intro nth_equalityI) simp_all
  have "cs_index_by_slot cs' (slot_id (cs_slots cs ! k)) = Some k"
    using schema_index [of ?slots k] eq(1,2) assms(3) ids by (simp add: eq(3))
  then have "column_by_slot_id c (slot_id (cs_slots cs ! k)) = Inr (batch_columns b ! k)"
    using assms(2,3) eq(1) by (simp add: column_by_slot_id_def c)
  moreover have "cs_arrow_schema cs' = batch_schema b"
    using eq(1) unfolding eq(3) by (intro nth_equalityI) simp_all
  moreover have "list_all slot_well_shaped ?slots" if "list_all slot_well_shaped (cs_slots cs)"
    using that eq(1) well_shaped_compatible(1) [OF eq(4)]
    by (fastforce simp: list_all_length slot_well_shaped_def)
  ultimately show ?thesis using ids by (simp add: c eq(3))
qed

definition demo_schema :: chunk_schema where
  "demo_schema = schema_of [\<lparr>slot_id = 3, slot_field = new_field ''a'' DUtf8 False,
     slot_field_schema = ChunkFieldSchema None [], slot_unique_id = None\<rparr>]"

definition demo_batch :: "unit batch" where
  "demo_batch = \<lparr>batch_schema = [new_field ''a'' DBinary True],
     batch_columns = [\<lparr>arr_type = DBinary, arr_len = 2, arr_null_count = 1, arr_data = ()\<rparr>], batch_rows = 2\<rparr>"

theorem chunk_columns_by_slot_witness:
  "\<exists>c. try_new_with_chunk_schema demo_batch demo_schema = Inr c \<and>
     column_by_slot_id c 3 = Inr \<lparr>arr_type = DBinary, arr_len = 2, arr_null_count = 1, arr_data = ()\<rparr>"
proof -
  have "\<exists>c. try_new_with_chunk_schema demo_batch demo_schema = Inr c"
    by (simp add: try_new_with_chunk_schema_def align_chunk_schema_to_batch_def demo_batch_def demo_schema_def
      align_slot_to_field_def slot_with_field_and_slot_id_def slot_try_new_with_field_def
      is_compatible_chunk_field_type.simps schema_try_new_eq rust_results Let_def)
  then obtain c where c: "try_new_with_chunk_schema demo_batch demo_schema = Inr c" by blast
  with chunk_columns_by_slot [OF c, of 0] show ?thesis by (simp add: demo_batch_def demo_schema_def)
qed

text \<open>
  (C33) Columns of the types a schema declares always make a chunk: no matter which slots are
  declared not nullable, the fields are widened to nullable where a column has nulls, and the
  batch is accepted with the columns unchanged.
\<close>

theorem chunk_with_columns_accepts:
  assumes law: "record_batch_law record_batch_new" and "cols \<noteq> []" and "length cols = length (cs_slots cs)"
    and "distinct (map slot_id (cs_slots cs))" and "\<forall>c \<in> set cols. arr_len c = arr_len (hd cols)"
    and "\<forall>k < length cols. fld_type (slot_field (cs_slots cs ! k)) = arr_type (cols ! k)"
  shows "\<exists>c. try_new_with_columns record_batch_new cs cols = Inr c \<and> batch_columns (ck_batch c) = cols \<and>
    cs_slot_ids (ck_schema c) = map slot_id (cs_slots cs) \<and>
    (\<forall>k < length cols. fld_nullable (batch_schema (ck_batch c) ! k) \<longleftrightarrow>
       fld_nullable (slot_field (cs_slots cs ! k)) \<or> 0 < arr_null_count (cols ! k))"
proof -
  obtain slots where slots: "align_chunk_schema_to_columns cols cs = Inr (schema_of slots) \<and>
      map slot_id slots = map slot_id (cs_slots cs) \<and> length slots = length cols \<and>
      (\<forall>k < length cols. fld_name (slot_field (slots ! k)) = fld_name (slot_field (cs_slots cs ! k)) \<and>
         fld_type (slot_field (slots ! k)) = arr_type (cols ! k) \<and>
         (fld_nullable (slot_field (slots ! k)) \<longleftrightarrow>
            fld_nullable (slot_field (cs_slots cs ! k)) \<or> 0 < arr_null_count (cols ! k)))"
    using align_columns_same_types [OF assms(3,4,6)] by (elim exE) (rule that)
  note al = slots [THEN conjunct1] and ids = slots [THEN conjunct2, THEN conjunct1]
    and len = slots [THEN conjunct2, THEN conjunct2, THEN conjunct1]
    and flds = slots [THEN conjunct2, THEN conjunct2, THEN conjunct2, rule_format]
  let ?b = "\<lparr>batch_schema = map slot_field slots, batch_columns = cols, batch_rows = arr_len (hd cols)\<rparr>"
  have "list_all2 (\<lambda>f c. fld_type f = arr_type c \<and> (fld_nullable f \<or> arr_null_count c = 0)) (map slot_field slots) cols"
    unfolding list_all2_conv_all_nth
  proof (intro conjI allI impI)
    fix k assume "k < length (map slot_field slots)"
    then have k: "k < length slots" "k < length cols" by (simp_all add: len)
    show "fld_type (map slot_field slots ! k) = arr_type (cols ! k)" using flds [OF k(2)] k(1) by simp
    show "fld_nullable (map slot_field slots ! k) \<or> arr_null_count (cols ! k) = 0" using flds [OF k(2)] k(1) by auto
  qed (simp add: len)
  then have "batch_accepts (map slot_field slots) cols"
    unfolding batch_accepts_def by (intro conjI assms(2,5)) (simp_all add: len)
  then have "record_batch_new (map slot_field slots) cols = Inr ?b"
    using law [unfolded record_batch_law_def, rule_format, of "map slot_field slots" cols] by simp
  moreover have "align_chunk_schema_to_batch ?b (schema_of slots) = Inr (schema_of slots)"
    using align_batch_self [of slots ?b] len ids assms(4) by simp
  ultimately have new: "try_new_with_columns record_batch_new cs cols = Inr \<lparr>ck_batch = ?b, ck_schema = schema_of slots\<rparr>"
    by (simp add: try_new_with_columns_def try_new_with_chunk_schema_def al)
  show ?thesis
  proof (intro exI conjI)
    show "try_new_with_columns record_batch_new cs cols = Inr \<lparr>ck_batch = ?b, ck_schema = schema_of slots\<rparr>" by (rule new)
    show "cs_slot_ids (ck_schema \<lparr>ck_batch = ?b, ck_schema = schema_of slots\<rparr>) = map slot_id (cs_slots cs)" by (simp add: ids)
    show "\<forall>k < length cols. fld_nullable (batch_schema (ck_batch \<lparr>ck_batch = ?b, ck_schema = schema_of slots\<rparr>) ! k) \<longleftrightarrow>
        fld_nullable (slot_field (cs_slots cs ! k)) \<or> 0 < arr_null_count (cols ! k)" using flds by (simp add: len)
  qed simp
qed

definition demo_batch_new :: "unit record_batch_new" where
  "demo_batch_new fs cols = (if batch_accepts fs cols
     then Inr \<lparr>batch_schema = fs, batch_columns = cols, batch_rows = arr_len (hd cols)\<rparr> else Inl ''rejected'')"

theorem chunk_with_columns_accepts_witness:
  "record_batch_law demo_batch_new \<and>
   (\<exists>c. try_new_with_columns demo_batch_new demo_schema [\<lparr>arr_type = DUtf8, arr_len = 2, arr_null_count = 1, arr_data = ()\<rparr>] = Inr c \<and>
      fld_nullable (batch_schema (ck_batch c) ! 0))"
proof -
  let ?cols = "[\<lparr>arr_type = DUtf8, arr_len = 2, arr_null_count = 1, arr_data = ()\<rparr>]"
  have law: "record_batch_law demo_batch_new" by (simp add: record_batch_law_def demo_batch_new_def)
  from chunk_with_columns_accepts [OF law, of ?cols demo_schema]
  have "\<exists>c. try_new_with_columns demo_batch_new demo_schema ?cols = Inr c \<and> fld_nullable (batch_schema (ck_batch c) ! 0)"
    by (auto simp: demo_schema_def)
  with law show ?thesis by blast
qed

end
