(* ===== verification/Exchange_Wire.thy ===== *)
theory Exchange_Wire
  imports Chunk_Schema Byte_Codec
begin

unbundle bit_operations_syntax

text \<open>
  The payload format of exchanges between fragments: the encoding half of
  \<open>src/src/runtime/exchange.rs\<close>. Chunks are brought to one schema, written as an Arrow IPC stream
  and wrapped in an envelope that names the slots; the reader unwraps the envelope and gives the
  columns the slots of the sender or of the receiver's own schema. Arrow's IPC and batch
  constructors are parameters.
\<close>

subsection \<open>The envelope\<close>

datatype wire_error =
    WireSlotMismatch nat | PayloadTruncated string | SlotIdTruncated nat | UnsupportedVersion byte | SlotCountWithoutFlag nat
  | MergeTypeMismatch data_type data_type | EmptyExchangeChunks | EncodeSchemaMismatch nat
  | MergedFieldMissing nat nat | NormalizeFailed nat string | IpcFailed string | DecodeSchemaMismatch
  | MarkerBatchFailed string | WireSlotCount nat nat | WireSlotMissing slot_id nat
  | WireColumnRange nat nat | WireTypeMismatch nat slot_id data_type data_type | WireSchema schema_error
  | WireMetaChanged | WireMetaMissing | ExchangeCanceled | ExchangeTimeout nat nat | SchemaConflict

record wire_meta =
  slot_ids_by_index :: "slot_id list"

definition EXCHANGE_PAYLOAD_MAGIC :: "byte list" where "EXCHANGE_PAYLOAD_MAGIC = [0x4E, 0x52, 0x58, 0x31]"
definition EXCHANGE_PAYLOAD_VERSION :: byte where "EXCHANGE_PAYLOAD_VERSION = 1"
definition EXCHANGE_PAYLOAD_FLAG_SLOT_IDS :: byte where "EXCHANGE_PAYLOAD_FLAG_SLOT_IDS = 1"
definition EXCHANGE_ZERO_COLUMN_MARKER_FIELD :: string where
  "EXCHANGE_ZERO_COLUMN_MARKER_FIELD = ''__novarocks_exchange_zero_column__''"

definition chunk_slot_ids :: "'v data_chunk \<Rightarrow> slot_id list" where
  "chunk_slot_ids c = map slot_id (cs_slots (ck_schema c))"

definition wire_meta_from_chunks :: "'v data_chunk list \<Rightarrow> wire_error + wire_meta option" where
  "wire_meta_from_chunks chunks =
     (case chunks of
        [] \<Rightarrow> Inr None
      | first # rest \<Rightarrow>
          (case for_each (\<lambda>(idx, c) s. (if chunk_slot_ids c \<noteq> chunk_slot_ids first then Some (WireSlotMismatch idx) else None, s))
                  (zip [1..<length chunks] rest) () of
             (Some e, _) \<Rightarrow> Inl e
           | (None, _) \<Rightarrow> Inr (Some \<lparr>slot_ids_by_index = chunk_slot_ids first\<rparr>)))"

definition encode_exchange_payload_envelope :: "byte list \<Rightarrow> wire_meta option \<Rightarrow> byte list" where
  "encode_exchange_payload_envelope arrow_payload meta =
     (if arrow_payload = [] then []
      else EXCHANGE_PAYLOAD_MAGIC @ [EXCHANGE_PAYLOAD_VERSION] @
        [case meta of Some _ \<Rightarrow> EXCHANGE_PAYLOAD_FLAG_SLOT_IDS | None \<Rightarrow> 0] @
        le_bytes 4 ((case meta of Some m \<Rightarrow> length (slot_ids_by_index m) | None \<Rightarrow> 0) mod u32_limit) @
        (case meta of Some m \<Rightarrow> concat (map (\<lambda>i. le_bytes 4 (unat i)) (slot_ids_by_index m)) | None \<Rightarrow> []) @
        arrow_payload)"

definition read_exact :: "wire_error \<Rightarrow> nat \<Rightarrow> byte list \<Rightarrow> wire_error + byte list \<times> byte list" where
  "read_exact e n rest = (if length rest < n then Inl e else Inr (take n rest, drop n rest))"

fun read_slot_ids :: "nat list \<Rightarrow> byte list \<Rightarrow> wire_error + slot_id list \<times> byte list" where
  "read_slot_ids [] rest = Inr ([], rest)"
| "read_slot_ids (idx # idxs) rest =
     result_bind (read_exact (SlotIdTruncated idx) 4 rest) (\<lambda>(bs, rest').
     result_bind (read_slot_ids idxs rest') (\<lambda>(ids, rest'').
       Inr (word_of_nat (from_le bs) # ids, rest'')))"

definition decode_exchange_payload_envelope ::
  "byte list \<Rightarrow> wire_error + wire_meta option \<times> byte list" where
  "decode_exchange_payload_envelope bytes =
     (if bytes = [] then Inr (None, bytes)
      else if length bytes < length EXCHANGE_PAYLOAD_MAGIC \<or>
              take (length EXCHANGE_PAYLOAD_MAGIC) bytes \<noteq> EXCHANGE_PAYLOAD_MAGIC
      then Inr (None, bytes)
      else
        result_bind (read_exact (PayloadTruncated ''version'') 1 (drop (length EXCHANGE_PAYLOAD_MAGIC) bytes)) (\<lambda>(version, r1).
        if hd version \<noteq> EXCHANGE_PAYLOAD_VERSION then Inl (UnsupportedVersion (hd version))
        else
        result_bind (read_exact (PayloadTruncated ''flags'') 1 r1) (\<lambda>(flags, r2).
        result_bind (read_exact (PayloadTruncated ''slot count'') 4 r2) (\<lambda>(slot_count_bytes, r3).
        let slot_count = from_le slot_count_bytes
        in if hd flags AND EXCHANGE_PAYLOAD_FLAG_SLOT_IDS \<noteq> 0
           then result_bind (read_slot_ids [0..<slot_count] r3) (\<lambda>(ids, r4).
             Inr (Some \<lparr>slot_ids_by_index = ids\<rparr>, r4))
           else if slot_count \<noteq> 0 then Inl (SlotCountWithoutFlag slot_count)
           else Inr (None, r3)))))"

subsection \<open>Merging schemas\<close>

function (sequential) is_compatible_exchange_arrow_type :: "data_type \<Rightarrow> data_type \<Rightarrow> bool"
  and exchange_fields_compatible :: "field list \<Rightarrow> field list \<Rightarrow> bool" where
  "is_compatible_exchange_arrow_type expected actual =
     (case expected of
        DDecimal128 _ _ \<Rightarrow> (case actual of DDecimal128 _ _ \<Rightarrow> True | _ \<Rightarrow> False)
      | DDecimal256 _ _ \<Rightarrow> (case actual of DDecimal256 _ _ \<Rightarrow> True | _ \<Rightarrow> False)
      | DTimestamp _ _ \<Rightarrow> (case actual of DTimestamp _ _ \<Rightarrow> True | _ \<Rightarrow> False)
      | DUtf8 \<Rightarrow> actual = DBinary \<or> actual = DUtf8
      | DBinary \<Rightarrow> actual = DUtf8 \<or> actual = DBinary
      | DList (Field n t b m) \<Rightarrow>
          (case actual of
             DList (Field _ t' _ _) \<Rightarrow> is_compatible_exchange_arrow_type t t'
           | DStruct [Field _ t' _ _] \<Rightarrow> is_compatible_exchange_arrow_type (DList (Field n t b m)) t'
           | _ \<Rightarrow> False)
      | DMap (Field _ t _ _) _ \<Rightarrow>
          (case actual of DMap (Field _ t' _ _) _ \<Rightarrow> is_compatible_exchange_arrow_type t t' | _ \<Rightarrow> False)
      | DStruct fs \<Rightarrow>
          (case actual of
             DStruct fs' \<Rightarrow> length fs = length fs' \<and> exchange_fields_compatible fs fs'
           | DList g \<Rightarrow>
               (case fs of [Field _ t _ _] \<Rightarrow> is_compatible_exchange_arrow_type t (DList g) | _ \<Rightarrow> False)
           | _ \<Rightarrow> False)
      | _ \<Rightarrow> expected = actual)"
| "exchange_fields_compatible (Field _ t _ _ # fs) (Field _ t' _ _ # fs') =
     (is_compatible_exchange_arrow_type t t' \<and> exchange_fields_compatible fs fs')"
| "exchange_fields_compatible _ _ = True"
  by pat_completeness auto
termination
  by (relation "measure (\<lambda>x. case x of Inl (a, b) \<Rightarrow> size a + size b | Inr (as, bs) \<Rightarrow> size_list size as + size_list size bs)") auto

declare is_compatible_exchange_arrow_type.simps [simp del]

fun merge_exchange_field_type :: "data_type \<Rightarrow> data_type \<Rightarrow> wire_error + data_type"
  and merge_exchange_field :: "field \<Rightarrow> field \<Rightarrow> wire_error + field"
  and merge_exchange_fields :: "field list \<Rightarrow> field list \<Rightarrow> wire_error + field list" where
  "merge_exchange_field_type expected actual =
     (if expected = actual then Inr expected
      else case expected of
        DDecimal128 _ _ \<Rightarrow>
          (case actual of DDecimal128 _ _ \<Rightarrow> Inr actual | _ \<Rightarrow> Inl (MergeTypeMismatch expected actual))
      | DDecimal256 _ _ \<Rightarrow>
          (case actual of DDecimal256 _ _ \<Rightarrow> Inr actual | _ \<Rightarrow> Inl (MergeTypeMismatch expected actual))
      | DTimestamp _ _ \<Rightarrow>
          (case actual of DTimestamp _ _ \<Rightarrow> Inr actual | _ \<Rightarrow> Inl (MergeTypeMismatch expected actual))
      | DUtf8 \<Rightarrow> if actual = DBinary then Inr actual else Inl (MergeTypeMismatch expected actual)
      | DBinary \<Rightarrow> if actual = DUtf8 then Inr actual else Inl (MergeTypeMismatch expected actual)
      | DList f \<Rightarrow>
          (case actual of
             DList f' \<Rightarrow> result_bind (merge_exchange_field f f') (\<lambda>g. Inr (DList g))
           | DStruct [g] \<Rightarrow> Inr (DStruct [g])
           | _ \<Rightarrow> Inl (MergeTypeMismatch expected actual))
      | DMap f ordered \<Rightarrow>
          (case actual of
             DMap f' ordered' \<Rightarrow>
               if ordered = ordered' then result_bind (merge_exchange_field f f') (\<lambda>g. Inr (DMap g ordered))
               else Inl (MergeTypeMismatch expected actual)
           | _ \<Rightarrow> Inl (MergeTypeMismatch expected actual))
      | DStruct fs \<Rightarrow>
          (case actual of
             DList _ \<Rightarrow> if length fs = 1 then Inr expected else Inl (MergeTypeMismatch expected actual)
           | DStruct fs' \<Rightarrow>
               if length fs = length fs' then result_bind (merge_exchange_fields fs fs') (\<lambda>gs. Inr (DStruct gs))
               else Inl (MergeTypeMismatch expected actual)
           | _ \<Rightarrow> Inl (MergeTypeMismatch expected actual))
      | _ \<Rightarrow> Inl (MergeTypeMismatch expected actual))"
| "merge_exchange_field (Field n t nullable m) actual =
     result_bind (merge_exchange_field_type t (fld_type actual)) (\<lambda>t'.
       let nullable' = nullable \<or> fld_nullable actual
       in Inr (if t' = t \<and> nullable' = nullable then Field n t nullable m else Field n t' nullable' m))"
| "merge_exchange_fields (f # fs) (f' # fs') =
     result_bind (merge_exchange_field f f') (\<lambda>g.
     result_bind (merge_exchange_fields fs fs') (\<lambda>gs. Inr (g # gs)))"
| "merge_exchange_fields _ _ = Inr []"

declare merge_exchange_field_type.simps [simp del] merge_exchange_field.simps [simp del]

definition exchange_field_from_array :: "field \<Rightarrow> 'v array \<Rightarrow> field" where
  "exchange_field_from_array f a =
     Field (fld_name f) (arr_type a) (fld_nullable f \<or> 0 < arr_null_count a) (fld_meta f)"

definition exchange_schema_compatible :: "'v data_chunk \<Rightarrow> 'v data_chunk \<Rightarrow> bool" where
  "exchange_schema_compatible expected actual \<longleftrightarrow>
     length (batch_schema (ck_batch expected)) = length (batch_schema (ck_batch actual)) \<and>
     length (cs_slots (ck_schema expected)) = length (cs_slots (ck_schema actual)) \<and>
     (\<forall>((ef, af), (es, as)) \<in> set (zip (zip (batch_schema (ck_batch expected)) (batch_schema (ck_batch actual)))
          (zip (cs_slots (ck_schema expected)) (cs_slots (ck_schema actual)))).
        slot_id es = slot_id as \<and> fld_type ef = fld_type af)"

definition array_fields :: "'v data_chunk \<Rightarrow> field list" where
  "array_fields c = map2 exchange_field_from_array (batch_schema (ck_batch c)) (batch_columns (ck_batch c))"

definition merge_chunk_field :: "nat \<Rightarrow> nat \<times> field \<Rightarrow> field list \<Rightarrow> wire_error option \<times> field list" where
  "merge_chunk_field chunk_idx p fs =
     (case p of (field_idx, actual) \<Rightarrow>
        if length fs \<le> field_idx then (Some (MergedFieldMissing field_idx chunk_idx), fs)
        else case merge_exchange_field (fs ! field_idx) actual of
          Inl e \<Rightarrow> (Some e, fs)
        | Inr g \<Rightarrow> (None, fs[field_idx := g]))"

definition merge_chunk :: "'v data_chunk \<Rightarrow> nat \<times> 'v data_chunk \<Rightarrow> field list \<Rightarrow> wire_error option \<times> field list" where
  "merge_chunk first p fs =
     (case p of (chunk_idx, c) \<Rightarrow>
        if \<not> exchange_schema_compatible first c then (Some (EncodeSchemaMismatch chunk_idx), fs)
        else for_each (merge_chunk_field chunk_idx) (zip [0..<length (array_fields c)] (array_fields c)) fs)"

definition merged_exchange_schema :: "'v data_chunk list \<Rightarrow> wire_error + field list" where
  "merged_exchange_schema chunks =
     (case chunks of
        [] \<Rightarrow> Inl EmptyExchangeChunks
      | first # rest \<Rightarrow>
          (case for_each (merge_chunk first) (zip [1..<length chunks] rest) (array_fields first) of
             (Some e, _) \<Rightarrow> Inl e
           | (None, fs) \<Rightarrow> Inr fs))"

subsection \<open>Arrow streams\<close>

record 'v exchange_libs =
  batch_new :: "'v record_batch_new"
  empty_batch :: "nat \<Rightarrow> string + 'v batch"
  zero_int8_array :: "nat \<Rightarrow> 'v array"
  ipc_write :: "field list \<Rightarrow> 'v batch list \<Rightarrow> string + byte list"
  ipc_read :: "byte list \<Rightarrow> string + (string + 'v batch) list"

definition build_zero_column_marker_batch :: "'v exchange_libs \<Rightarrow> nat \<Rightarrow> wire_error + 'v batch" where
  "build_zero_column_marker_batch libs row_count =
     map_sum MarkerBatchFailed id
       (batch_new libs [new_field EXCHANGE_ZERO_COLUMN_MARKER_FIELD DInt8 False] [zero_int8_array libs row_count])"

definition normalize_chunk :: "'v exchange_libs \<Rightarrow> field list \<Rightarrow> nat \<times> 'v data_chunk \<Rightarrow> wire_error + 'v batch" where
  "normalize_chunk libs schema p =
     (case p of (i, c) \<Rightarrow>
        if batch_schema (ck_batch c) = schema then Inr (ck_batch c)
        else map_sum (NormalizeFailed i) id (batch_new libs schema (batch_columns (ck_batch c))))"

definition encode_arrow_ipc_chunks :: "'v exchange_libs \<Rightarrow> 'v data_chunk list \<Rightarrow> wire_error + byte list" where
  "encode_arrow_ipc_chunks libs chunks =
     (if chunks = [] then Inr []
      else result_bind (merged_exchange_schema chunks) (\<lambda>schema.
        result_bind
          (if schema = []
           then result_bind (collect_ok (map (\<lambda>c. build_zero_column_marker_batch libs (batch_rows (ck_batch c))) chunks))
             (\<lambda>bs. Inr (case bs of b # _ \<Rightarrow> batch_schema b | [] \<Rightarrow> [], bs))
           else result_bind (collect_ok (map (normalize_chunk libs schema) (zip [0..<length chunks] chunks)))
             (\<lambda>bs. Inr (schema, bs)))
          (\<lambda>(writer_schema, bs). map_sum IpcFailed id (ipc_write libs writer_schema bs))))"

fun check_batch_schemas :: "field list option \<Rightarrow> (string + 'v batch) list \<Rightarrow> wire_error + 'v batch list" where
  "check_batch_schemas expected [] = Inr []"
| "check_batch_schemas expected (r # rs) =
     (case r of
        Inl e \<Rightarrow> Inl (IpcFailed e)
      | Inr b \<Rightarrow>
          (case expected of
             Some s \<Rightarrow> if batch_schema b \<noteq> s then Inl DecodeSchemaMismatch
                       else map_sum id ((#) b) (check_batch_schemas expected rs)
           | None \<Rightarrow> map_sum id ((#) b) (check_batch_schemas (Some (batch_schema b)) rs)))"

definition decode_arrow_ipc_batches :: "'v exchange_libs \<Rightarrow> byte list \<Rightarrow> wire_error + 'v batch list" where
  "decode_arrow_ipc_batches libs bytes =
     (if bytes = [] then Inr []
      else case ipc_read libs bytes of Inl e \<Rightarrow> Inl (IpcFailed e) | Inr rs \<Rightarrow> check_batch_schemas None rs)"

definition restore_zero_column_batch_if_needed ::
  "'v exchange_libs \<Rightarrow> 'v batch \<Rightarrow> wire_meta \<Rightarrow> wire_error + 'v batch" where
  "restore_zero_column_batch_if_needed libs b meta =
     (if slot_ids_by_index meta \<noteq> [] then Inr b
      else if length (batch_columns b) \<noteq> 1 \<or> fld_name (batch_schema b ! 0) \<noteq> EXCHANGE_ZERO_COLUMN_MARKER_FIELD
      then Inr b
      else map_sum MarkerBatchFailed id (empty_batch libs (batch_rows b)))"

subsection \<open>Slots of decoded batches\<close>

definition is_opaque_binary :: "data_type \<Rightarrow> bool" where
  "is_opaque_binary t \<longleftrightarrow> t = DBinary \<or> t = DLargeBinary"

definition is_numeric :: "data_type \<Rightarrow> bool" where
  "is_numeric t \<longleftrightarrow> t \<in> {DInt8, DInt16, DInt32, DInt64, DFloat32, DFloat64}"

definition wire_type_ok :: "slot_schema \<Rightarrow> field \<Rightarrow> bool" where
  "wire_type_ok expected f =
     (case Option.bind (cfs_desc (slot_field_schema expected)) arrow_type_from_desc of
        None \<Rightarrow> True
      | Some t \<Rightarrow> fld_type f = t \<or> (is_opaque_binary t \<and> is_numeric (fld_type f)) \<or>
          is_compatible_exchange_arrow_type t (fld_type f))"

definition wire_slot ::
  "chunk_schema \<Rightarrow> bool \<Rightarrow> 'v batch \<Rightarrow> nat \<times> slot_id \<Rightarrow> wire_error + slot_schema" where
  "wire_slot expected wire_ids_match b p =
     (case p of (idx, i) \<Rightarrow>
        result_bind
          (if wire_ids_match then ok_or (schema_slot expected i) (WireSlotMissing i idx)
           else if idx < length (cs_slots expected) then Inr (cs_slots expected ! idx)
           else Inl (WireColumnRange idx (length (cs_slots expected))))
          (\<lambda>es. let f = batch_schema b ! idx
                in if \<not> wire_type_ok es f
                   then Inl (WireTypeMismatch idx i (fld_type f)
                          (the (Option.bind (cfs_desc (slot_field_schema es)) arrow_type_from_desc)))
                   else map_sum WireSchema id
                     (slot_with_field_and_slot_id (if wire_ids_match then i else slot_id es) f es)))"

definition chunk_schema_for_wire_meta ::
  "chunk_schema option \<Rightarrow> 'v batch \<Rightarrow> wire_meta \<Rightarrow> wire_error + chunk_schema" where
  "chunk_schema_for_wire_meta expected b meta =
     (let ids = slot_ids_by_index meta
      in if length ids \<noteq> length (batch_columns b) then Inl (WireSlotCount (length (batch_columns b)) (length ids))
         else case expected of
           None \<Rightarrow> map_sum WireSchema id (schema_from_slot_ids (batch_schema b) ids)
         | Some cs \<Rightarrow>
             let wire_ids_match = list_all (\<lambda>i. schema_slot cs i \<noteq> None) ids
             in result_bind (collect_ok (map (wire_slot cs wire_ids_match b) (zip [0..<length ids] ids)))
                  (\<lambda>slots. map_sum WireSchema id (schema_try_new slots)))"

definition encode_chunks :: "'v exchange_libs \<Rightarrow> 'v data_chunk list \<Rightarrow> bool \<Rightarrow> wire_error + byte list" where
  "encode_chunks libs chunks include_slot_ids =
     result_bind (encode_arrow_ipc_chunks libs chunks) (\<lambda>arrow_payload.
     result_bind (if include_slot_ids then wire_meta_from_chunks chunks else Inr None) (\<lambda>meta.
       Inr (encode_exchange_payload_envelope arrow_payload meta)))"

text \<open>The part of \<open>decode_chunks_for_sender\<close> after the receiver's lock is released.\<close>

definition decode_batch ::
  "'v exchange_libs \<Rightarrow> chunk_schema option \<Rightarrow> wire_meta \<Rightarrow> 'v batch \<Rightarrow> wire_error + 'v data_chunk" where
  "decode_batch libs expected meta b =
     result_bind (restore_zero_column_batch_if_needed libs b meta) (\<lambda>b'.
     result_bind (chunk_schema_for_wire_meta expected b' meta) (\<lambda>cs.
       map_sum WireSchema id (try_new_with_chunk_schema b' cs)))"

definition decode_batches ::
  "'v exchange_libs \<Rightarrow> chunk_schema option \<Rightarrow> wire_meta \<Rightarrow> byte list \<Rightarrow> wire_error + 'v data_chunk list" where
  "decode_batches libs expected meta arrow_payload =
     result_bind (decode_arrow_ipc_batches libs arrow_payload) (\<lambda>bs. collect_ok (map (decode_batch libs expected meta) bs))"

subsection \<open>The envelope round-trips\<close>

lemma read_exact_append [simp]:
  "length xs = n \<Longrightarrow> read_exact e n (xs @ ys) = Inr (xs, ys)"
  by (simp add: read_exact_def)

lemma read_exact_one [simp]: "read_exact e (Suc 0) (x # ys) = Inr ([x], ys)"
  by (simp add: read_exact_def)

lemma slot_id_bytes: "word_of_nat (from_le (le_bytes 4 (unat i))) = (i :: slot_id)"
proof -
  have "unat i < 256 ^ 4" by (rule order_less_le_trans [OF unsigned_less]) simp
  then show ?thesis by (simp add: from_le_le_bytes)
qed

lemma read_slot_ids_written:
  "length idxs = length ids \<Longrightarrow>
   read_slot_ids idxs (concat (map (\<lambda>i. le_bytes 4 (unat i)) ids) @ rest) = Inr (ids, rest)"
  by (induction idxs ids rule: list_induct2) (simp_all add: slot_id_bytes)

lemma envelope_roundtrip:
  assumes "payload \<noteq> []" and "\<And>m. meta = Some m \<Longrightarrow> length (slot_ids_by_index m) < u32_limit"
  shows "decode_exchange_payload_envelope (encode_exchange_payload_envelope payload meta) = Inr (meta, payload)"
proof (cases meta)
  case None
  then show ?thesis using assms(1)
    by (simp add: encode_exchange_payload_envelope_def decode_exchange_payload_envelope_def EXCHANGE_PAYLOAD_MAGIC_def
      EXCHANGE_PAYLOAD_FLAG_SLOT_IDS_def from_le_le_bytes)
next
  case (Some m)
  have "length (slot_ids_by_index m) mod u32_limit mod 256 ^ 4 = length (slot_ids_by_index m)"
    using assms(2) [OF Some] by (simp add: u32_limit_def)
  then show ?thesis using assms(1) Some
    by (simp add: encode_exchange_payload_envelope_def decode_exchange_payload_envelope_def EXCHANGE_PAYLOAD_MAGIC_def
      EXCHANGE_PAYLOAD_FLAG_SLOT_IDS_def from_le_le_bytes read_slot_ids_written)
qed

subsection \<open>Chunks as the engine builds them\<close>

definition batch_ok :: "'v batch \<Rightarrow> bool" where
  "batch_ok b \<longleftrightarrow>
     (if batch_columns b = [] then batch_schema b = []
      else batch_accepts (batch_schema b) (batch_columns b) \<and> batch_rows b = arr_len (hd (batch_columns b)))"

definition chunk_ok :: "'v data_chunk \<Rightarrow> bool" where
  "chunk_ok c \<longleftrightarrow> batch_ok (ck_batch c) \<and> ck_schema c = schema_of (cs_slots (ck_schema c)) \<and>
     map slot_field (cs_slots (ck_schema c)) = batch_schema (ck_batch c) \<and>
     distinct (map slot_id (cs_slots (ck_schema c))) \<and> list_all slot_well_shaped (cs_slots (ck_schema c))"

lemma batch_ok_length: "batch_ok b \<Longrightarrow> length (batch_schema b) = length (batch_columns b)"
  by (auto simp: batch_ok_def batch_accepts_def split: if_splits)

lemma batch_ok_column:
  "batch_ok b \<Longrightarrow> k < length (batch_columns b) \<Longrightarrow>
   fld_type (batch_schema b ! k) = arr_type (batch_columns b ! k) \<and>
   (fld_nullable (batch_schema b ! k) \<or> arr_null_count (batch_columns b ! k) = 0)"
  by (auto simp: batch_ok_def batch_accepts_def list_all2_conv_all_nth split: if_splits)

lemma well_shaped_from_arrow:
  "well_shaped f t \<Longrightarrow> \<exists>g. from_arrow_data_type t = Inr g"
  "schemas_fit (\<lambda>d t. True) cs (map fld_type fs) \<Longrightarrow> \<exists>gs. from_arrow_fields fs = Inr gs"
proof (induction t and fs arbitrary: f and cs rule: from_arrow_data_type_from_arrow_fields.induct)
  case (1 t)
  obtain d cs where f: "f = ChunkFieldSchema d cs" by (cases f)
  consider (map) g ordered where "t = DMap g ordered" | (list) g where "t = DList g" | (large) g where "t = DLargeList g"
    | (struct) fs where "t = DStruct fs" | (scalar) "is_scalar t"
    by (cases t) (auto simp: is_scalar_def)
  then show ?case
  proof cases
    case map
    obtain n u b m where g: "g = Field n u b m" by (cases g)
    with 1(6) obtain x y where "u = DStruct [x, y]" and ws: "\<exists>c. well_shaped c (fld_type x)" "\<exists>c. well_shaped c (fld_type y)"
      by (auto simp: f map child_types_def split: data_type.splits list.splits)
    moreover obtain n1 k b1 m1 n2 v b2 m2 where xy: "x = Field n1 k b1 m1" "y = Field n2 v b2 m2" by (cases x, cases y)
    ultimately have u: "u = DStruct [Field n1 k b1 m1, Field n2 v b2 m2]" by simp
    obtain ck where ck: "from_arrow_data_type k = Inr ck" using 1(3) [OF map g u refl refl refl refl refl] ws(1) xy by auto
    obtain cv where "from_arrow_data_type v = Inr cv" using 1(4) [OF map g u refl refl refl refl refl ck] ws(2) xy by auto
    with ck show ?thesis using from_arrow_data_type.simps [of t] by (simp add: map g u)
  next
    case list
    obtain n u b m where g: "g = Field n u b m" by (cases g)
    from 1(6) obtain c where "well_shaped c u" by (auto simp: f list g child_types_def)
    from 1(1) [OF list g this] show ?thesis using from_arrow_data_type.simps [of t] by (auto simp: list g)
  next
    case large
    obtain n u b m where g: "g = Field n u b m" by (cases g)
    from 1(6) obtain c where "well_shaped c u" by (auto simp: f large g child_types_def)
    from 1(2) [OF large g this] show ?thesis using from_arrow_data_type.simps [of t] by (auto simp: large g)
  next
    case struct
    from 1(6) have "schemas_fit (\<lambda>d t. True) cs (map fld_type fs)" by (simp add: f struct child_types_def)
    from 1(5) [OF struct this] show ?thesis using from_arrow_data_type.simps [of t] by (auto simp: struct)
  next
    case scalar
    then show ?thesis using from_arrow_data_type.simps [of t] by (cases t) (simp_all add: is_scalar_def)
  qed
next
  case (3 n t b m fs)
  then obtain c cs' where ws: "well_shaped c t" "schemas_fit (\<lambda>d t. True) cs' (map fld_type fs)" by auto
  from 3(1) [OF ws(1)] obtain g where g: "from_arrow_data_type t = Inr g" by blast
  from 3(2) [OF g ws(2)] obtain gs where "from_arrow_fields fs = Inr gs" by blast
  with g show ?case by simp
qed simp

subsection \<open>The merged schema\<close>

text \<open>Chunks of one exchange have equal types, so merging only widens to nullable.\<close>

definition widen :: "field \<Rightarrow> field \<Rightarrow> field" where
  "widen f g = Field (fld_name f) (fld_type f) (fld_nullable f \<or> fld_nullable g) (fld_meta f)"

lemma widen_simps [simp]:
  "fld_type (widen f g) = fld_type f" "fld_nullable (widen f g) \<longleftrightarrow> fld_nullable f \<or> fld_nullable g"
  by (simp_all add: widen_def)

lemma merge_same_type: "fld_type f = fld_type g \<Longrightarrow> merge_exchange_field f g = Inr (widen f g)"
  by (cases f) (auto simp: merge_exchange_field.simps merge_exchange_field_type.simps widen_def Let_def)

lemma exchange_field_from_array_same:
  "fld_type f = arr_type a \<Longrightarrow> fld_nullable f \<or> arr_null_count a = 0 \<Longrightarrow> exchange_field_from_array f a = f"
  by (cases f) (auto simp: exchange_field_from_array_def)

lemma array_fields_ok: "batch_ok (ck_batch c) \<Longrightarrow> array_fields c = batch_schema (ck_batch c)"
  using batch_ok_length [of "ck_batch c"] batch_ok_column [of "ck_batch c"]
  by (intro nth_equalityI) (simp_all add: array_fields_def exchange_field_from_array_same)

lemma for_each_map: "for_each body (map f xs) s = for_each (\<lambda>x. body (f x)) xs s"
  by (induction xs arbitrary: s) (auto split: prod.splits option.splits)

lemma zip_upt: "zip [0..<length xs] xs = map (\<lambda>k. (k, xs ! k)) [0..<length xs]"
  by (intro nth_equalityI) simp_all

lemma merge_fields_loop:
  assumes "map fld_type fs = map fld_type gs"
  shows "for_each (merge_chunk_field idx) (zip [0..<length gs] gs) fs = (None, map2 widen fs gs)"
proof -
  have len: "length fs = length gs" using assms by (metis length_map)
  have ty: "fld_type (fs ! k) = fld_type (gs ! k)" if "k < length gs" for k
    using assms len that by (metis nth_map)
  let ?s = "\<lambda>k. map2 widen (take k fs) (take k gs) @ drop k fs"
  have "merge_chunk_field idx (k, gs ! k) (?s k) = (None, ?s (Suc k))" if k: "k < length gs" for k
  proof -
    have "?s k ! k = fs ! k" using k len by (simp add: nth_append)
    moreover have "(?s k)[k := widen (fs ! k) (gs ! k)] = ?s (Suc k)"
      using k len by (simp add: list_update_append take_Suc_conv_app_nth Cons_nth_drop_Suc [symmetric])
    ultimately show ?thesis using k len ty by (simp add: merge_chunk_field_def merge_same_type)
  qed
  from for_each_upt [where s = ?s and body = "\<lambda>k. merge_chunk_field idx (k, gs ! k)", OF this] show ?thesis unfolding zip_upt for_each_map by (simp add: len)
qed

definition merged_fields :: "field list \<Rightarrow> 'v data_chunk list \<Rightarrow> field list" where
  "merged_fields fs cs = foldl (\<lambda>fs c. map2 widen fs (batch_schema (ck_batch c))) fs cs"

lemma types_map2_widen: "length fs = length gs \<Longrightarrow> map fld_type (map2 widen fs gs) = map fld_type fs"
  by (intro nth_equalityI) simp_all

lemma merged_types:
  "\<forall>c \<in> set cs. length (batch_schema (ck_batch c)) = length fs \<Longrightarrow>
   map fld_type (merged_fields fs cs) = map fld_type fs"
proof (induction cs arbitrary: fs)
  case (Cons c cs)
  then have "map fld_type (merged_fields (map2 widen fs (batch_schema (ck_batch c))) cs) =
      map fld_type (map2 widen fs (batch_schema (ck_batch c)))" by (intro Cons.IH) simp
  with Cons.prems show ?case by (simp add: merged_fields_def types_map2_widen del: map_map)
qed (simp add: merged_fields_def)

lemma merged_nullable:
  "\<forall>c \<in> set cs. length (batch_schema (ck_batch c)) = length fs \<Longrightarrow> k < length fs \<Longrightarrow>
   fld_nullable (merged_fields fs cs ! k) \<longleftrightarrow>
     fld_nullable (fs ! k) \<or> (\<exists>c \<in> set cs. fld_nullable (batch_schema (ck_batch c) ! k))"
  by (induction cs arbitrary: fs) (auto simp: merged_fields_def)

lemma compatible_types:
  assumes "exchange_schema_compatible a b" "chunk_ok a" "chunk_ok b"
  shows "map fld_type (batch_schema (ck_batch a)) = map fld_type (batch_schema (ck_batch b))"
    and "chunk_slot_ids a = chunk_slot_ids b"
proof -
  let ?fa = "batch_schema (ck_batch a)" and ?fb = "batch_schema (ck_batch b)"
  let ?sa = "cs_slots (ck_schema a)" and ?sb = "cs_slots (ck_schema b)"
  have len: "length ?sa = length ?fa" "length ?sb = length ?fb" "length ?fa = length ?fb"
    using assms by (auto simp: chunk_ok_def exchange_schema_compatible_def dest: arg_cong [where f = length])
  have "slot_id (?sa ! k) = slot_id (?sb ! k) \<and> fld_type (?fa ! k) = fld_type (?fb ! k)" if "k < length ?fa" for k
  proof -
    have "((?fa ! k, ?fb ! k), (?sa ! k, ?sb ! k)) \<in> set (zip (zip ?fa ?fb) (zip ?sa ?sb))"
      using that len by (auto simp: in_set_conv_nth intro!: exI [of _ k])
    with assms(1) show ?thesis unfolding exchange_schema_compatible_def by fastforce
  qed
  with len show "map fld_type ?fa = map fld_type ?fb" and "chunk_slot_ids a = chunk_slot_ids b"
    by (auto simp: chunk_slot_ids_def intro!: nth_equalityI)
qed

lemma merge_chunks_loop:
  assumes "length idxs = length cs" and "chunk_ok first"
    and "\<forall>c \<in> set cs. chunk_ok c \<and> exchange_schema_compatible first c"
    and "map fld_type fs = map fld_type (batch_schema (ck_batch first))"
  shows "for_each (merge_chunk first) (zip idxs cs) fs = (None, merged_fields fs cs)"
  using assms
proof (induction idxs cs arbitrary: fs rule: list_induct2)
  case (Cons i idxs c cs)
  have c: "chunk_ok c" "exchange_schema_compatible first c" "array_fields c = batch_schema (ck_batch c)"
    using Cons.prems by (auto simp: chunk_ok_def array_fields_ok)
  have ty: "map fld_type fs = map fld_type (batch_schema (ck_batch c))"
    using compatible_types(1) [OF c(2) Cons.prems(1) c(1)] Cons.prems(3) by simp
  then have "length fs = length (batch_schema (ck_batch c))" by (metis length_map)
  then have "map fld_type (map2 widen fs (batch_schema (ck_batch c))) = map fld_type (batch_schema (ck_batch first))"
    using Cons.prems(3) by (simp only: types_map2_widen)
  with Cons.IH Cons.prems merge_fields_loop [OF ty, of i] c show ?case
    by (simp add: merge_chunk_def merged_fields_def del: map_map)
qed (simp add: merged_fields_def)

lemma merged_exchange_schema_eq:
  assumes "\<forall>c \<in> set (first # rest). chunk_ok c" and "\<forall>c \<in> set rest. exchange_schema_compatible first c"
  shows "merged_exchange_schema (first # rest) = Inr (merged_fields (batch_schema (ck_batch first)) rest)"
proof -
  have "array_fields first = batch_schema (ck_batch first)" using assms(1) by (simp add: chunk_ok_def array_fields_ok)
  with merge_chunks_loop [of "[1..<length (first # rest)]" rest first "batch_schema (ck_batch first)"] assms
  show ?thesis by (simp add: merged_exchange_schema_def del: upt_Suc)
qed

subsection \<open>Writing and reading a stream\<close>

text \<open>
  What Arrow promises: batches are validated as documented, an empty batch keeps its row count,
  an array of zeros has no nulls, and a stream that was written without an error is not empty and
  is read back as the batches written, which have the schema of the stream.
\<close>

definition exchange_laws :: "'v exchange_libs \<Rightarrow> bool" where
  "exchange_laws libs \<longleftrightarrow>
     record_batch_law (batch_new libs) \<and>
     (\<forall>n. empty_batch libs n = Inr \<lparr>batch_schema = [], batch_columns = [], batch_rows = n\<rparr>) \<and>
     (\<forall>n. arr_type (zero_int8_array libs n) = DInt8 \<and> arr_len (zero_int8_array libs n) = n \<and>
        arr_null_count (zero_int8_array libs n) = 0) \<and>
     (\<forall>schema bs bytes. ipc_write libs schema bs = Inr bytes \<and> (\<forall>b \<in> set bs. batch_schema b = schema) \<longrightarrow>
        bytes \<noteq> [] \<and> ipc_read libs bytes = Inr (map Inr bs))"

definition marker_batch :: "'v exchange_libs \<Rightarrow> nat \<Rightarrow> 'v batch" where
  "marker_batch libs n = \<lparr>batch_schema = [new_field EXCHANGE_ZERO_COLUMN_MARKER_FIELD DInt8 False],
     batch_columns = [zero_int8_array libs n], batch_rows = n\<rparr>"

lemma build_marker: "exchange_laws libs \<Longrightarrow> build_zero_column_marker_batch libs n = Inr (marker_batch libs n)"
  by (simp add: exchange_laws_def record_batch_law_def build_zero_column_marker_batch_def marker_batch_def
      batch_accepts_def)

lemma batch_accepts_fields:
  assumes "batch_accepts fs cols" and "length gs = length cols"
    and "\<And>k. k < length gs \<Longrightarrow> fld_type (gs ! k) = arr_type (cols ! k) \<and> (fld_nullable (gs ! k) \<or> arr_null_count (cols ! k) = 0)"
  shows "batch_accepts gs cols"
proof -
  have "list_all2 (\<lambda>f c. fld_type f = arr_type c \<and> (fld_nullable f \<or> arr_null_count c = 0)) gs cols"
    unfolding list_all2_conv_all_nth using assms(2,3) by blast
  with assms(1,2) show ?thesis unfolding batch_accepts_def by blast
qed

lemma normalize_same_types:
  assumes "exchange_laws libs" and ok: "batch_ok (ck_batch c)" and "schema \<noteq> []"
    and ty: "map fld_type schema = map fld_type (batch_schema (ck_batch c))"
    and nl: "\<And>k. k < length schema \<Longrightarrow> fld_nullable (batch_schema (ck_batch c) ! k) \<Longrightarrow> fld_nullable (schema ! k)"
  shows "normalize_chunk libs schema (i, c) = Inr ((ck_batch c)\<lparr>batch_schema := schema\<rparr>)"
    and "batch_ok ((ck_batch c)\<lparr>batch_schema := schema\<rparr>)"
proof -
  have len: "length schema = length (batch_columns (ck_batch c))"
    using ty batch_ok_length [OF ok] by (metis length_map)
  with assms(3) have ne: "batch_columns (ck_batch c) \<noteq> []" by auto
  have "fld_type (schema ! k) = arr_type (batch_columns (ck_batch c) ! k) \<and>
      (fld_nullable (schema ! k) \<or> arr_null_count (batch_columns (ck_batch c) ! k) = 0)" if k: "k < length schema" for k
  proof -
    have "fld_type (schema ! k) = fld_type (batch_schema (ck_batch c) ! k)"
      using arg_cong [OF ty, of "\<lambda>ts. ts ! k"] k len batch_ok_length [OF ok] by simp
    with batch_ok_column [OF ok, of k] nl [OF k] k len show ?thesis by auto
  qed
  note col = this
  have "batch_accepts (batch_schema (ck_batch c)) (batch_columns (ck_batch c))" using ok ne by (simp add: batch_ok_def)
  from batch_accepts_fields [OF this len col] have acc: "batch_accepts schema (batch_columns (ck_batch c))" .
  have rows: "batch_rows (ck_batch c) = arr_len (hd (batch_columns (ck_batch c)))" using ok ne by (simp add: batch_ok_def)
  show "batch_ok ((ck_batch c)\<lparr>batch_schema := schema\<rparr>)" using acc ne rows by (simp add: batch_ok_def)
  have "batch_new libs schema (batch_columns (ck_batch c)) =
      Inr \<lparr>batch_schema = schema, batch_columns = batch_columns (ck_batch c), batch_rows = batch_rows (ck_batch c)\<rparr>"
    using assms(1) acc rows by (simp add: exchange_laws_def record_batch_law_def)
  then show "normalize_chunk libs schema (i, c) = Inr ((ck_batch c)\<lparr>batch_schema := schema\<rparr>)"
    by (cases "ck_batch c") (auto simp: normalize_chunk_def)
qed

text \<open>The schema and the batches that go on the wire.\<close>

definition wire_schema :: "'v data_chunk list \<Rightarrow> field list" where
  "wire_schema chunks = merged_fields (batch_schema (ck_batch (hd chunks))) (tl chunks)"

definition wire_batch :: "'v exchange_libs \<Rightarrow> 'v data_chunk list \<Rightarrow> 'v data_chunk \<Rightarrow> 'v batch" where
  "wire_batch libs chunks c =
     (if wire_schema chunks = [] then marker_batch libs (batch_rows (ck_batch c))
      else (ck_batch c)\<lparr>batch_schema := wire_schema chunks\<rparr>)"

definition stream_schema :: "'v data_chunk list \<Rightarrow> field list" where
  "stream_schema chunks =
     (if wire_schema chunks = [] then [new_field EXCHANGE_ZERO_COLUMN_MARKER_FIELD DInt8 False] else wire_schema chunks)"

lemma wire_batch_schema [simp]: "batch_schema (wire_batch libs chunks c) = stream_schema chunks"
  by (simp add: wire_batch_def stream_schema_def marker_batch_def)

definition one_exchange :: "'v data_chunk list \<Rightarrow> bool" where
  "one_exchange chunks \<longleftrightarrow> chunks \<noteq> [] \<and> list_all chunk_ok chunks \<and>
     list_all (exchange_schema_compatible (hd chunks)) (tl chunks)"

lemma one_exchange_types:
  assumes "one_exchange chunks" and "c \<in> set chunks"
  shows "map fld_type (wire_schema chunks) = map fld_type (batch_schema (ck_batch c))"
    and "chunk_slot_ids c = chunk_slot_ids (hd chunks)"
    and "k < length (wire_schema chunks) \<Longrightarrow> fld_nullable (batch_schema (ck_batch c) ! k) \<Longrightarrow> fld_nullable (wire_schema chunks ! k)"
proof -
  obtain a cs where chunks: "chunks = a # cs" using assms(1) by (auto simp: one_exchange_def neq_Nil_conv)
  have comp: "map fld_type (batch_schema (ck_batch a)) = map fld_type (batch_schema (ck_batch x))"
    "chunk_slot_ids a = chunk_slot_ids x" if "x \<in> set cs" for x
    using assms(1) that compatible_types [of a x] by (auto simp: one_exchange_def chunks list_all_iff)
  then have len: "\<forall>x \<in> set cs. length (batch_schema (ck_batch x)) = length (batch_schema (ck_batch a))" by (metis length_map)
  from merged_types [OF len] have ty: "map fld_type (wire_schema chunks) = map fld_type (batch_schema (ck_batch a))"
    by (simp add: wire_schema_def chunks)
  with comp assms(2) show "map fld_type (wire_schema chunks) = map fld_type (batch_schema (ck_batch c))"
    by (auto simp: chunks)
  show "chunk_slot_ids c = chunk_slot_ids (hd chunks)" using comp(2) assms(2) by (auto simp: chunks)
  assume k: "k < length (wire_schema chunks)" and "fld_nullable (batch_schema (ck_batch c) ! k)"
  moreover have "k < length (batch_schema (ck_batch a))" using k arg_cong [OF ty, of length] by simp
  ultimately show "fld_nullable (wire_schema chunks ! k)"
    using merged_nullable [OF len, of k] assms(2) by (auto simp: wire_schema_def chunks)
qed

lemma encode_arrow_eq:
  assumes "exchange_laws libs" and "one_exchange chunks"
  shows "encode_arrow_ipc_chunks libs chunks =
    map_sum IpcFailed id (ipc_write libs (stream_schema chunks) (map (wire_batch libs chunks) chunks))"
proof -
  obtain a cs where chunks: "chunks = a # cs" using assms(2) by (auto simp: one_exchange_def neq_Nil_conv)
  have merged: "merged_exchange_schema chunks = Inr (wire_schema chunks)"
    using merged_exchange_schema_eq [of a cs] assms(2) by (simp add: one_exchange_def chunks wire_schema_def list_all_iff)
  show ?thesis
  proof (cases "wire_schema chunks = []")
    case True
    then have "collect_ok (map (\<lambda>c. build_zero_column_marker_batch libs (batch_rows (ck_batch c))) chunks) =
        Inr (map (wire_batch libs chunks) chunks)"
      by (simp add: collect_ok_eq_Inr build_marker [OF assms(1)] wire_batch_def)
    moreover have "map (wire_batch libs chunks) chunks = wire_batch libs chunks a # map (wire_batch libs chunks) cs"
      by (simp add: chunks)
    ultimately show ?thesis using True merged by (simp add: encode_arrow_ipc_chunks_def chunks)
  next
    case False
    have "normalize_chunk libs (wire_schema chunks) (i, c) = Inr (wire_batch libs chunks c)" if "c \<in> set chunks" for i c
      using normalize_same_types(1) [OF assms(1) _ False one_exchange_types(1,3) [OF assms(2) that]] that assms(2) False
      by (auto simp: one_exchange_def list_all_iff chunk_ok_def wire_batch_def)
    then have "collect_ok (map (normalize_chunk libs (wire_schema chunks)) (zip [0..<length chunks] chunks)) =
        Inr (map (wire_batch libs chunks) chunks)"
      unfolding collect_ok_eq_Inr by (intro nth_equalityI) simp_all
    with False merged show ?thesis by (simp add: encode_arrow_ipc_chunks_def chunks stream_schema_def)
  qed
qed

lemma check_schemas_same:
  "\<forall>b \<in> set bs. batch_schema b = schema \<Longrightarrow> expected = None \<or> expected = Some schema \<Longrightarrow>
   check_batch_schemas expected (map Inr bs) = Inr bs"
  by (induction bs arbitrary: expected) auto

lemma decode_written:
  assumes "exchange_laws libs" and "ipc_write libs schema bs = Inr bytes" and "\<forall>b \<in> set bs. batch_schema b = schema"
  shows "bytes \<noteq> []" and "decode_arrow_ipc_batches libs bytes = Inr bs"
proof -
  have "bytes \<noteq> [] \<and> ipc_read libs bytes = Inr (map Inr bs)"
    using assms unfolding exchange_laws_def by blast
  then show "bytes \<noteq> []" and "decode_arrow_ipc_batches libs bytes = Inr bs"
    by (simp_all add: decode_arrow_ipc_batches_def check_schemas_same [OF assms(3)])
qed

subsection \<open>Slots of the chunks read\<close>

lemma decode_batch_slots:
  assumes "restore_zero_column_batch_if_needed libs b meta = Inr b'"
    and "chunk_schema_for_wire_meta expected b' meta = Inr (schema_of slots)"
    and "map slot_field slots = batch_schema b'" and "batch_ok b'" and "distinct (map slot_id slots)"
  shows "decode_batch libs expected meta b = Inr \<lparr>ck_batch = b', ck_schema = schema_of slots\<rparr>"
proof -
  have "length slots = length (batch_columns b')"
    using assms(3) batch_ok_length [OF assms(4)] by (metis length_map)
  from align_batch_self [OF assms(3) this assms(5)] assms(1,2) show ?thesis
    by (simp add: decode_batch_def try_new_with_chunk_schema_def)
qed

lemma wire_slots_from_batch:
  assumes "batch_ok b" and "length ids = length (batch_columns b)" and "distinct ids"
    and "\<forall>f \<in> set (batch_schema b). \<exists>g. well_shaped g (fld_type f)"
  shows "\<exists>slots. chunk_schema_for_wire_meta None b \<lparr>slot_ids_by_index = ids\<rparr> = Inr (schema_of slots) \<and>
    map slot_id slots = ids \<and> map slot_field slots = batch_schema b \<and> list_all slot_well_shaped slots"
proof -
  let ?slot = "\<lambda>f i. \<lparr>slot_id = i, slot_field = f, slot_field_schema = projr (from_arrow_data_type (fld_type f)), slot_unique_id = None\<rparr>"
  let ?slots = "map2 ?slot (batch_schema b) ids"
  have len: "length (batch_schema b) = length ids" using batch_ok_length [OF assms(1)] assms(2) by simp
  have ok: "from_arrow_data_type (fld_type f) = Inr (projr (from_arrow_data_type (fld_type f)))" if "f \<in> set (batch_schema b)" for f
    using assms(4) that well_shaped_from_arrow(1) by fastforce
  have "map2 (\<lambda>f i. slot_from_field i f None) (batch_schema b) ids = map Inr ?slots"
  proof (intro nth_equalityI)
    fix k assume "k < length (map2 (\<lambda>f i. slot_from_field i f None) (batch_schema b) ids)"
    then have k: "k < length ids" using len by simp
    from ok [of "batch_schema b ! k"] obtain g where "from_arrow_data_type (fld_type (batch_schema b ! k)) = Inr g"
      using k len by auto
    with k len show "map2 (\<lambda>f i. slot_from_field i f None) (batch_schema b) ids ! k = map Inr ?slots ! k"
      by (simp add: slot_from_field_def slot_try_new_with_field_def)
  qed simp
  then have col: "collect_ok (map2 (\<lambda>f i. slot_from_field i f None) (batch_schema b) ids) = Inr ?slots"
    by (simp only: collect_ok_eq_Inr)
  have ids: "map slot_id ?slots = ids" and fs: "map slot_field ?slots = batch_schema b"
    using len by (auto intro!: nth_equalityI)
  have "schema_try_new ?slots = Inr (schema_of ?slots)" using assms(3) ids by (simp only: schema_try_new_eq)
  with col have "chunk_schema_for_wire_meta None b \<lparr>slot_ids_by_index = ids\<rparr> = Inr (schema_of ?slots)"
    using assms(2) len by (simp add: chunk_schema_for_wire_meta_def schema_from_slot_ids_def)
  moreover have "list_all slot_well_shaped ?slots"
    using ok from_arrow_well_shaped(1) by (auto simp: list_all_iff slot_well_shaped_def dest: set_zip_leftD)
  ultimately show ?thesis using ids fs by blast
qed

lemma decode_wire_batch:
  assumes "exchange_laws libs" and "one_exchange chunks" and c: "c \<in> set chunks"
  shows "\<exists>c'. decode_batch libs None \<lparr>slot_ids_by_index = chunk_slot_ids (hd chunks)\<rparr> (wire_batch libs chunks c) = Inr c' \<and>
    batch_columns (ck_batch c') = batch_columns (ck_batch c) \<and> batch_rows (ck_batch c') = batch_rows (ck_batch c) \<and>
    batch_schema (ck_batch c') = wire_schema chunks \<and> chunk_slot_ids c' = chunk_slot_ids c \<and> chunk_ok c'"
proof -
  let ?ids = "chunk_slot_ids (hd chunks)"
  let ?b = "(ck_batch c)\<lparr>batch_schema := wire_schema chunks\<rparr>"
  note ty = one_exchange_types [OF assms(2) c]
  have ok: "chunk_ok c" using assms(2) c by (simp add: one_exchange_def list_all_iff)
  then have bok: "batch_ok (ck_batch c)" by (simp add: chunk_ok_def)
  have len: "length ?ids = length (batch_columns (ck_batch c))"
    using ok batch_ok_length [OF bok] ty(2) by (metis chunk_ok_def chunk_slot_ids_def length_map)
  have wlen: "length (wire_schema chunks) = length (batch_columns (ck_batch c))"
    using ty(1) batch_ok_length [OF bok] by (metis length_map)
  have okb: "batch_ok ?b"
    using normalize_same_types(2) [OF assms(1) bok _ ty(1,3)] wlen by (cases "wire_schema chunks = []") (auto simp: batch_ok_def)
  have restore: "restore_zero_column_batch_if_needed libs (wire_batch libs chunks c) \<lparr>slot_ids_by_index = ?ids\<rparr> = Inr ?b"
  proof (cases "wire_schema chunks = []")
    case True
    then have "?ids = []" "batch_columns (ck_batch c) = []" using len wlen by simp_all
    with True assms(1) show ?thesis
      by (cases "ck_batch c") (simp add: restore_zero_column_batch_if_needed_def wire_batch_def marker_batch_def exchange_laws_def)
  next
    case False
    then have "?ids \<noteq> []" using len wlen by auto
    with False show ?thesis by (simp add: restore_zero_column_batch_if_needed_def wire_batch_def)
  qed
  have "\<exists>g. well_shaped g (fld_type f)" if "f \<in> set (wire_schema chunks)" for f
  proof -
    have bs: "batch_schema (ck_batch c) = map slot_field (cs_slots (ck_schema c))" using ok by (simp add: chunk_ok_def)
    have "fld_type f \<in> set (map fld_type (batch_schema (ck_batch c)))" using that by (simp flip: ty(1))
    then obtain x where "x \<in> set (cs_slots (ck_schema c))" "fld_type f = fld_type (slot_field x)" unfolding bs by auto
    with ok show ?thesis by (auto simp: chunk_ok_def slot_well_shaped_def list_all_iff)
  qed
  moreover have "distinct ?ids" using ok ty(2) by (simp add: chunk_ok_def chunk_slot_ids_def)
  ultimately obtain slots where slots: "chunk_schema_for_wire_meta None ?b \<lparr>slot_ids_by_index = ?ids\<rparr> = Inr (schema_of slots)"
    "map slot_id slots = ?ids" "map slot_field slots = wire_schema chunks" "list_all slot_well_shaped slots"
    using wire_slots_from_batch [OF okb, of ?ids] len by auto
  have "decode_batch libs None \<lparr>slot_ids_by_index = ?ids\<rparr> (wire_batch libs chunks c) = Inr \<lparr>ck_batch = ?b, ck_schema = schema_of slots\<rparr>"
    using decode_batch_slots [OF restore slots(1)] slots(2,3) okb \<open>distinct ?ids\<close> by simp
  then show ?thesis using slots okb \<open>distinct ?ids\<close> ty(2) by (simp add: chunk_ok_def chunk_slot_ids_def)
qed

lemma wire_meta_one_exchange:
  assumes "one_exchange chunks"
  shows "wire_meta_from_chunks chunks = Inr (Some \<lparr>slot_ids_by_index = chunk_slot_ids (hd chunks)\<rparr>)"
proof -
  obtain a cs where chunks: "chunks = a # cs" using assms by (auto simp: one_exchange_def neq_Nil_conv)
  have same: "\<forall>p \<in> set (zip [1..<length chunks] cs). chunk_slot_ids (snd p) = chunk_slot_ids a"
  proof
    fix p assume "p \<in> set (zip [1..<length chunks] cs)"
    then have "snd p \<in> set cs" by (metis prod.collapse set_zip_rightD)
    then have "snd p \<in> set chunks" by (simp add: chunks)
    from one_exchange_types(2) [OF assms this] show "chunk_slot_ids (snd p) = chunk_slot_ids a" by (simp add: chunks)
  qed
  have "for_each (\<lambda>(idx, c) s. (if chunk_slot_ids c \<noteq> chunk_slot_ids a then Some (WireSlotMismatch idx) else None, s)) ps () = (None, ())"
    if "\<forall>p \<in> set ps. chunk_slot_ids (snd p) = chunk_slot_ids a" for ps :: "(nat \<times> 'a data_chunk) list"
    using that by (induction ps) auto
  from this [OF same] show ?thesis by (simp add: wire_meta_from_chunks_def chunks del: upt_Suc)
qed

text \<open>The slot of the receiver's schema that a column of the payload belongs to.\<close>

definition ids_match :: "slot_schema list \<Rightarrow> slot_id list \<Rightarrow> bool" where
  "ids_match es ids \<longleftrightarrow> set ids \<subseteq> slot_id ` set es"

definition receiver_slot :: "slot_schema list \<Rightarrow> slot_id list \<Rightarrow> nat \<Rightarrow> slot_schema" where
  "receiver_slot es ids k = (if ids_match es ids then the (schema_slot (schema_of es) (ids ! k)) else es ! k)"

definition receiver_ids :: "slot_schema list \<Rightarrow> slot_id list \<Rightarrow> slot_id list" where
  "receiver_ids es ids = (if ids_match es ids then ids else take (length ids) (map slot_id es))"

lemma schema_slot_iff:
  "distinct (map slot_id es) \<Longrightarrow> schema_slot (schema_of es) i \<noteq> None \<longleftrightarrow> i \<in> slot_id ` set es"
proof
  assume "distinct (map slot_id es)"
  then show "i \<in> slot_id ` set es \<Longrightarrow> schema_slot (schema_of es) i \<noteq> None" using schema_slot_lookup by fastforce
  assume "schema_slot (schema_of es) i \<noteq> None"
  then have "i \<in> dom (cs_index_by_slot (schema_of es))" by (auto simp: schema_slot_def split: bind_splits)
  then show "i \<in> slot_id ` set es" by (auto simp: schema_of_def dest!: map_of_SomeD set_zip_leftD)
qed

lemma wire_slot_eq:
  assumes "distinct (map slot_id es)" and "k < length ids"
  shows "wire_slot (schema_of es) (ids_match es ids) b (k, ids ! k) = Inr x \<longleftrightarrow>
    (ids_match es ids \<or> k < length es) \<and> wire_type_ok (receiver_slot es ids k) (batch_schema b ! k) \<and>
    x = (receiver_slot es ids k)\<lparr>slot_id := receiver_ids es ids ! k, slot_field := batch_schema b ! k\<rparr>"
proof (cases "ids_match es ids")
  case True
  then have "schema_slot (schema_of es) (ids ! k) \<noteq> None"
    using assms by (subst schema_slot_iff) (auto simp: ids_match_def)
  then obtain y where y: "schema_slot (schema_of es) (ids ! k) = Some y" by blast
  show ?thesis using True
    by (cases "wire_type_ok y (batch_schema b ! k)")
      (auto simp: wire_slot_def y receiver_slot_def receiver_ids_def slot_with_field_and_slot_id_def slot_try_new_with_field_def Let_def)
next
  case False
  with assms(2) show ?thesis
    by (cases "wire_type_ok (es ! k) (batch_schema b ! k)")
      (auto simp: wire_slot_def receiver_slot_def receiver_ids_def slot_with_field_and_slot_id_def slot_try_new_with_field_def Let_def)
qed

lemma all_less_iff: "(\<forall>k < n. k < m) \<longleftrightarrow> n \<le> (m :: nat)"
proof
  assume "\<forall>k < n. k < m"
  then have "\<not> m < n" by blast
  then show "n \<le> m" by simp
qed auto

lemma eq_map_upt: "xs = map f [0..<n] \<longleftrightarrow> length xs = n \<and> (\<forall>k < n. xs ! k = f k)"
  by (auto intro: nth_equalityI)

lemma map_upt_eq_map_Inr: "map f [0..<n] = map Inr xs \<longleftrightarrow> length xs = n \<and> (\<forall>k < n. f k = Inr (xs ! k))"
  unfolding eq_commute [of "map f [0..<n]"] eq_map_upt by (auto simp: eq_commute)

lemma map_err_eq_Inr: "map_sum f id r = Inr x \<longleftrightarrow> r = Inr x"
  by (cases r) auto

lemma decode_with_expected:
  assumes "batch_ok b" and "ids \<noteq> []" and "distinct (map slot_id es)" and "distinct ids"
  shows "decode_batch libs (Some (schema_of es)) \<lparr>slot_ids_by_index = ids\<rparr> b = Inr c \<longleftrightarrow>
    length ids = length (batch_columns b) \<and> (ids_match es ids \<or> length ids \<le> length es) \<and>
    (\<forall>k < length ids. wire_type_ok (receiver_slot es ids k) (batch_schema b ! k)) \<and>
    c = \<lparr>ck_batch = b, ck_schema = schema_of (map (\<lambda>k. (receiver_slot es ids k)
      \<lparr>slot_id := receiver_ids es ids ! k, slot_field := batch_schema b ! k\<rparr>) [0..<length ids])\<rparr>"
    (is "?lhs \<longleftrightarrow> ?n \<and> ?m \<and> ?t \<and> c = ?c")
proof (cases ?n)
  case True
  let ?ws = "map (wire_slot (schema_of es) (ids_match es ids) b) (zip [0..<length ids] ids)"
  let ?slots = "map (\<lambda>k. (receiver_slot es ids k)\<lparr>slot_id := receiver_ids es ids ! k, slot_field := batch_schema b ! k\<rparr>) [0..<length ids]"
  let ?meta = "\<lparr>slot_ids_by_index = ids\<rparr>"
  have match: "list_all (\<lambda>i. schema_slot (schema_of es) i \<noteq> None) ids = ids_match es ids"
    unfolding list_all_iff ids_match_def schema_slot_iff [OF assms(3)] by blast
  have restore: "restore_zero_column_batch_if_needed libs b ?meta = Inr b"
    using assms(2) by (simp add: restore_zero_column_batch_if_needed_def)
  have nth: "?ws = map Inr slots \<longleftrightarrow> length slots = length ids \<and> (\<forall>k < length ids. wire_slot (schema_of es) (ids_match es ids) b (k, ids ! k) = Inr (slots ! k))" for slots
    unfolding zip_upt map_map comp_def by (rule map_upt_eq_map_Inr)
  have m: "?m \<longleftrightarrow> (\<forall>k < length ids. ids_match es ids \<or> k < length es)"
    using all_less_iff [of "length ids" "length es"] by blast
  have sl: "slots = ?slots \<longleftrightarrow> length slots = length ids \<and> (\<forall>k < length ids. slots ! k = (receiver_slot es ids k)
      \<lparr>slot_id := receiver_ids es ids ! k, slot_field := batch_schema b ! k\<rparr>)" for slots
    by (rule eq_map_upt)
  have ws: "collect_ok ?ws = Inr slots \<longleftrightarrow> ?m \<and> ?t \<and> slots = ?slots" for slots
    unfolding collect_ok_eq_Inr nth m sl using wire_slot_eq [OF assms(3), of _ ids b] by blast
  have fields: "map slot_field ?slots = batch_schema b"
    using True batch_ok_length [OF assms(1)] by (intro nth_equalityI) simp_all
  have ids: "map slot_id ?slots = receiver_ids es ids" if ?m
    using that by (intro nth_equalityI) (auto simp: receiver_ids_def)
  have dist: "distinct (map slot_id ?slots)" if ?m
    unfolding ids [OF that] using assms(3,4) by (simp add: receiver_ids_def distinct_take)
  have cs: "chunk_schema_for_wire_meta (Some (schema_of es)) b ?meta = Inr cs \<longleftrightarrow> ?m \<and> ?t \<and> cs = schema_of ?slots" for cs
  proof -
    have eq: "chunk_schema_for_wire_meta (Some (schema_of es)) b ?meta =
        result_bind (collect_ok ?ws) (\<lambda>slots. map_sum WireSchema id (schema_try_new slots))"
      using True match by (simp only: chunk_schema_for_wire_meta_def Let_def option.case wire_meta.select_convs) simp
    show ?thesis unfolding eq result_bind_eq_Inr ws map_err_eq_Inr schema_try_new_eq using dist by blast
  qed
  show ?thesis
  proof
    assume ?lhs
    then obtain cs' where "chunk_schema_for_wire_meta (Some (schema_of es)) b ?meta = Inr cs'"
      by (auto simp: decode_batch_def restore rust_results)
    then have mt: ?m ?t and eq: "chunk_schema_for_wire_meta (Some (schema_of es)) b ?meta = Inr (schema_of ?slots)" using cs by auto
    from decode_batch_slots [OF restore eq fields assms(1) dist [OF mt(1)]] \<open>?lhs\<close> mt True
    show "?n \<and> ?m \<and> ?t \<and> c = ?c" by simp
  next
    assume r: "?n \<and> ?m \<and> ?t \<and> c = ?c"
    then have m: ?m and eq: "chunk_schema_for_wire_meta (Some (schema_of es)) b ?meta = Inr (schema_of ?slots)" using cs by auto
    from decode_batch_slots [OF restore eq fields assms(1) dist [OF m]] r show ?lhs by simp
  qed
next
  case False
  then show ?thesis using assms(2)
    by (simp add: decode_batch_def restore_zero_column_batch_if_needed_def chunk_schema_for_wire_meta_def)
qed

subsection \<open>Properties of the payload\<close>

text \<open>
  (C34) Chunks of one exchange survive the wire. The only way encoding can fail is Arrow's own
  stream writer. Otherwise the payload opens to the slot ids of the chunks and decodes to as many
  chunks with the same columns, row counts and slot ids, chunks without columns included; the
  nullability of a column is the union over the chunks, and the chunks read are well formed again.
\<close>

theorem exchange_payload_roundtrip:
  assumes "exchange_laws libs" and "one_exchange chunks" and "length (chunk_slot_ids (hd chunks)) < u32_limit"
  shows "case encode_chunks libs chunks True of
      Inl e \<Rightarrow> \<exists>m. e = IpcFailed m \<and> ipc_write libs (stream_schema chunks) (map (wire_batch libs chunks) chunks) = Inl m
    | Inr bytes \<Rightarrow> \<exists>meta payload out.
        decode_exchange_payload_envelope bytes = Inr (Some meta, payload) \<and> payload \<noteq> [] \<and>
        decode_batches libs None meta payload = Inr out \<and>
        map (\<lambda>c. batch_columns (ck_batch c)) out = map (\<lambda>c. batch_columns (ck_batch c)) chunks \<and>
        map (\<lambda>c. batch_rows (ck_batch c)) out = map (\<lambda>c. batch_rows (ck_batch c)) chunks \<and>
        map chunk_slot_ids out = map chunk_slot_ids chunks \<and>
        list_all (\<lambda>c. batch_schema (ck_batch c) = wire_schema chunks \<and> chunk_ok c) out"
proof -
  let ?ids = "chunk_slot_ids (hd chunks)" and ?bs = "map (wire_batch libs chunks) chunks"
  let ?meta = "\<lparr>slot_ids_by_index = ?ids\<rparr>"
  have meta: "wire_meta_from_chunks chunks = Inr (Some ?meta)"
    by (rule wire_meta_one_exchange [OF assms(2)])
  show ?thesis
  proof (cases "ipc_write libs (stream_schema chunks) ?bs")
    case (Inl m)
    then show ?thesis by (simp add: encode_chunks_def encode_arrow_eq [OF assms(1,2)])
  next
    case (Inr payload)
    have sch: "\<forall>b \<in> set ?bs. batch_schema b = stream_schema chunks" by simp
    note dec = decode_written [OF assms(1) Inr sch]
    obtain f where f: "\<And>c. c \<in> set chunks \<Longrightarrow> decode_batch libs None ?meta (wire_batch libs chunks c) = Inr (f c) \<and>
      batch_columns (ck_batch (f c)) = batch_columns (ck_batch c) \<and> batch_rows (ck_batch (f c)) = batch_rows (ck_batch c) \<and>
      batch_schema (ck_batch (f c)) = wire_schema chunks \<and> chunk_slot_ids (f c) = chunk_slot_ids c \<and> chunk_ok (f c)"
      using decode_wire_batch [OF assms(1,2)] by metis
    then have "collect_ok (map (decode_batch libs None ?meta) ?bs) = Inr (map f chunks)"
      by (simp add: collect_ok_eq_Inr)
    then have "decode_batches libs None ?meta payload = Inr (map f chunks)"
      by (simp add: decode_batches_def dec(2))
    moreover have "decode_exchange_payload_envelope (encode_exchange_payload_envelope payload (Some ?meta)) = Inr (Some ?meta, payload)"
      using assms(3) dec(1) by (intro envelope_roundtrip) auto
    ultimately show ?thesis using f dec(1)
      by (simp add: encode_chunks_def encode_arrow_eq [OF assms(1,2)] Inr meta list_all_iff)
  qed
qed

definition demo_column :: "nat \<Rightarrow> unit array" where
  "demo_column nulls = \<lparr>arr_type = DInt32, arr_len = 2, arr_null_count = nulls, arr_data = ()\<rparr>"

definition demo_wire_chunk :: "bool \<Rightarrow> nat \<Rightarrow> unit data_chunk" where
  "demo_wire_chunk nullable nulls =
     \<lparr>ck_batch = \<lparr>batch_schema = [new_field ''a'' DInt32 nullable], batch_columns = [demo_column nulls], batch_rows = 2\<rparr>,
      ck_schema = schema_of [\<lparr>slot_id = 5, slot_field = new_field ''a'' DInt32 nullable,
        slot_field_schema = ChunkFieldSchema None [], slot_unique_id = None\<rparr>]\<rparr>"

definition demo_stream :: "unit batch list" where
  "demo_stream = map (\<lambda>n. \<lparr>batch_schema = [new_field ''a'' DInt32 True], batch_columns = [demo_column n], batch_rows = 2\<rparr>) [0, 1]"

definition demo_exchange_libs :: "unit exchange_libs" where
  "demo_exchange_libs =
     \<lparr>batch_new = demo_batch_new,
      empty_batch = (\<lambda>n. Inr \<lparr>batch_schema = [], batch_columns = [], batch_rows = n\<rparr>),
      zero_int8_array = (\<lambda>n. \<lparr>arr_type = DInt8, arr_len = n, arr_null_count = 0, arr_data = ()\<rparr>),
      ipc_write = (\<lambda>schema bs. if bs = demo_stream then Inr [7] else Inl ''unsupported''),
      ipc_read = (\<lambda>bytes. if bytes = [7] then Inr (map Inr demo_stream) else Inl ''no stream'')\<rparr>"

lemma demo_exchange_laws: "exchange_laws demo_exchange_libs"
  by (simp add: exchange_laws_def demo_exchange_libs_def record_batch_law_def demo_batch_new_def)

lemma demo_one_exchange: "one_exchange [demo_wire_chunk False 0, demo_wire_chunk True 1]"
  by (simp add: one_exchange_def chunk_ok_def demo_wire_chunk_def demo_column_def batch_ok_def batch_accepts_def
      slot_well_shaped_def child_types_def exchange_schema_compatible_def)

theorem exchange_payload_roundtrip_witness:
  "\<exists>bytes meta payload out. encode_chunks demo_exchange_libs [demo_wire_chunk False 0, demo_wire_chunk True 1] True = Inr bytes \<and>
     decode_exchange_payload_envelope bytes = Inr (Some meta, payload) \<and>
     decode_batches demo_exchange_libs None meta payload = Inr out \<and>
     map (\<lambda>c. batch_columns (ck_batch c)) out = [[demo_column 0], [demo_column 1]]"
proof -
  let ?cs = "[demo_wire_chunk False 0, demo_wire_chunk True 1]"
  have ids: "length (chunk_slot_ids (hd ?cs)) < u32_limit" by (simp add: chunk_slot_ids_def demo_wire_chunk_def u32_limit_def)
  have schema: "wire_schema ?cs = [new_field ''a'' DInt32 True]"
    by (simp add: wire_schema_def merged_fields_def demo_wire_chunk_def widen_def)
  have stream: "map (wire_batch demo_exchange_libs ?cs) ?cs = demo_stream"
    unfolding wire_batch_def schema by (simp add: demo_stream_def demo_wire_chunk_def)
  have "ipc_write demo_exchange_libs (stream_schema ?cs) demo_stream = Inr [7]" by (simp add: demo_exchange_libs_def)
  with exchange_payload_roundtrip [OF demo_exchange_laws demo_one_exchange ids] show ?thesis
    unfolding stream by (auto simp: demo_wire_chunk_def split: sum.splits)
qed

text \<open>
  (C35) A receiver that registered its schema reads a batch exactly when the sender names as many
  slots as there are columns, the slots of the receiver suffice, and every column has a type the
  receiver's slot admits. The columns are then unchanged, and the chunk has the sender's slot ids
  where the receiver knows all of them and the receiver's own ids, by position, where it does not.
\<close>

theorem receiver_names_slots:
  assumes "batch_ok b" and "ids \<noteq> []" and "distinct (map slot_id es)" and "distinct ids"
  shows "((\<exists>c. decode_batch libs (Some (schema_of es)) \<lparr>slot_ids_by_index = ids\<rparr> b = Inr c) \<longleftrightarrow>
      length ids = length (batch_columns b) \<and> (ids_match es ids \<or> length ids \<le> length es) \<and>
      (\<forall>k < length ids. wire_type_ok (receiver_slot es ids k) (batch_schema b ! k))) \<and>
    (\<forall>c. decode_batch libs (Some (schema_of es)) \<lparr>slot_ids_by_index = ids\<rparr> b = Inr c \<longrightarrow>
      ck_batch c = b \<and> chunk_slot_ids c = receiver_ids es ids \<and>
      (\<forall>k < length ids. column_by_slot_id c (receiver_ids es ids ! k) = Inr (batch_columns b ! k)))"
proof (intro conjI allI impI)
  note eq = decode_with_expected [OF assms]
  show "(\<exists>c. decode_batch libs (Some (schema_of es)) \<lparr>slot_ids_by_index = ids\<rparr> b = Inr c) \<longleftrightarrow>
      length ids = length (batch_columns b) \<and> (ids_match es ids \<or> length ids \<le> length es) \<and>
      (\<forall>k < length ids. wire_type_ok (receiver_slot es ids k) (batch_schema b ! k))"
    unfolding eq by blast
  fix c assume dec: "decode_batch libs (Some (schema_of es)) \<lparr>slot_ids_by_index = ids\<rparr> b = Inr c"
  let ?slots = "map (\<lambda>k. (receiver_slot es ids k)\<lparr>slot_id := receiver_ids es ids ! k, slot_field := batch_schema b ! k\<rparr>) [0..<length ids]"
  have n: "length ids = length (batch_columns b)" and m: "ids_match es ids \<or> length ids \<le> length es"
    and c: "c = \<lparr>ck_batch = b, ck_schema = schema_of ?slots\<rparr>" using dec unfolding eq by blast+
  have ids: "map slot_id ?slots = receiver_ids es ids" using m by (intro nth_equalityI) (auto simp: receiver_ids_def)
  show "ck_batch c = b" and "chunk_slot_ids c = receiver_ids es ids"
    using ids unfolding c chunk_slot_ids_def by simp_all
  fix k assume k: "k < length ids"
  have "distinct (map slot_id ?slots)" unfolding ids using assms(3,4) by (simp add: receiver_ids_def distinct_take)
  from schema_index [OF this, of k] k n show "column_by_slot_id c (receiver_ids es ids ! k) = Inr (batch_columns b ! k)"
    by (simp add: column_by_slot_id_def c)
qed

theorem receiver_names_slots_witness:
  "\<exists>c. decode_batch demo_exchange_libs (Some (schema_of [\<lparr>slot_id = 9, slot_field = new_field ''b'' DInt32 True,
       slot_field_schema = ChunkFieldSchema None [], slot_unique_id = None\<rparr>]))
     \<lparr>slot_ids_by_index = [5]\<rparr> (ck_batch (demo_wire_chunk False 0)) = Inr c \<and> chunk_slot_ids c = [9]"
proof -
  let ?es = "[\<lparr>slot_id = 9, slot_field = new_field ''b'' DInt32 True,
       slot_field_schema = ChunkFieldSchema None [], slot_unique_id = None\<rparr>]"
  let ?b = "ck_batch (demo_wire_chunk False 0)"
  have ok: "batch_ok ?b" by (simp add: batch_ok_def batch_accepts_def demo_wire_chunk_def demo_column_def)
  have rest: "[5 :: slot_id] \<noteq> []" "distinct (map slot_id ?es)" "distinct [5 :: slot_id]" by simp_all
  have no: "\<not> ids_match ?es [5]" by (simp add: ids_match_def)
  have "wire_type_ok (receiver_slot ?es [5] 0) (batch_schema ?b ! 0)" by (simp add: receiver_slot_def no wire_type_ok_def)
  moreover have "receiver_ids ?es [5] = [9]" by (simp add: receiver_ids_def no)
  moreover have "length (batch_columns ?b) = 1" by (simp add: demo_wire_chunk_def)
  ultimately show ?thesis using receiver_names_slots [OF ok rest, of demo_exchange_libs] by auto
qed

end
