(* ===== verification/Exchange_Receiver.thy ===== *)
theory Exchange_Receiver
  imports Exchange_Wire Mem_Tracker "HOL-Library.AList"
begin

text \<open>
  The receiving side of exchanges: the receiver half of \<open>src/src/runtime/exchange.rs\<close>, the scan of
  \<open>src/src/runtime/exchange_scan.rs\<close> and \<open>handle_transmit_chunk\<close> of
  \<open>src/src/service/internal_rpc.rs\<close>. Receivers live at addresses, because a handle keeps its
  receiver after the global map has dropped it. Every function that holds a lock is a definition of
  its own (\<open>_locked\<close>), and the functions of the interface are composed of them, so that the lemmas
  on sequences of locked sections cover every interleaving of the callers. An operation reads the
  clock once; log lines and their counters are left out, and so is the release of a receiver's
  queue when its last handle goes away.
\<close>

subsection \<open>State\<close>

record exchange_key =
  finst_id_hi :: int
  finst_id_lo :: int
  ex_node_id :: int

type_synonym sender = "int \<times> int"

record 'd receiver_state =
  rs_expected_senders :: nat
  rs_expected_chunk_schema :: "chunk_schema option"
  rs_sender_wire_meta :: "sender \<rightharpoonup> wire_meta"
  rs_finished :: "sender set"
  rs_chunks :: "'d chunk list"
  rs_recv_request_count :: nat
  rs_recv_payload_bytes :: nat
  rs_recv_deserialize_ns :: nat
  rs_recv_chunks :: nat
  rs_recv_rows :: nat
  rs_canceled :: bool
  rs_mem_tracker :: "mem_tracker option"

text \<open>The condition variable and the observable are counters of their notifications.\<close>

record 'd receiver =
  rx_state :: "'d receiver_state"
  rx_cv :: nat
  rx_observable :: nat

record 'd exchange =
  ex_map :: "(exchange_key \<times> nat) list"
  ex_receivers :: "nat \<Rightarrow> 'd receiver"
  ex_next :: nat
  ex_canceled_keys :: "(exchange_key \<times> nat) list"
  ex_mem :: mem_store

record exchange_recv_stats =
  request_received :: nat
  bytes_received :: nat
  deserialize_ns :: nat
  chunks_received :: nat
  rows_received :: nat

datatype 'd exchange_pop_result = PopChunk "'d chunk" | PopFinished exchange_recv_stats

definition default_receiver_state :: "'d receiver_state" where
  "default_receiver_state =
     \<lparr>rs_expected_senders = 0, rs_expected_chunk_schema = None, rs_sender_wire_meta = Map.empty, rs_finished = {},
      rs_chunks = [], rs_recv_request_count = 0, rs_recv_payload_bytes = 0, rs_recv_deserialize_ns = 0,
      rs_recv_chunks = 0, rs_recv_rows = 0, rs_canceled = False, rs_mem_tracker = None\<rparr>"

definition new_receiver :: "'d receiver" where
  "new_receiver = \<lparr>rx_state = default_receiver_state, rx_cv = 0, rx_observable = 0\<rparr>"

definition empty_exchange :: "mem_store \<Rightarrow> 'd exchange" where
  "empty_exchange mem = \<lparr>ex_map = [], ex_receivers = (\<lambda>_. new_receiver), ex_next = 0, ex_canceled_keys = [], ex_mem = mem\<rparr>"

definition sat_u128 :: "nat \<Rightarrow> nat" where
  "sat_u128 n = min (2 ^ 128 - 1) n"

abbreviation receiver_at :: "nat \<Rightarrow> 'd exchange \<Rightarrow> 'd receiver_state" where
  "receiver_at a s \<equiv> rx_state (ex_receivers s a)"

definition update_receiver :: "nat \<Rightarrow> ('d receiver \<Rightarrow> 'd receiver) \<Rightarrow> 'd exchange \<Rightarrow> 'd exchange" where
  "update_receiver a f s = s\<lparr>ex_receivers := (ex_receivers s)(a := f (ex_receivers s a))\<rparr>"

definition notify_all :: "'d receiver \<Rightarrow> 'd receiver" where
  "notify_all r = r\<lparr>rx_cv := Suc (rx_cv r)\<rparr>"

definition notify_observers :: "nat \<Rightarrow> 'd exchange \<Rightarrow> 'd exchange" where
  "notify_observers a = update_receiver a (\<lambda>r. r\<lparr>rx_observable := Suc (rx_observable r)\<rparr>)"

subsection \<open>Tombstones and the receiver map\<close>

definition CANCELED_KEYS_TTL :: nat where "CANCELED_KEYS_TTL = 600 * 10 ^ 9"
definition CANCELED_KEYS_MAX_SIZE :: nat where "CANCELED_KEYS_MAX_SIZE = 8192"

definition cleanup_canceled_keys_locked :: "nat \<Rightarrow> (exchange_key \<times> nat) list \<Rightarrow> (exchange_key \<times> nat) list" where
  "cleanup_canceled_keys_locked now keys =
     (let live = filter (\<lambda>(_, ts). now - ts \<le> CANCELED_KEYS_TTL) keys
      in if CANCELED_KEYS_MAX_SIZE < length live then [] else live)"

definition mark_key_canceled :: "nat \<Rightarrow> exchange_key \<Rightarrow> 'd exchange \<Rightarrow> 'd exchange" where
  "mark_key_canceled now key s =
     s\<lparr>ex_canceled_keys := AList.update key now (cleanup_canceled_keys_locked now (ex_canceled_keys s))\<rparr>"

definition is_key_canceled :: "nat \<Rightarrow> exchange_key \<Rightarrow> 'd exchange \<Rightarrow> bool \<times> 'd exchange" where
  "is_key_canceled now key s =
     (let keys = cleanup_canceled_keys_locked now (ex_canceled_keys s)
      in (map_of keys key \<noteq> None, s\<lparr>ex_canceled_keys := keys\<rparr>))"

definition get_or_create :: "exchange_key \<Rightarrow> 'd exchange \<Rightarrow> nat \<times> 'd exchange" where
  "get_or_create key s =
     (case map_of (ex_map s) key of
        Some a \<Rightarrow> (a, s)
      | None \<Rightarrow> (ex_next s, s\<lparr>ex_map := AList.update key (ex_next s) (ex_map s),
                   ex_receivers := (ex_receivers s)(ex_next s := new_receiver), ex_next := Suc (ex_next s)\<rparr>))"

definition remove_key :: "exchange_key \<Rightarrow> 'd exchange \<Rightarrow> 'd exchange" where
  "remove_key key s = s\<lparr>ex_map := AList.delete key (ex_map s)\<rparr>"

definition fragment_keys :: "int \<Rightarrow> int \<Rightarrow> 'd exchange \<Rightarrow> exchange_key list" where
  "fragment_keys hi lo s = filter (\<lambda>k. finst_id_hi k = hi \<and> finst_id_lo k = lo) (map fst (ex_map s))"

definition remove_fragment :: "nat \<Rightarrow> int \<Rightarrow> int \<Rightarrow> 'd exchange \<Rightarrow> 'd exchange" where
  "remove_fragment now hi lo s = fold (\<lambda>k s. remove_key k (mark_key_canceled now k s)) (fragment_keys hi lo s) s"

definition cancel_locked :: "nat \<Rightarrow> 'd exchange \<Rightarrow> 'd exchange" where
  "cancel_locked a = update_receiver a (\<lambda>r. notify_all (r\<lparr>rx_state := (rx_state r)\<lparr>rs_canceled := True\<rparr>\<rparr>))"

definition cancel_receiver :: "exchange_key \<Rightarrow> 'd exchange \<Rightarrow> 'd exchange" where
  "cancel_receiver key s =
     (case map_of (ex_map s) key of None \<Rightarrow> s | Some a \<Rightarrow> notify_observers a (cancel_locked a s))"

definition cancel_exchange_key :: "nat \<Rightarrow> exchange_key \<Rightarrow> 'd exchange \<Rightarrow> 'd exchange" where
  "cancel_exchange_key now key s = remove_key key (cancel_receiver key (mark_key_canceled now key s))"

definition cancel_fragment :: "nat \<Rightarrow> int \<Rightarrow> int \<Rightarrow> 'd exchange \<Rightarrow> 'd exchange" where
  "cancel_fragment now hi lo s =
     fold (\<lambda>k s. remove_key k (cancel_receiver k (mark_key_canceled now k s))) (fragment_keys hi lo s) s"

subsection \<open>Registration\<close>

definition expect_locked :: "nat \<Rightarrow> nat \<Rightarrow> 'd exchange \<Rightarrow> 'd exchange" where
  "expect_locked a n =
     update_receiver a (\<lambda>r. notify_all (r\<lparr>rx_state := (rx_state r)
       \<lparr>rs_expected_senders := max (rs_expected_senders (rx_state r)) n\<rparr>\<rparr>))"

definition set_expected_senders :: "nat \<Rightarrow> exchange_key \<Rightarrow> nat \<Rightarrow> 'd exchange \<Rightarrow> 'd exchange" where
  "set_expected_senders now key n s =
     (case is_key_canceled now key s of (canceled, s1) \<Rightarrow>
        if canceled then s1 else (case get_or_create key s1 of (a, s2) \<Rightarrow> expect_locked a n s2))"

definition register_locked :: "nat \<Rightarrow> nat \<Rightarrow> chunk_schema \<Rightarrow> 'd exchange \<Rightarrow> (wire_error + unit) \<times> 'd exchange" where
  "register_locked a n schema s =
     (let s1 = update_receiver a (\<lambda>r. r\<lparr>rx_state := (rx_state r)
            \<lparr>rs_expected_senders := max (rs_expected_senders (rx_state r)) n\<rparr>\<rparr>) s
      in case rs_expected_chunk_schema (receiver_at a s1) of
           Some existing \<Rightarrow> if existing \<noteq> schema then (Inl SchemaConflict, s1) else (Inr (), update_receiver a notify_all s1)
         | None \<Rightarrow> (Inr (), update_receiver a (\<lambda>r. notify_all (r\<lparr>rx_state := (rx_state r)
             \<lparr>rs_expected_chunk_schema := Some schema\<rparr>\<rparr>)) s1))"

definition register_expected_chunk_schema ::
  "nat \<Rightarrow> exchange_key \<Rightarrow> nat \<Rightarrow> chunk_schema \<Rightarrow> 'd exchange \<Rightarrow> (wire_error + unit) \<times> 'd exchange" where
  "register_expected_chunk_schema now key n schema s =
     (case is_key_canceled now key s of (canceled, s1) \<Rightarrow>
        if canceled then (Inl ExchangeCanceled, s1)
        else (case get_or_create key s1 of (a, s2) \<Rightarrow> register_locked a n schema s2))"

fun transfer_chunks :: "mem_tracker \<Rightarrow> 'd chunk list \<Rightarrow> mem_store \<Rightarrow> 'd chunk list \<times> mem_store" where
  "transfer_chunks t [] mem = ([], mem)"
| "transfer_chunks t (c # cs) mem =
     (case chunk_transfer_to t c mem of (c', mem') \<Rightarrow>
        case transfer_chunks t cs mem' of (cs', mem'') \<Rightarrow> (c' # cs', mem''))"

definition tracker_locked ::
  "nat \<Rightarrow> string \<Rightarrow> mem_tracker \<Rightarrow> 'd exchange \<Rightarrow> mem_tracker \<times> 'd exchange" where
  "tracker_locked a label root s =
     (case rs_mem_tracker (receiver_at a s) of
        Some existing \<Rightarrow> (existing, s)
      | None \<Rightarrow>
          (case new_child label root (ex_mem s) of (t, mem) \<Rightarrow>
           case transfer_chunks t (rs_chunks (receiver_at a s)) mem of (cs, mem') \<Rightarrow>
             (t, update_receiver a (\<lambda>r. r\<lparr>rx_state := (rx_state r)\<lparr>rs_chunks := cs, rs_mem_tracker := Some t\<rparr>\<rparr>)
                   (s\<lparr>ex_mem := mem'\<rparr>))))"

text \<open>The fields of a UUID fit their width, so the padded format has exactly that many digits.\<close>

definition fmt_hex :: "nat \<Rightarrow> nat \<Rightarrow> string" where
  "fmt_hex w n = map (\<lambda>i. let d = n div 16 ^ (w - 1 - i) mod 16 in char_of (if d < 10 then 48 + d else 87 + d)) [0..<w]"

definition format_uuid :: "int \<Rightarrow> int \<Rightarrow> string" where
  "format_uuid hi lo =
     (let h = nat (hi mod 2 ^ 64); l = nat (lo mod 2 ^ 64)
      in fmt_hex 8 (h div 2 ^ 32 mod 2 ^ 32) @ ''-'' @ fmt_hex 4 (h div 2 ^ 16 mod 2 ^ 16) @ ''-'' @ fmt_hex 4 (h mod 2 ^ 16) @
         ''-'' @ fmt_hex 4 (l div 2 ^ 48 mod 2 ^ 16) @ ''-'' @ fmt_hex 12 (l mod 2 ^ 48))"

definition fmt_int :: "int \<Rightarrow> string" where
  "fmt_int i = (if i < 0 then ''-'' @ fmt_nat (nat (- i)) else fmt_nat (nat i))"

definition receiver_label :: "exchange_key \<Rightarrow> string" where
  "receiver_label key =
     ''exchange receiver queue: finst='' @ format_uuid (finst_id_hi key) (finst_id_lo key) @ '' node_id='' @ fmt_int (ex_node_id key)"

definition ensure_receiver_mem_tracker ::
  "nat \<Rightarrow> exchange_key \<Rightarrow> mem_tracker \<Rightarrow> 'd exchange \<Rightarrow> (wire_error + mem_tracker) \<times> 'd exchange" where
  "ensure_receiver_mem_tracker now key root s =
     (case is_key_canceled now key s of (canceled, s1) \<Rightarrow>
        if canceled then (Inl ExchangeCanceled, s1)
        else (case get_or_create key s1 of (a, s2) \<Rightarrow> map_prod Inr id (tracker_locked a (receiver_label key) root s2)))"

definition get_receiver_handle :: "nat \<Rightarrow> exchange_key \<Rightarrow> nat \<Rightarrow> 'd exchange \<Rightarrow> (wire_error + nat) \<times> 'd exchange" where
  "get_receiver_handle now key n s =
     (case is_key_canceled now key s of (canceled, s1) \<Rightarrow>
        if canceled then (Inl ExchangeCanceled, s1)
        else (case get_or_create key s1 of (a, s2) \<Rightarrow> (Inr a, expect_locked a n s2)))"

subsection \<open>Pushing\<close>

definition drop_chunks :: "'d chunk list \<Rightarrow> mem_store \<Rightarrow> mem_store" where
  "drop_chunks cs mem = fold chunk_drop cs mem"

text \<open>The row count of a push is the sum of the chunks' lengths, taken to fit a \<open>usize\<close>.\<close>

definition push_locked ::
  "nat \<Rightarrow> sender \<Rightarrow> 'd chunk list \<Rightarrow> bool \<Rightarrow> nat \<Rightarrow> nat \<Rightarrow> 'd exchange \<Rightarrow> 'd exchange" where
  "push_locked a sid cs eos payload_bytes ns s =
     (let st = receiver_at a s
      in if rs_canceled st then s\<lparr>ex_mem := drop_chunks cs (ex_mem s)\<rparr>
         else case (case rs_mem_tracker st of Some t \<Rightarrow> transfer_chunks t cs (ex_mem s) | None \<Rightarrow> (cs, ex_mem s)) of
           (cs', mem') \<Rightarrow>
             update_receiver a (\<lambda>r. notify_all (r\<lparr>rx_state := st
               \<lparr>rs_recv_request_count := sat_u128 (rs_recv_request_count st + 1),
                rs_recv_payload_bytes := sat_u128 (rs_recv_payload_bytes st + payload_bytes),
                rs_recv_deserialize_ns := sat_u128 (rs_recv_deserialize_ns st + ns),
                rs_recv_chunks := sat_u128 (rs_recv_chunks st + length cs),
                rs_recv_rows := sat_u128 (rs_recv_rows st + sum_list (map chunk_rows cs)),
                rs_chunks := rs_chunks st @ cs',
                rs_finished := (if eos then insert sid (rs_finished st) else rs_finished st)\<rparr>\<rparr>))
               (s\<lparr>ex_mem := mem'\<rparr>))"

definition push_chunks_with_stats ::
  "nat \<Rightarrow> exchange_key \<Rightarrow> sender \<Rightarrow> 'd chunk list \<Rightarrow> bool \<Rightarrow> nat \<Rightarrow> nat \<Rightarrow> 'd exchange \<Rightarrow> 'd exchange" where
  "push_chunks_with_stats now key sid cs eos payload_bytes ns s =
     (case is_key_canceled now key s of (canceled, s1) \<Rightarrow>
        if canceled then s1\<lparr>ex_mem := drop_chunks cs (ex_mem s1)\<rparr>
        else case get_or_create key s1 of (a, s2) \<Rightarrow>
          let s3 = push_locked a sid cs eos payload_bytes ns s2
          in if rs_canceled (receiver_at a s2) then s3
             else if cs \<noteq> [] \<or> eos then notify_observers a s3 else s3)"

definition push_chunks :: "nat \<Rightarrow> exchange_key \<Rightarrow> sender \<Rightarrow> 'd chunk list \<Rightarrow> bool \<Rightarrow> 'd exchange \<Rightarrow> 'd exchange" where
  "push_chunks now key sid cs eos s = push_chunks_with_stats now key sid cs eos 0 0 s"

subsection \<open>Popping\<close>

definition recv_stats :: "'d receiver_state \<Rightarrow> exchange_recv_stats" where
  "recv_stats st = \<lparr>request_received = rs_recv_request_count st, bytes_received = rs_recv_payload_bytes st,
     deserialize_ns = rs_recv_deserialize_ns st, chunks_received = rs_recv_chunks st, rows_received = rs_recv_rows st\<rparr>"

definition senders_done :: "nat \<Rightarrow> 'd receiver_state \<Rightarrow> bool" where
  "senders_done n st =
     (let expected = max (rs_expected_senders st) n in expected = 0 \<or> expected \<le> card (rs_finished st))"

definition try_pop_next_with_stats ::
  "nat \<Rightarrow> nat \<Rightarrow> 'd exchange \<Rightarrow> (wire_error + 'd exchange_pop_result option) \<times> 'd exchange" where
  "try_pop_next_with_stats a n s =
     (let st = receiver_at a s
      in if rs_canceled st then (Inl ExchangeCanceled, s)
         else case rs_chunks st of
           c # cs \<Rightarrow> (Inr (Some (PopChunk c)), update_receiver a (\<lambda>r. r\<lparr>rx_state := st\<lparr>rs_chunks := cs\<rparr>\<rparr>) s)
         | [] \<Rightarrow> if senders_done n st then (Inr (Some (PopFinished (recv_stats st))), s) else (Inr None, s))"

definition has_output_or_finished :: "nat \<Rightarrow> nat \<Rightarrow> 'd exchange \<Rightarrow> bool" where
  "has_output_or_finished a n s =
     (let st = receiver_at a s in rs_canceled st \<or> rs_chunks st \<noteq> [] \<or> senders_done n st)"

text \<open>
  A blocking loop gives the lock back while it waits. The list has, for every wait, the time elapsed
  that was read before it and what the other threads do to the exchange meanwhile. None is a caller
  that is still waiting when the list ends.
\<close>

fun pop_next_with_stats_blocking ::
  "nat \<Rightarrow> nat \<Rightarrow> nat \<Rightarrow> (nat \<times> ('d exchange \<Rightarrow> 'd exchange)) list \<Rightarrow> 'd exchange \<Rightarrow>
   (wire_error + 'd exchange_pop_result) option \<times> 'd exchange" where
  "pop_next_with_stats_blocking a n timeout waits s =
     (case try_pop_next_with_stats a n s of
        (Inl e, s1) \<Rightarrow> (Some (Inl e), s1)
      | (Inr (Some r), s1) \<Rightarrow> (Some (Inr r), s1)
      | (Inr None, s1) \<Rightarrow>
          (case waits of
             [] \<Rightarrow> (None, s1)
           | (elapsed, others) # waits' \<Rightarrow>
               if timeout \<le> elapsed
               then (Some (Inl (ExchangeTimeout (max (rs_expected_senders (receiver_at a s1)) n)
                      (card (rs_finished (receiver_at a s1))))), s1)
               else pop_next_with_stats_blocking a n timeout waits' (others s1)))"

declare pop_next_with_stats_blocking.simps [simp del]

definition drain_locked :: "nat \<Rightarrow> 'd exchange \<Rightarrow> ('d chunk list \<times> exchange_recv_stats) \<times> 'd exchange" where
  "drain_locked a s =
     ((rs_chunks (receiver_at a s), recv_stats (receiver_at a s)),
      update_receiver a (\<lambda>r. r\<lparr>rx_state := (rx_state r)\<lparr>rs_chunks := []\<rparr>\<rparr>) s)"

fun take_all_loop ::
  "nat \<Rightarrow> nat \<Rightarrow> nat \<Rightarrow> (nat \<times> ('d exchange \<Rightarrow> 'd exchange)) list \<Rightarrow> 'd exchange \<Rightarrow>
   (wire_error + 'd chunk list \<times> exchange_recv_stats) option \<times> 'd exchange" where
  "take_all_loop a n timeout waits s =
     (let st = receiver_at a s
      in if rs_canceled st then (Some (Inl ExchangeCanceled), s)
         else if senders_done n st then map_prod (\<lambda>r. Some (Inr r)) id (drain_locked a s)
         else case waits of
           [] \<Rightarrow> (None, s)
         | (elapsed, others) # waits' \<Rightarrow>
             if timeout \<le> elapsed
             then (Some (Inl (ExchangeTimeout (max (rs_expected_senders st) n) (card (rs_finished st)))), s)
             else take_all_loop a n timeout waits' (others s))"

declare take_all_loop.simps [simp del]

definition take_all_chunks_with_stats_blocking ::
  "nat \<Rightarrow> exchange_key \<Rightarrow> nat \<Rightarrow> nat \<Rightarrow> (nat \<times> ('d exchange \<Rightarrow> 'd exchange)) list \<Rightarrow> 'd exchange \<Rightarrow>
   (wire_error + 'd chunk list \<times> exchange_recv_stats) option \<times> 'd exchange" where
  "take_all_chunks_with_stats_blocking now key n timeout waits s =
     (case is_key_canceled now key s of (canceled, s1) \<Rightarrow>
        if canceled then (Some (Inl ExchangeCanceled), s1)
        else case get_or_create key (set_expected_senders now key n s1) of (a, s2) \<Rightarrow>
          take_all_loop a n timeout waits s2)"

record exchange_receiver_snapshot =
  sn_expected_senders :: nat
  sn_finished_senders :: nat
  sn_queued_chunks :: nat
  sn_queued_rows :: nat
  sn_canceled :: bool

definition snapshot_receiver_state :: "exchange_key \<Rightarrow> 'd exchange \<Rightarrow> exchange_receiver_snapshot option" where
  "snapshot_receiver_state key s =
     map_option (\<lambda>a. let st = receiver_at a s in
       \<lparr>sn_expected_senders = rs_expected_senders st, sn_finished_senders = card (rs_finished st),
        sn_queued_chunks = length (rs_chunks st), sn_queued_rows = sum_list (map chunk_rows (rs_chunks st)),
        sn_canceled = rs_canceled st\<rparr>) (map_of (ex_map s) key)"

subsection \<open>Payloads of senders\<close>

definition meta_locked ::
  "nat \<Rightarrow> sender \<Rightarrow> wire_meta option \<Rightarrow> 'd exchange \<Rightarrow> (wire_error + wire_meta \<times> chunk_schema option) \<times> 'd exchange" where
  "meta_locked a sid decoded s =
     (let st = receiver_at a s; known = rs_sender_wire_meta st sid;
          checked = (case decoded of
              Some meta \<Rightarrow>
                (case known of
                   Some existing \<Rightarrow> if existing \<noteq> meta then (Inl WireMetaChanged, s) else (Inr meta, s)
                 | None \<Rightarrow> (Inr meta, update_receiver a (\<lambda>r. r\<lparr>rx_state := st
                     \<lparr>rs_sender_wire_meta := (rs_sender_wire_meta st)(sid \<mapsto> meta)\<rparr>\<rparr>) s))
            | None \<Rightarrow> (ok_or known WireMetaMissing, s))
      in case checked of (r, s1) \<Rightarrow>
           (result_bind r (\<lambda>meta. if rs_canceled (receiver_at a s1) then Inl ExchangeCanceled
              else Inr (meta, rs_expected_chunk_schema (receiver_at a s1))), s1))"

definition decode_chunks_for_sender ::
  "'v exchange_libs \<Rightarrow> exchange_key \<Rightarrow> sender \<Rightarrow> byte list \<Rightarrow> 'd exchange \<Rightarrow>
   (wire_error + 'v data_chunk list) \<times> 'd exchange" where
  "decode_chunks_for_sender libs key sid bytes s =
     (case decode_exchange_payload_envelope bytes of
        Inl e \<Rightarrow> (Inl e, s)
      | Inr (decoded, arrow_payload) \<Rightarrow>
          if arrow_payload = [] then (Inr [], s)
          else case get_or_create key s of (a, s1) \<Rightarrow>
            (case meta_locked a sid decoded s1 of (r, s2) \<Rightarrow>
               (result_bind r (\<lambda>(meta, expected). decode_batches libs expected meta arrow_payload), s2)))"

record transmit_params =
  tp_finst_id :: "(int \<times> int) option"
  tp_node_id :: "int option"
  tp_sender_id :: "int option"
  tp_be_number :: "int option"
  tp_eos :: "bool option"
  tp_sequence :: "int option"
  tp_chunks :: "byte list option list"

datatype transmit_status = TransmitOk | MissingParam string | DecodeFailed wire_error

text \<open>A decoded chunk is charged to no tracker; \<open>bytes_of\<close> is \<open>chunk_bytes_i64\<close> on Arrow's buffers.\<close>

definition received_chunk :: "('v batch \<Rightarrow> int) \<Rightarrow> 'v data_chunk \<Rightarrow> 'v data_chunk chunk" where
  "received_chunk bytes_of c =
     \<lparr>chunk_data = c, chunk_rows = batch_rows (ck_batch c), chunk_bytes = bytes_of (ck_batch c), chunk_acct = None\<rparr>"

definition transmit_request :: "transmit_params \<Rightarrow> transmit_status + exchange_key \<times> sender \<times> bool \<times> byte list" where
  "transmit_request p =
     result_bind (ok_or (tp_finst_id p) (MissingParam ''finst_id'')) (\<lambda>(hi, lo).
     result_bind (ok_or (tp_node_id p) (MissingParam ''node_id'')) (\<lambda>node.
     result_bind (ok_or (tp_sender_id p) (MissingParam ''sender_id'')) (\<lambda>sender_id.
     result_bind (ok_or (tp_be_number p) (MissingParam ''be_number'')) (\<lambda>be_number.
     result_bind (ok_or (tp_eos p) (MissingParam ''eos'')) (\<lambda>eos.
     result_bind (ok_or (tp_sequence p) (MissingParam ''sequence'')) (\<lambda>_.
     result_bind (ok_or (case tp_chunks p of [] \<Rightarrow> None | c # _ \<Rightarrow> c) (MissingParam ''chunks[0].data'')) (\<lambda>payload.
       Inr (\<lparr>finst_id_hi = hi, finst_id_lo = lo, ex_node_id = node\<rparr>, (sender_id, be_number), eos, payload))))))))"

definition handle_transmit_chunk ::
  "'v exchange_libs \<Rightarrow> ('v batch \<Rightarrow> int) \<Rightarrow> nat \<Rightarrow> nat \<Rightarrow> transmit_params \<Rightarrow> 'v data_chunk exchange \<Rightarrow>
   transmit_status \<times> 'v data_chunk exchange" where
  "handle_transmit_chunk libs bytes_of now decode_ns p s =
     (case transmit_request p of
        Inl status \<Rightarrow> (status, s)
      | Inr (key, sid, eos, payload) \<Rightarrow>
          (case decode_chunks_for_sender libs key sid payload s of
             (Inl e, s1) \<Rightarrow> (DecodeFailed e, s1)
           | (Inr chunks, s1) \<Rightarrow>
               (TransmitOk, push_chunks_with_stats now key sid (map (received_chunk bytes_of) chunks) eos
                  (length payload) decode_ns s1)))"

subsection \<open>The scan over a receiver\<close>

record exchange_scan_iter =
  si_key :: exchange_key
  si_expected_senders :: nat
  si_timeout :: nat
  si_handle :: nat
  si_completed :: bool
  si_errored :: bool
  si_seen_chunks :: nat
  si_seen_rows :: nat

datatype 'd scan_item = ScanChunk "'d chunk" | ScanError wire_error

definition scan_execute_iter ::
  "nat \<Rightarrow> exchange_key \<Rightarrow> nat \<Rightarrow> nat \<Rightarrow> 'd exchange \<Rightarrow> (wire_error + exchange_scan_iter) \<times> 'd exchange" where
  "scan_execute_iter now key n timeout s =
     map_prod (map_sum id (\<lambda>a. \<lparr>si_key = key, si_expected_senders = n, si_timeout = timeout, si_handle = a,
         si_completed = False, si_errored = False, si_seen_chunks = 0, si_seen_rows = 0\<rparr>)) id
       (get_receiver_handle now key n s)"

text \<open>None inside is the end of the iteration, None outside a caller that still waits.\<close>

definition scan_next ::
  "(nat \<times> ('d exchange \<Rightarrow> 'd exchange)) list \<Rightarrow> exchange_scan_iter \<Rightarrow> 'd exchange \<Rightarrow>
   'd scan_item option option \<times> exchange_scan_iter \<times> 'd exchange" where
  "scan_next waits it s =
     (if si_completed it \<or> si_errored it then (Some None, it, s)
      else case pop_next_with_stats_blocking (si_handle it) (si_expected_senders it) (si_timeout it) waits s of
        (None, s1) \<Rightarrow> (None, it, s1)
      | (Some (Inr (PopChunk c)), s1) \<Rightarrow>
          (Some (Some (ScanChunk c)), it\<lparr>si_seen_chunks := sat_usize (si_seen_chunks it + 1),
             si_seen_rows := sat_usize (si_seen_rows it + chunk_rows c)\<rparr>, s1)
      | (Some (Inr (PopFinished _)), s1) \<Rightarrow> (Some None, it\<lparr>si_completed := True\<rparr>, s1)
      | (Some (Inl e), s1) \<Rightarrow> (Some (Some (ScanError e)), it\<lparr>si_errored := True\<rparr>, s1))"

definition scan_drop :: "nat \<Rightarrow> exchange_scan_iter \<Rightarrow> 'd exchange \<Rightarrow> 'd exchange" where
  "scan_drop now it s = (if si_completed it then s else cancel_exchange_key now (si_key it) s)"

subsection \<open>Sections under a lock, in any order\<close>

text \<open>
  A run is any sequence of locked sections, so it covers every way in which the threads that call
  the exchange can be interleaved. A section is on a receiver somebody holds, that is, one that
  was created. The run keeps a history of what each receiver accepted and gave out.
\<close>

datatype 'd locked_section =
    SIsCanceled nat exchange_key | SMark nat exchange_key | SGet exchange_key | SRemove exchange_key
  | SCancel nat | SNotify nat | SExpect nat nat | SRegister nat nat chunk_schema
  | STracker nat string mem_tracker | SPush nat sender "'d chunk list" bool nat nat | SDrop "'d chunk list"
  | SPop nat nat | SDrain nat | SMeta nat sender "wire_meta option"

record 'd exchange_run =
  run_state :: "'d exchange"
  run_accepted :: "nat \<Rightarrow> ('d \<times> nat) list"
  run_delivered :: "nat \<Rightarrow> ('d \<times> nat) list"

definition parcel :: "'d chunk \<Rightarrow> 'd \<times> nat" where
  "parcel c = (chunk_data c, chunk_rows c)"

fun section_state :: "'d locked_section \<Rightarrow> 'd exchange \<Rightarrow> 'd exchange" where
  "section_state (SIsCanceled now key) s = snd (is_key_canceled now key s)"
| "section_state (SMark now key) s = mark_key_canceled now key s"
| "section_state (SGet key) s = snd (get_or_create key s)"
| "section_state (SRemove key) s = remove_key key s"
| "section_state (SCancel a) s = cancel_locked a s"
| "section_state (SNotify a) s = notify_observers a s"
| "section_state (SExpect a n) s = expect_locked a n s"
| "section_state (SRegister a n schema) s = snd (register_locked a n schema s)"
| "section_state (STracker a label root) s = snd (tracker_locked a label root s)"
| "section_state (SPush a sid cs eos bytes ns) s = push_locked a sid cs eos bytes ns s"
| "section_state (SDrop cs) s = s\<lparr>ex_mem := drop_chunks cs (ex_mem s)\<rparr>"
| "section_state (SPop a n) s = snd (try_pop_next_with_stats a n s)"
| "section_state (SDrain a) s = snd (drain_locked a s)"
| "section_state (SMeta a sid meta) s = snd (meta_locked a sid meta s)"

fun section_receiver :: "'d locked_section \<Rightarrow> nat option" where
  "section_receiver (SCancel a) = Some a"
| "section_receiver (SNotify a) = Some a"
| "section_receiver (SExpect a n) = Some a"
| "section_receiver (SRegister a n schema) = Some a"
| "section_receiver (STracker a label root) = Some a"
| "section_receiver (SPush a sid cs eos bytes ns) = Some a"
| "section_receiver (SPop a n) = Some a"
| "section_receiver (SDrain a) = Some a"
| "section_receiver (SMeta a sid meta) = Some a"
| "section_receiver _ = None"

definition section_accepts :: "'d locked_section \<Rightarrow> 'd exchange \<Rightarrow> nat \<Rightarrow> ('d \<times> nat) list" where
  "section_accepts sec s a =
     (case sec of
        SPush b sid cs eos bytes ns \<Rightarrow> if b = a \<and> \<not> rs_canceled (receiver_at a s) then map parcel cs else []
      | _ \<Rightarrow> [])"

definition section_delivers :: "'d locked_section \<Rightarrow> 'd exchange \<Rightarrow> nat \<Rightarrow> ('d \<times> nat) list" where
  "section_delivers sec s a =
     (case sec of
        SPop b n \<Rightarrow> if b = a then (case fst (try_pop_next_with_stats a n s) of Inr (Some (PopChunk c)) \<Rightarrow> [parcel c] | _ \<Rightarrow> []) else []
      | SDrain b \<Rightarrow> if b = a then map parcel (fst (fst (drain_locked a s))) else []
      | _ \<Rightarrow> [])"

definition section_step :: "'d locked_section \<Rightarrow> 'd exchange_run \<Rightarrow> 'd exchange_run" where
  "section_step sec r =
     (let s = run_state r
      in if (case section_receiver sec of Some a \<Rightarrow> ex_next s \<le> a | None \<Rightarrow> False) then r
         else \<lparr>run_state = section_state sec s,
               run_accepted = (\<lambda>a. run_accepted r a @ section_accepts sec s a),
               run_delivered = (\<lambda>a. run_delivered r a @ section_delivers sec s a)\<rparr>)"

definition start_run :: "mem_store \<Rightarrow> 'd exchange_run" where
  "start_run mem = \<lparr>run_state = empty_exchange mem, run_accepted = (\<lambda>_. []), run_delivered = (\<lambda>_. [])\<rparr>"

definition run_of :: "'d locked_section list \<Rightarrow> mem_store \<Rightarrow> 'd exchange_run" where
  "run_of secs mem = fold section_step secs (start_run mem)"

definition charged :: "mem_tracker \<Rightarrow> 'd chunk \<Rightarrow> bool" where
  "charged t c = (case chunk_acct c of Some h \<Rightarrow> tracker_ptr_eq h t | None \<Rightarrow> chunk_bytes c \<le> 0)"

text \<open>What holds of a receiver with its history, whatever the order of the sections.\<close>

definition receiver_ok :: "'d receiver_state \<Rightarrow> ('d \<times> nat) list \<Rightarrow> ('d \<times> nat) list \<Rightarrow> bool" where
  "receiver_ok st acc del \<longleftrightarrow>
     del @ map parcel (rs_chunks st) = acc \<and>
     rs_recv_chunks st = sat_u128 (length acc) \<and> rs_recv_rows st = sat_u128 (sum_list (map snd acc)) \<and>
     finite (rs_finished st) \<and> (\<forall>t. rs_mem_tracker st = Some t \<longrightarrow> list_all (charged t) (rs_chunks st))"

definition run_inv :: "'d exchange_run \<Rightarrow> bool" where
  "run_inv r \<longleftrightarrow>
     (\<forall>a. receiver_ok (receiver_at a (run_state r)) (run_accepted r a) (run_delivered r a)) \<and>
     (\<forall>a \<ge> ex_next (run_state r). run_accepted r a = [] \<and> run_delivered r a = [])"

subsection \<open>The invariant of runs\<close>

lemma sat_u128_add [simp]: "sat_u128 (sat_u128 m + n) = sat_u128 (m + n)"
  by (simp add: sat_u128_def min_def)

lemma update_receiver_simps [simp]:
  "ex_receivers (update_receiver a f s) b = (if b = a then f (ex_receivers s a) else ex_receivers s b)"
  "ex_next (update_receiver a f s) = ex_next s" "ex_map (update_receiver a f s) = ex_map s"
  "ex_canceled_keys (update_receiver a f s) = ex_canceled_keys s" "ex_mem (update_receiver a f s) = ex_mem s"
  by (simp_all add: update_receiver_def)

lemma notify_all_simps [simp]:
  "rx_state (notify_all r) = rx_state r" "rx_cv (notify_all r) = Suc (rx_cv r)" "rx_observable (notify_all r) = rx_observable r"
  by (simp_all add: notify_all_def)

lemma transfer_to_chunk:
  "charged t (fst (chunk_transfer_to t c mem)) \<and> parcel (fst (chunk_transfer_to t c mem)) = parcel c"
  by (auto simp: chunk_transfer_to_def acct_transfer_to_def charged_def parcel_def tracker_ptr_eq_def Let_def
      split: option.splits)

lemma transfer_chunks_ok:
  "list_all (charged t) (fst (transfer_chunks t cs mem)) \<and> map parcel (fst (transfer_chunks t cs mem)) = map parcel cs"
proof (induction cs arbitrary: mem)
  case (Cons c cs)
  with transfer_to_chunk [of t c mem] show ?case by (simp split: prod.splits) (metis fst_conv)
qed simp

lemma parcel_rows: "map snd (map parcel cs) = map chunk_rows cs"
  by (simp add: parcel_def)

lemma receiver_ok_new: "receiver_ok (rx_state new_receiver) [] []"
  by (simp add: receiver_ok_def new_receiver_def default_receiver_state_def sat_u128_def)

text \<open>Each section on its own receiver.\<close>

lemma push_locked_ok:
  assumes "receiver_ok (receiver_at a s) acc del" and "\<not> rs_canceled (receiver_at a s)"
  shows "receiver_ok (receiver_at a (push_locked a sid cs eos bytes ns s)) (acc @ map parcel cs) del"
proof -
  let ?st = "receiver_at a s"
  define cs' mem' where "cs' = fst (case rs_mem_tracker ?st of Some t \<Rightarrow> transfer_chunks t cs (ex_mem s) | None \<Rightarrow> (cs, ex_mem s))"
    and "mem' = snd (case rs_mem_tracker ?st of Some t \<Rightarrow> transfer_chunks t cs (ex_mem s) | None \<Rightarrow> (cs, ex_mem s))"
  then have eq: "(case rs_mem_tracker ?st of Some t \<Rightarrow> transfer_chunks t cs (ex_mem s) | None \<Rightarrow> (cs, ex_mem s)) = (cs', mem')" by simp
  have parcels: "map parcel cs' = map parcel cs" and ch: "rs_mem_tracker ?st = Some t \<Longrightarrow> list_all (charged t) cs'" for t
    using transfer_chunks_ok [of _ cs "ex_mem s"] by (auto simp: cs'_def split: option.splits)
  show ?thesis using assms ch
    unfolding push_locked_def Let_def eq
    by (auto simp: receiver_ok_def parcels add.assoc simp del: map_map simp flip: parcel_rows)
qed

lemma tracker_locked_ok:
  assumes "receiver_ok (receiver_at a s) acc del"
  shows "receiver_ok (receiver_at a (snd (tracker_locked a label root s))) acc del"
  using assms transfer_chunks_ok [of "fst (new_child label root (ex_mem s))" "rs_chunks (receiver_at a s)" "snd (new_child label root (ex_mem s))"]
  by (auto simp: tracker_locked_def receiver_ok_def split: option.splits prod.splits)

lemma pop_ok:
  assumes "receiver_ok (receiver_at a s) acc del"
  shows "receiver_ok (receiver_at a (snd (try_pop_next_with_stats a n s))) acc (del @ section_delivers (SPop a n) s a)"
  using assms
  by (cases "rs_chunks (receiver_at a s)") (auto simp: try_pop_next_with_stats_def section_delivers_def receiver_ok_def Let_def)

lemma drain_ok:
  assumes "receiver_ok (receiver_at a s) acc del"
  shows "receiver_ok (receiver_at a (snd (drain_locked a s))) acc (del @ section_delivers (SDrain a) s a)"
  using assms by (auto simp: drain_locked_def section_delivers_def receiver_ok_def)

lemma meta_locked_receiver:
  "\<exists>m. snd (meta_locked a sid decoded s) = s \<or>
     snd (meta_locked a sid decoded s) = update_receiver a (\<lambda>r. r\<lparr>rx_state := (receiver_at a s)\<lparr>rs_sender_wire_meta := m\<rparr>\<rparr>) s"
  by (auto simp: meta_locked_def Let_def split: option.splits prod.splits if_splits)

lemma register_locked_ok:
  "receiver_ok (receiver_at a s) acc del \<Longrightarrow> receiver_ok (receiver_at a (snd (register_locked a n schema s))) acc del"
  by (auto simp: register_locked_def receiver_ok_def Let_def split: option.splits)

text \<open>Sections do not touch other receivers.\<close>

lemma push_locked_simps [simp]:
  "b \<noteq> a \<Longrightarrow> ex_receivers (push_locked a sid cs eos bytes ns s) b = ex_receivers s b"
  "ex_next (push_locked a sid cs eos bytes ns s) = ex_next s" "ex_map (push_locked a sid cs eos bytes ns s) = ex_map s"
  "rs_canceled (receiver_at a s) \<Longrightarrow> ex_receivers (push_locked a sid cs eos bytes ns s) = ex_receivers s"
  by (auto simp: push_locked_def Let_def split: prod.splits)

lemma tracker_locked_simps [simp]:
  "b \<noteq> a \<Longrightarrow> ex_receivers (snd (tracker_locked a label root s)) b = ex_receivers s b"
  "ex_next (snd (tracker_locked a label root s)) = ex_next s" "ex_map (snd (tracker_locked a label root s)) = ex_map s"
  by (auto simp: tracker_locked_def split: option.splits prod.splits)

lemma pop_simps [simp]:
  "b \<noteq> a \<Longrightarrow> ex_receivers (snd (try_pop_next_with_stats a n s)) b = ex_receivers s b"
  "ex_next (snd (try_pop_next_with_stats a n s)) = ex_next s" "ex_map (snd (try_pop_next_with_stats a n s)) = ex_map s"
  by (auto simp: try_pop_next_with_stats_def Let_def split: list.splits)

lemma meta_locked_simps [simp]:
  "b \<noteq> a \<Longrightarrow> ex_receivers (snd (meta_locked a sid decoded s)) b = ex_receivers s b"
  "ex_next (snd (meta_locked a sid decoded s)) = ex_next s" "ex_map (snd (meta_locked a sid decoded s)) = ex_map s"
  using meta_locked_receiver [of a sid decoded s] by auto

lemma register_locked_simps [simp]:
  "b \<noteq> a \<Longrightarrow> ex_receivers (snd (register_locked a n schema s)) b = ex_receivers s b"
  "ex_next (snd (register_locked a n schema s)) = ex_next s" "ex_map (snd (register_locked a n schema s)) = ex_map s"
  by (auto simp: register_locked_def Let_def split: option.splits)

lemma get_or_create_simps:
  "ex_next s \<le> ex_next (snd (get_or_create key s))"
  "a < ex_next s \<Longrightarrow> ex_receivers (snd (get_or_create key s)) a = ex_receivers s a"
  "a \<noteq> ex_next s \<Longrightarrow> ex_receivers (snd (get_or_create key s)) a = ex_receivers s a"
  "ex_receivers (snd (get_or_create key s)) (ex_next s) \<in> {ex_receivers s (ex_next s), new_receiver}"
  "map_of (ex_map (snd (get_or_create key s))) key = Some (fst (get_or_create key s))"
  by (auto simp: get_or_create_def update_conv split: option.splits)

lemma section_next: "ex_next s \<le> ex_next (section_state sec s)"
  by (cases sec) (simp_all add: is_key_canceled_def mark_key_canceled_def get_or_create_simps remove_key_def
      cancel_locked_def notify_observers_def expect_locked_def drain_locked_def Let_def)

lemma section_other:
  assumes "section_receiver sec \<noteq> Some a" and "\<And>key. sec \<noteq> SGet key"
  shows "ex_receivers (section_state sec s) a = ex_receivers s a"
  using assms by (cases sec) (auto simp: is_key_canceled_def mark_key_canceled_def remove_key_def
      cancel_locked_def notify_observers_def expect_locked_def drain_locked_def Let_def)

lemma section_silent:
  "section_receiver sec \<noteq> Some a \<Longrightarrow> section_accepts sec s a = [] \<and> section_delivers sec s a = []"
  by (cases sec) (auto simp: section_accepts_def section_delivers_def)

lemma section_own:
  assumes ok: "receiver_ok (receiver_at a s) acc del" and "section_receiver sec = Some a"
  shows "receiver_ok (receiver_at a (section_state sec s)) (acc @ section_accepts sec s a) (del @ section_delivers sec s a)"
proof (cases sec)
  case (SPush b sid cs eos bytes ns)
  with assms push_locked_ok [OF ok, of sid cs eos bytes ns] show ?thesis
    by (cases "rs_canceled (receiver_at a s)") (auto simp: section_accepts_def section_delivers_def)
next
  case (SRegister b n schema)
  with assms register_locked_ok [OF ok] show ?thesis by (simp add: section_accepts_def section_delivers_def)
next
  case (SMeta b sid meta)
  with assms meta_locked_receiver [of a sid meta s] show ?thesis
    by (auto simp: section_accepts_def section_delivers_def receiver_ok_def)
next
  case (STracker b label root)
  with assms tracker_locked_ok [OF ok] show ?thesis by (simp add: section_accepts_def section_delivers_def)
next
  case (SPop b n)
  with assms pop_ok [OF ok] show ?thesis by (simp add: section_accepts_def)
next
  case (SDrain b)
  with assms drain_ok [OF ok] show ?thesis by (simp add: section_accepts_def)
qed (use assms in \<open>auto simp: section_accepts_def section_delivers_def cancel_locked_def notify_observers_def
    expect_locked_def receiver_ok_def\<close>)

lemma run_inv_start: "run_inv (start_run mem)"
  using receiver_ok_new by (simp add: run_inv_def start_run_def empty_exchange_def)

lemma run_inv_step:
  assumes inv: "run_inv r"
  shows "run_inv (section_step sec r)"
proof (cases "case section_receiver sec of Some a \<Rightarrow> ex_next (run_state r) \<le> a | None \<Rightarrow> False")
  case True
  with inv show ?thesis by (simp add: section_step_def Let_def)
next
  case False
  let ?s = "run_state r"
  have ok: "receiver_ok (receiver_at a ?s) (run_accepted r a) (run_delivered r a)" for a using inv by (simp add: run_inv_def)
  have unused: "run_accepted r a = [] \<and> run_delivered r a = []" if "ex_next ?s \<le> a" for a using inv that by (simp add: run_inv_def)
  have "receiver_ok (receiver_at a (section_state sec ?s)) (run_accepted r a @ section_accepts sec ?s a)
      (run_delivered r a @ section_delivers sec ?s a)" for a
  proof (cases "section_receiver sec = Some a")
    case True
    with section_own [OF ok] show ?thesis by blast
  next
    case other: False
    show ?thesis
    proof (cases "\<exists>key. sec = SGet key")
      case True
      then obtain key where key: "sec = SGet key" by blast
      have "receiver_at a (section_state sec ?s) = receiver_at a ?s \<or>
          a = ex_next ?s \<and> receiver_at a (section_state sec ?s) = rx_state new_receiver"
        using get_or_create_simps(3) [of a ?s key] get_or_create_simps(4) [of key ?s] by (cases "a = ex_next ?s") (auto simp: key)
      then show ?thesis using ok [of a] unused [of a] section_silent [OF other] receiver_ok_new by auto
    next
      case False
      with other ok [of a] section_silent [OF other, of ?s] section_other [of sec a ?s] show ?thesis by auto
    qed
  qed
  moreover have "run_accepted r a @ section_accepts sec ?s a = [] \<and> run_delivered r a @ section_delivers sec ?s a = []"
    if "ex_next (section_state sec ?s) \<le> a" for a
  proof -
    have "ex_next ?s \<le> a" using that section_next [of ?s sec] by simp
    moreover from this False have "section_receiver sec \<noteq> Some a" by auto
    ultimately show ?thesis using unused section_silent by blast
  qed
  ultimately show ?thesis using False by (simp add: run_inv_def section_step_def Let_def)
qed

interpretation receiver_life: request_machine "\<lambda>r. \<exists>mem. r = start_run mem" section_step run_inv
  by unfold_locales (auto simp: run_inv_start run_inv_step)

subsection \<open>Calls of the interface\<close>

datatype 'd exchange_call =
    CSetExpected nat exchange_key nat | CRegister nat exchange_key nat chunk_schema
  | CTracker nat exchange_key mem_tracker | CHandle nat exchange_key nat
  | CPush nat exchange_key sender "'d chunk list" bool nat nat | CMeta exchange_key sender "wire_meta option"
  | CTryPop nat nat | CDrain nat | CRemoveFragment nat int int | CCancelFragment nat int int | CCancelKey nat exchange_key

fun apply_call :: "'d exchange_call \<Rightarrow> 'd exchange \<Rightarrow> 'd exchange" where
  "apply_call (CSetExpected now key n) s = set_expected_senders now key n s"
| "apply_call (CRegister now key n schema) s = snd (register_expected_chunk_schema now key n schema s)"
| "apply_call (CTracker now key root) s = snd (ensure_receiver_mem_tracker now key root s)"
| "apply_call (CHandle now key n) s = snd (get_receiver_handle now key n s)"
| "apply_call (CPush now key sid cs eos bytes ns) s = push_chunks_with_stats now key sid cs eos bytes ns s"
| "apply_call (CMeta key sid decoded) s = (case get_or_create key s of (a, s1) \<Rightarrow> snd (meta_locked a sid decoded s1))"
| "apply_call (CTryPop a n) s = snd (try_pop_next_with_stats a n s)"
| "apply_call (CDrain a) s = snd (drain_locked a s)"
| "apply_call (CRemoveFragment now hi lo) s = remove_fragment now hi lo s"
| "apply_call (CCancelFragment now hi lo) s = cancel_fragment now hi lo s"
| "apply_call (CCancelKey now key) s = cancel_exchange_key now key s"

text \<open>What a call may do to a receiver: if it becomes ready, both kinds of waiters are told.\<close>

definition woken :: "nat \<Rightarrow> 'd exchange \<Rightarrow> 'd exchange \<Rightarrow> bool" where
  "woken a s s' \<longleftrightarrow>
     rx_cv (ex_receivers s a) \<le> rx_cv (ex_receivers s' a) \<and> rx_observable (ex_receivers s a) \<le> rx_observable (ex_receivers s' a) \<and>
     (\<forall>n. has_output_or_finished a n s' \<longrightarrow> has_output_or_finished a n s \<or>
        rx_cv (ex_receivers s a) < rx_cv (ex_receivers s' a) \<and> rx_observable (ex_receivers s a) < rx_observable (ex_receivers s' a))"

lemma woken_same: "ex_receivers s' a = ex_receivers s a \<Longrightarrow> woken a s s'"
  by (simp add: woken_def has_output_or_finished_def)

lemma woken_trans: "woken a s s' \<Longrightarrow> woken a s' s'' \<Longrightarrow> woken a s s''"
  unfolding woken_def by (meson le_less_trans less_le_trans order_trans)

lemma woken_fold: "(\<And>x s. woken a s (f x s)) \<Longrightarrow> woken a s (fold f xs s)"
  by (induction xs arbitrary: s) (auto intro: woken_trans woken_same)

lemma is_key_canceled_receivers [simp]:
  "ex_receivers (snd (is_key_canceled now key s)) = ex_receivers s" "ex_next (snd (is_key_canceled now key s)) = ex_next s"
  "ex_map (snd (is_key_canceled now key s)) = ex_map s"
  by (simp_all add: is_key_canceled_def Let_def)

lemma mark_remove_receivers [simp]:
  "ex_receivers (mark_key_canceled now key s) = ex_receivers s" "ex_receivers (remove_key key s) = ex_receivers s"
  "ex_map (mark_key_canceled now key s) = ex_map s"
  "ex_canceled_keys (remove_key key s) = ex_canceled_keys s"
  by (simp_all add: mark_key_canceled_def remove_key_def)

lemma woken_expect: "woken a s (expect_locked b n s)"
  by (auto simp: woken_def expect_locked_def has_output_or_finished_def senders_done_def Let_def)

lemma woken_register: "woken a s (snd (register_locked b n schema s))"
  by (auto simp: woken_def register_locked_def has_output_or_finished_def senders_done_def Let_def split: option.splits)

lemma woken_tracker: "woken a s (snd (tracker_locked b label root s))"
proof -
  have "fst (transfer_chunks t cs mem) = [] \<longleftrightarrow> cs = []" for t :: mem_tracker and cs :: "'a chunk list" and mem
    using transfer_chunks_ok [of t cs mem] by (metis map_is_Nil_conv)
  then show ?thesis
    by (auto simp: woken_def tracker_locked_def has_output_or_finished_def senders_done_def Let_def split: option.splits prod.splits)
qed

lemma woken_meta: "woken a s (snd (meta_locked b sid decoded s))"
  using meta_locked_receiver [of b sid decoded s]
  by (cases "a = b") (auto simp: woken_def has_output_or_finished_def senders_done_def Let_def)

lemma woken_pop: "woken a s (snd (try_pop_next_with_stats b n s))"
  by (auto simp: woken_def try_pop_next_with_stats_def has_output_or_finished_def senders_done_def Let_def split: list.splits)

lemma woken_drain: "woken a s (snd (drain_locked b s))"
  by (auto simp: woken_def drain_locked_def has_output_or_finished_def senders_done_def Let_def)

lemma woken_cancel: "woken a s (notify_observers b (cancel_locked b s))"
  by (auto simp: woken_def notify_observers_def cancel_locked_def has_output_or_finished_def senders_done_def Let_def)

lemma woken_cancel_receiver: "woken a s (cancel_receiver key s)"
  by (auto simp: cancel_receiver_def intro: woken_cancel woken_same split: option.splits)

lemma woken_cancel_key: "woken a s (remove_key key (cancel_receiver key (mark_key_canceled now key s)))"
proof -
  have "woken a s (mark_key_canceled now key s)" by (intro woken_same) simp
  from woken_trans [OF this woken_cancel_receiver] show ?thesis by (rule woken_trans) (intro woken_same, simp)
qed

lemma push_locked_notifies:
  assumes "\<not> rs_canceled (receiver_at a s)"
  shows "rx_cv (ex_receivers (push_locked a sid cs eos bytes ns s) a) = Suc (rx_cv (ex_receivers s a))"
    and "rx_observable (ex_receivers (push_locked a sid cs eos bytes ns s) a) = rx_observable (ex_receivers s a)"
    and "cs = [] \<Longrightarrow> \<not> eos \<Longrightarrow> has_output_or_finished a n (push_locked a sid cs eos bytes ns s) = has_output_or_finished a n s"
  using assms by (auto simp: push_locked_def has_output_or_finished_def senders_done_def Let_def split: prod.splits option.splits)

lemma woken_push:
  "woken a s (let s3 = push_locked b sid cs eos bytes ns s
     in if rs_canceled (receiver_at b s) then s3 else if cs \<noteq> [] \<or> eos then notify_observers b s3 else s3)"
proof (cases "a = b \<and> \<not> rs_canceled (receiver_at b s)")
  case True
  with push_locked_notifies [where a = b and s = s and sid = sid and cs = cs and eos = eos and bytes = bytes and ns = ns] show ?thesis
    by (auto simp: woken_def notify_observers_def Let_def)
next
  case False
  then show ?thesis by (intro woken_same) (auto simp: notify_observers_def Let_def)
qed

lemma woken_opened:
  assumes "a < ex_next s" and "\<And>b s'. woken a s' (f b s')"
  shows "woken a s (case get_or_create key (snd (is_key_canceled now key s)) of (b, s2) \<Rightarrow> f b s2)"
proof -
  obtain b s2 where g: "get_or_create key (snd (is_key_canceled now key s)) = (b, s2)" by fastforce
  have "woken a s s2"
    using get_or_create_simps(2) [of a "snd (is_key_canceled now key s)" key] assms(1) by (intro woken_same) (simp add: g)
  with assms(2) show ?thesis by (auto simp: g intro: woken_trans)
qed

lemma woken_checked:
  assumes "is_key_canceled now key s = (c, s1)"
  shows "woken a s s1" and "woken a s (s1\<lparr>ex_mem := mem\<rparr>)"
  using is_key_canceled_receivers(1) [of now key s] assms by (auto intro: woken_same)

lemma woken_call:
  assumes "a < ex_next s"
  shows "woken a s (apply_call c s)"
proof (cases c)
  case (CSetExpected now key n)
  with woken_opened [OF assms, of "\<lambda>b s. expect_locked b n s" key now] show ?thesis
    by (auto simp: set_expected_senders_def woken_expect woken_checked split: prod.splits)
next
  case (CRegister now key n schema)
  with woken_opened [OF assms, of "\<lambda>b s. snd (register_locked b n schema s)" key now] show ?thesis
    by (auto simp: register_expected_chunk_schema_def woken_register woken_checked split: prod.splits)
next
  case (CTracker now key root)
  with woken_opened [OF assms, of "\<lambda>b s. snd (tracker_locked b (receiver_label key) root s)" key now] show ?thesis
    by (auto simp: ensure_receiver_mem_tracker_def woken_tracker woken_checked split: prod.splits)
next
  case (CHandle now key n)
  with woken_opened [OF assms, of "\<lambda>b s. expect_locked b n s" key now] show ?thesis
    by (auto simp: get_receiver_handle_def woken_expect woken_checked split: prod.splits)
next
  case (CPush now key sid cs eos bytes ns)
  with woken_opened [OF assms, of "\<lambda>b s. let s3 = push_locked b sid cs eos bytes ns s
      in if rs_canceled (receiver_at b s) then s3 else if cs \<noteq> [] \<or> eos then notify_observers b s3 else s3" key now, OF woken_push]
  show ?thesis by (auto simp: push_chunks_with_stats_def woken_checked split: prod.splits)
next
  case (CMeta key sid decoded)
  obtain b s1 where g: "get_or_create key s = (b, s1)" by fastforce
  have "woken a s s1" using get_or_create_simps(2) [OF assms, of key] by (intro woken_same) (simp add: g)
  from woken_trans [OF this woken_meta] show ?thesis by (simp add: CMeta g)
next
  case (CRemoveFragment now hi lo)
  have "woken a s (remove_key k (mark_key_canceled now k s))" for k and s :: "'a exchange" by (intro woken_same) simp
  then show ?thesis by (auto simp: CRemoveFragment remove_fragment_def intro!: woken_fold)
next
  case (CCancelFragment now hi lo)
  show ?thesis unfolding CCancelFragment apply_call.simps cancel_fragment_def by (rule woken_fold) (rule woken_cancel_key)
next
  case (CCancelKey now key)
  show ?thesis unfolding CCancelKey apply_call.simps cancel_exchange_key_def by (rule woken_cancel_key)
qed (simp_all add: woken_pop woken_drain)

subsection \<open>Tombstones\<close>

lemma map_of_filter_live:
  "map_of keys key = Some ts \<Longrightarrow> P ts \<Longrightarrow> map_of (filter (\<lambda>(_, ts). P ts) keys) key = Some ts"
  by (induction keys) (auto split: if_splits)

lemma tombstone_live:
  assumes "map_of (ex_canceled_keys s) key = Some ts" and "now - ts \<le> CANCELED_KEYS_TTL"
    and "length (ex_canceled_keys s) \<le> CANCELED_KEYS_MAX_SIZE"
  shows "fst (is_key_canceled now key s)"
proof -
  have "length (filter (\<lambda>(_, ts). now - ts \<le> CANCELED_KEYS_TTL) (ex_canceled_keys s)) \<le> CANCELED_KEYS_MAX_SIZE"
    using assms(3) length_filter_le le_trans by blast
  with map_of_filter_live [OF assms(1), of "\<lambda>ts. now - ts \<le> CANCELED_KEYS_TTL"] assms(2) show ?thesis
    by (simp add: is_key_canceled_def cleanup_canceled_keys_locked_def Let_def)
qed

lemma cancel_key_map:
  "ex_map (cancel_exchange_key now key s) = AList.delete key (ex_map s)"
  "map_of (ex_canceled_keys (cancel_exchange_key now key s)) key = Some now"
  by (auto simp: cancel_exchange_key_def cancel_receiver_def notify_observers_def cancel_locked_def remove_key_def
      mark_key_canceled_def update_conv split: option.splits)

text \<open>Calls on a key with a live tombstone.\<close>

lemma tombstone_calls:
  assumes "fst (is_key_canceled now key s)"
  shows "ex_receivers (push_chunks_with_stats now key sid cs eos bytes ns s) = ex_receivers s"
    and "ex_map (push_chunks_with_stats now key sid cs eos bytes ns s) = ex_map s"
    and "fst (get_receiver_handle now key n s) = Inl ExchangeCanceled"
  using assms by (auto simp: push_chunks_with_stats_def get_receiver_handle_def is_key_canceled_def Let_def)

subsection \<open>Properties\<close>

text \<open>
  (C36) Delivery. In every interleaving of the callers, what a receiver gave out followed by what it
  still queues is exactly what it accepted, in order. So when a pop reports the end, everything
  accepted was given out, the statistics count all of it, and as many different senders as were
  expected have finished.
\<close>

theorem exchange_delivers:
  "run_delivered (run_of secs mem) a @ map parcel (rs_chunks (receiver_at a (run_state (run_of secs mem)))) = run_accepted (run_of secs mem) a \<and>
    (\<forall>n stats. fst (try_pop_next_with_stats a n (run_state (run_of secs mem))) = Inr (Some (PopFinished stats)) \<longrightarrow>
       run_delivered (run_of secs mem) a = run_accepted (run_of secs mem) a \<and>
       chunks_received stats = sat_u128 (length (run_accepted (run_of secs mem) a)) \<and>
       rows_received stats = sat_u128 (sum_list (map snd (run_accepted (run_of secs mem) a))) \<and>
       max (rs_expected_senders (receiver_at a (run_state (run_of secs mem)))) n \<le> card (rs_finished (receiver_at a (run_state (run_of secs mem)))))"
proof -
  have "run_inv (run_of secs mem)" unfolding run_of_def by (intro receiver_life.inv_run) blast
  then have ok: "receiver_ok (receiver_at a (run_state (run_of secs mem))) (run_accepted (run_of secs mem) a) (run_delivered (run_of secs mem) a)" by (simp add: run_inv_def)
  show ?thesis
  proof (intro conjI allI impI)
    show eq: "run_delivered (run_of secs mem) a @ map parcel (rs_chunks (receiver_at a (run_state (run_of secs mem)))) = run_accepted (run_of secs mem) a"
      using ok by (simp add: receiver_ok_def)
    fix n stats assume "fst (try_pop_next_with_stats a n (run_state (run_of secs mem))) = Inr (Some (PopFinished stats))"
    then have e: "rs_chunks (receiver_at a (run_state (run_of secs mem))) = []" and d: "senders_done n (receiver_at a (run_state (run_of secs mem)))"
      and st: "stats = recv_stats (receiver_at a (run_state (run_of secs mem)))"
      by (auto simp: try_pop_next_with_stats_def Let_def split: if_splits list.splits)
    show "run_delivered (run_of secs mem) a = run_accepted (run_of secs mem) a" using eq e by simp
    show "chunks_received stats = sat_u128 (length (run_accepted (run_of secs mem) a))"
      and "rows_received stats = sat_u128 (sum_list (map snd (run_accepted (run_of secs mem) a)))"
      using ok by (simp_all add: st recv_stats_def receiver_ok_def)
    show "max (rs_expected_senders (receiver_at a (run_state (run_of secs mem)))) n \<le> card (rs_finished (receiver_at a (run_state (run_of secs mem))))"
      using d by (auto simp: senders_done_def Let_def)
  qed
qed

definition demo_key :: exchange_key where
  "demo_key = \<lparr>finst_id_hi = 1, finst_id_lo = 2, ex_node_id = 3\<rparr>"

definition demo_chunk :: "nat chunk" where
  "demo_chunk = \<lparr>chunk_data = 42, chunk_rows = 2, chunk_bytes = 8, chunk_acct = None\<rparr>"

definition demo_sections :: "nat locked_section list" where
  "demo_sections = [SGet demo_key, SExpect 0 1, SPush 0 (7, 0) [demo_chunk] True 16 5, SPop 0 1]"

lemmas section_defs = section_step_def section_accepts_def section_delivers_def start_run_def empty_exchange_def
  get_or_create_def expect_locked_def push_locked_def try_pop_next_with_stats_def update_receiver_def notify_all_def
  new_receiver_def default_receiver_state_def parcel_def senders_done_def recv_stats_def

theorem exchange_delivers_witness:
  "run_delivered (run_of demo_sections empty_mem_store) 0 = [(42, 2)] \<and>
   run_accepted (run_of demo_sections empty_mem_store) 0 = [(42, 2)]"
proof -
  let ?r = "run_of demo_sections empty_mem_store"
  have fin: "\<exists>stats. fst (try_pop_next_with_stats 0 1 (run_state ?r)) = Inr (Some (PopFinished stats))"
    and acc: "run_accepted ?r 0 = [(42, 2)]"
    by (simp_all add: run_of_def demo_sections_def demo_chunk_def section_defs Let_def)
  from fin exchange_delivers [of demo_sections empty_mem_store 0] have "run_delivered ?r 0 = run_accepted ?r 0" by blast
  with acc show ?thesis by simp
qed

text \<open>
  (C37) Accounting. In every interleaving, once a receiver has a memory tracker every chunk it queues
  is charged to that tracker, or has no bytes to charge: chunks queued before the tracker existed
  as well as chunks pushed later.
\<close>

theorem queue_charged:
  assumes "rs_mem_tracker (receiver_at a (run_state (run_of secs mem))) = Some t"
  shows "list_all (charged t) (rs_chunks (receiver_at a (run_state (run_of secs mem))))"
proof -
  have "run_inv (run_of secs mem)" unfolding run_of_def by (intro receiver_life.inv_run) blast
  with assms show ?thesis by (simp add: run_inv_def receiver_ok_def)
qed

theorem queue_charged_witness:
  "\<exists>t. rs_mem_tracker (receiver_at 0 (run_state (run_of
       [SGet demo_key, SPush 0 (7, 0) [demo_chunk] False 16 5, STracker 0 ''queue'' (MemTracker 0 ''root'' (-1) None)]
       (snd (new_root ''root'' empty_mem_store))))) = Some t \<and>
     list_all (charged t) (rs_chunks (receiver_at 0 (run_state (run_of
       [SGet demo_key, SPush 0 (7, 0) [demo_chunk] False 16 5, STracker 0 ''queue'' (MemTracker 0 ''root'' (-1) None)]
       (snd (new_root ''root'' empty_mem_store))))))"
proof -
  let ?secs = "[SGet demo_key, SPush 0 (7, 0) [demo_chunk] False 16 5, STracker 0 ''queue'' (MemTracker 0 ''root'' (-1) None)]"
  have "\<exists>t. rs_mem_tracker (receiver_at 0 (run_state (run_of ?secs (snd (new_root ''root'' empty_mem_store))))) = Some t"
    by (simp add: run_of_def section_defs tracker_locked_def Let_def split: prod.splits)
  with queue_charged [where a = 0 and secs = ?secs and mem = "snd (new_root ''root'' empty_mem_store)"] show ?thesis by blast
qed

text \<open>
  (C38) Wake-ups. A call that makes a receiver ready, by a chunk, by the last end of stream or by
  cancelling, notifies the condition variable of the blocked readers and the observable of the
  parked drivers. No other call makes a receiver ready.
\<close>

theorem ready_is_notified:
  assumes "a < ex_next s" and "\<not> has_output_or_finished a n s" and "has_output_or_finished a n (apply_call c s)"
  shows "rx_cv (ex_receivers s a) < rx_cv (ex_receivers (apply_call c s) a) \<and>
    rx_observable (ex_receivers s a) < rx_observable (ex_receivers (apply_call c s) a)"
  using woken_call [OF assms(1), of c] assms(2,3) by (auto simp: woken_def)

theorem ready_is_notified_witness:
  "rx_observable (ex_receivers (apply_call (CPush 0 demo_key (7, 0) [demo_chunk] False 16 5)
     (set_expected_senders 0 demo_key 1 (empty_exchange empty_mem_store))) 0) > 0"
proof -
  let ?s = "set_expected_senders 0 demo_key 1 (empty_exchange empty_mem_store) :: nat exchange"
  let ?c = "CPush 0 demo_key (7, 0) [demo_chunk] False 16 5"
  note defs = set_expected_senders_def is_key_canceled_def cleanup_canceled_keys_locked_def section_defs has_output_or_finished_def
    push_chunks_with_stats_def notify_observers_def CANCELED_KEYS_MAX_SIZE_def
  have "0 < ex_next ?s" "\<not> has_output_or_finished 0 1 ?s" "has_output_or_finished 0 1 (apply_call ?c ?s)"
    by (simp_all add: defs Let_def)
  from ready_is_notified [OF this] show ?thesis by simp
qed

text \<open>
  (C39) Cancelling. After a call of \<open>cancel_exchange_key\<close> as a whole, every pop through a handle on the receiver fails, its
  waiters have been notified and the map has no entry. As long as the tombstone has not expired
  and the table of tombstones is not over its limit, no handle is given out and pushed chunks
  leave every receiver and the map as they are.
\<close>

theorem cancel_is_final:
  assumes "map_of (ex_map s) key = Some a" and "now' - now \<le> CANCELED_KEYS_TTL"
    and "length (ex_canceled_keys (cancel_exchange_key now key s)) \<le> CANCELED_KEYS_MAX_SIZE"
  shows "try_pop_next_with_stats a n (cancel_exchange_key now key s) = (Inl ExchangeCanceled, cancel_exchange_key now key s) \<and>
    rx_cv (ex_receivers s a) < rx_cv (ex_receivers (cancel_exchange_key now key s) a) \<and>
    rx_observable (ex_receivers s a) < rx_observable (ex_receivers (cancel_exchange_key now key s) a) \<and>
    map_of (ex_map (cancel_exchange_key now key s)) key = None \<and>
    fst (get_receiver_handle now' key n (cancel_exchange_key now key s)) = Inl ExchangeCanceled \<and>
    ex_receivers (push_chunks_with_stats now' key sid cs eos bytes ns (cancel_exchange_key now key s)) =
      ex_receivers (cancel_exchange_key now key s) \<and>
    ex_map (push_chunks_with_stats now' key sid cs eos bytes ns (cancel_exchange_key now key s)) =
      ex_map (cancel_exchange_key now key s)"
proof -
  have live: "fst (is_key_canceled now' key (cancel_exchange_key now key s))"
    by (rule tombstone_live [OF cancel_key_map(2) assms(2,3)])
  have "rs_canceled (receiver_at a (cancel_exchange_key now key s))"
    and "rx_cv (ex_receivers s a) < rx_cv (ex_receivers (cancel_exchange_key now key s) a)"
    and "rx_observable (ex_receivers s a) < rx_observable (ex_receivers (cancel_exchange_key now key s) a)"
    using assms(1) by (simp_all add: cancel_exchange_key_def cancel_receiver_def notify_observers_def cancel_locked_def)
  then show ?thesis using tombstone_calls [OF live]
    by (simp add: try_pop_next_with_stats_def Let_def cancel_key_map(1) delete_conv)
qed

theorem cancel_is_final_witness:
  "fst (get_receiver_handle 10 demo_key 1 (cancel_exchange_key 5 demo_key
     (snd (get_or_create demo_key (empty_exchange empty_mem_store :: nat exchange))))) = Inl ExchangeCanceled"
proof -
  let ?s = "snd (get_or_create demo_key (empty_exchange empty_mem_store :: nat exchange))"
  have "map_of (ex_map ?s) demo_key = Some 0" "(10 :: nat) - 5 \<le> CANCELED_KEYS_TTL"
    "length (ex_canceled_keys (cancel_exchange_key 5 demo_key ?s)) \<le> CANCELED_KEYS_MAX_SIZE"
    by (simp_all add: section_defs CANCELED_KEYS_TTL_def CANCELED_KEYS_MAX_SIZE_def cancel_exchange_key_def cancel_receiver_def
        remove_key_def mark_key_canceled_def notify_observers_def cancel_locked_def cleanup_canceled_keys_locked_def Let_def)
  from cancel_is_final [OF this, of 1 "(7, 0)" "[demo_chunk]" True 16 5] show ?thesis by blast
qed

text \<open>
  (C40) A payload that arrives after its fragment was cancelled or removed is answered with success
  and its chunks are dropped, but decoding does not look at the tombstone: it creates a new receiver
  for the key, which is not cancelled, has no chunk and has not noted the end of the stream.
\<close>

theorem late_payload_recreates_receiver:
  assumes "fst (is_key_canceled now key s)" and "map_of (ex_map s) key = None"
    and "transmit_request p = Inr (key, sid, eos, payload)"
    and "decode_exchange_payload_envelope payload = Inr (Some meta, arrow)" and "arrow \<noteq> []"
    and "decode_batches libs None meta arrow = Inr chunks"
  shows "fst (handle_transmit_chunk libs bytes_of now ns p s) = TransmitOk \<and>
    map_of (ex_map (snd (handle_transmit_chunk libs bytes_of now ns p s))) key = Some (ex_next s) \<and>
    \<not> rs_canceled (receiver_at (ex_next s) (snd (handle_transmit_chunk libs bytes_of now ns p s))) \<and>
    rs_chunks (receiver_at (ex_next s) (snd (handle_transmit_chunk libs bytes_of now ns p s))) = [] \<and>
    rs_finished (receiver_at (ex_next s) (snd (handle_transmit_chunk libs bytes_of now ns p s))) = {}"
proof -
  obtain s1 where dec: "decode_chunks_for_sender libs key sid payload s = (Inr chunks, s1)"
    and s1: "ex_canceled_keys s1 = ex_canceled_keys s" "map_of (ex_map s1) key = Some (ex_next s)"
      "receiver_at (ex_next s) s1 = default_receiver_state\<lparr>rs_sender_wire_meta := [sid \<mapsto> meta]\<rparr>"
    using assms(2,4-6)
    by (simp add: decode_chunks_for_sender_def get_or_create_def meta_locked_def new_receiver_def default_receiver_state_def
        update_conv Let_def)
  have "fst (is_key_canceled now key s1)" using assms(1) s1(1) by (simp add: is_key_canceled_def Let_def)
  from tombstone_calls(1,2) [OF this] show ?thesis
    by (simp add: handle_transmit_chunk_def assms(3) dec s1 default_receiver_state_def)
qed

definition demo_params :: transmit_params where
  "demo_params = \<lparr>tp_finst_id = Some (1, 2), tp_node_id = Some 3, tp_sender_id = Some 7, tp_be_number = Some 0,
     tp_eos = Some True, tp_sequence = Some 0,
     tp_chunks = [Some (encode_exchange_payload_envelope [7] (Some \<lparr>slot_ids_by_index = [5]\<rparr>))]\<rparr>"

definition demo_canceled :: "unit data_chunk exchange" where
  "demo_canceled = (empty_exchange empty_mem_store)\<lparr>ex_canceled_keys := [(demo_key, 5)]\<rparr>"

lemma demo_stream_decodes: "\<exists>chunks. decode_batches demo_exchange_libs None \<lparr>slot_ids_by_index = [5]\<rparr> [7] = Inr chunks"
proof -
  let ?cs = "[demo_wire_chunk False 0, demo_wire_chunk True 1]"
  have schema: "wire_schema ?cs = [new_field ''a'' DInt32 True]"
    by (simp add: wire_schema_def merged_fields_def demo_wire_chunk_def widen_def)
  have stream: "map (wire_batch demo_exchange_libs ?cs) ?cs = demo_stream"
    unfolding wire_batch_def schema by (simp add: demo_stream_def demo_wire_chunk_def)
  have ids: "chunk_slot_ids (hd ?cs) = [5]" by (simp add: chunk_slot_ids_def demo_wire_chunk_def)
  have "decode_arrow_ipc_batches demo_exchange_libs [7] = Inr demo_stream"
    by (simp add: decode_arrow_ipc_batches_def demo_exchange_libs_def demo_stream_def)
  moreover obtain f where "\<And>c. c \<in> set ?cs \<Longrightarrow>
      decode_batch demo_exchange_libs None \<lparr>slot_ids_by_index = [5]\<rparr> (wire_batch demo_exchange_libs ?cs c) = Inr (f c)"
    using decode_wire_batch [OF demo_exchange_laws demo_one_exchange] unfolding ids by metis
  then have "collect_ok (map (decode_batch demo_exchange_libs None \<lparr>slot_ids_by_index = [5]\<rparr>) (map (wire_batch demo_exchange_libs ?cs) ?cs)) =
      Inr (map f ?cs)"
    unfolding collect_ok_eq_Inr map_map comp_def by (intro map_cong) auto
  ultimately show ?thesis unfolding decode_batches_def stream by simp
qed

theorem late_payload_recreates_receiver_witness:
  "fst (handle_transmit_chunk demo_exchange_libs (\<lambda>_. 8) 6 1 demo_params demo_canceled) = TransmitOk \<and>
   map_of (ex_map (snd (handle_transmit_chunk demo_exchange_libs (\<lambda>_. 8) 6 1 demo_params demo_canceled))) demo_key = Some 0"
proof -
  let ?payload = "encode_exchange_payload_envelope [7] (Some \<lparr>slot_ids_by_index = [5]\<rparr>)"
  have canceled: "fst (is_key_canceled 6 demo_key demo_canceled)"
    by (simp add: is_key_canceled_def demo_canceled_def cleanup_canceled_keys_locked_def CANCELED_KEYS_TTL_def CANCELED_KEYS_MAX_SIZE_def Let_def)
  have fresh: "map_of (ex_map demo_canceled) demo_key = None" "ex_next demo_canceled = 0"
    by (simp_all add: demo_canceled_def empty_exchange_def)
  have req: "transmit_request demo_params = Inr (demo_key, (7, 0), True, ?payload)"
    by (simp add: transmit_request_def demo_params_def demo_key_def)
  have env: "decode_exchange_payload_envelope ?payload = Inr (Some \<lparr>slot_ids_by_index = [5]\<rparr>, [7])"
    by (rule envelope_roundtrip) (auto simp: u32_limit_def)
  obtain chunks where "decode_batches demo_exchange_libs None \<lparr>slot_ids_by_index = [5]\<rparr> [7] = Inr chunks"
    using demo_stream_decodes by blast
  from late_payload_recreates_receiver [OF canceled fresh(1) req env _ this, of "\<lambda>_. 8" 1] fresh(2) show ?thesis by simp
qed

end
