(* ===== verification/Spec2Isabelle.thy ===== *)
theory Spec2Isabelle
  imports Wakeup_Protocol Temporal_Codec Segment_Footer Exchange_Receiver
begin

text \<open>
  Verification of the execution core and the storage formats of NovaRocks, a query engine in Rust.

  \<^bold>\<open>The program.\<close> A query fragment is executed by pipelines. A pipeline is run by drivers, each a
  chain of operators between which chunks are moved; worker threads run drivers for a time slice,
  and a scheduler thread keeps the drivers that wait. A chunk is an Arrow record batch whose
  columns are named by slot ids, and the bytes it holds are charged to a tree of memory trackers.
  Fragments exchange chunks as payloads with an envelope. Tables are stored as segment files: data
  pages in several encodings, index pages that locate them, and a footer that describes columns.

  \<^bold>\<open>Theories and sources\<close> (paths below \<open>src/src\<close>).
  \<^item> \<open>Nova_Prelude\<close>: fallible results (\<open>result_bind\<close> is the question mark operator), loops with
    early return (\<open>for_each\<close>), machine integers, and the interfaces \<open>entry_store\<close> and
    \<open>request_machine\<close>.
  \<^item> \<open>Mem_Tracker\<close>: \<open>runtime/mem_tracker.rs\<close> and \<open>exec/chunk/memory.rs\<close>. Counters are a store
    indexed by tracker identity. Balances are exact after every sequence of operations.
  \<^item> \<open>Pipeline_Driver\<close>: \<open>exec/pipeline/driver.rs\<close> over the interface of \<open>exec/pipeline/operator.rs\<close>,
    which is a record of functions, so that the lemmas hold for all operators. Chunks are neither
    lost nor duplicated, results match the state, blocking is justified, a call returns.
  \<^item> \<open>Driver_Scheduler\<close>, \<open>Wakeup_Protocol\<close>: \<open>exec/pipeline/dependency.rs\<close>, the observers and event
    scheduler of \<open>exec/pipeline/schedule\<close>, \<open>blocked_driver_poller.rs\<close>, \<open>global_driver_executor.rs\<close>
    and \<open>fragment_context.rs\<close>. Threads are program counters, and \<open>sys_step\<close> interleaves their atomic
    actions. Drivers are accounted for, no wake-up is lost, the queue is drained.
  \<^item> \<open>Byte_Codec\<close>: fixed-width integers as bytes, with the interface \<open>fixed_codec\<close>.
  \<^item> \<open>Bitshuffle\<close>, \<open>Rle_Page\<close>, \<open>Page_Codec\<close>, \<open>Index_Page\<close>: the encodings and pages below
    \<open>formats/starrocks/reader\<close>, and the page writers of \<open>formats/starrocks/writer/segment_data.rs\<close>.
    What is laid out is read back, and the index covers every ordinal.
  \<^item> \<open>Temporal_Codec\<close>: DATE and DATETIME storage and date literals.
  \<^item> \<open>Segment_Footer\<close>: the footer of \<open>formats/starrocks/segment.rs\<close> and the trailer of the writer.
  \<^item> \<open>Arrow_Types\<close>: column types and thrift descriptors, \<open>lower/type_lowering.rs\<close>, \<open>sql/types.rs\<close> and
    the type inference of the SQL front end that uses them.
  \<^item> \<open>Chunk_Schema\<close>: \<open>exec/chunk/schema.rs\<close> and the constructors of \<open>exec/chunk/chunk_impl.rs\<close>. Slots
    are consistently typed, and columns are found by slot id.
  \<^item> \<open>Exchange_Wire\<close>: the payload format of \<open>runtime/exchange.rs\<close>. Chunks survive the wire, and the
    receiver names the columns by ids it knows.
  \<^item> \<open>Exchange_Receiver\<close>: the receivers of \<open>runtime/exchange.rs\<close>, \<open>runtime/exchange_scan.rs\<close> and the
    handler of \<open>service/internal_rpc.rs\<close> that feeds them. Receivers live at addresses, and runs are
    sequences of sections under a lock. Chunks are delivered in order and completely, queues are
    charged, readiness is notified, cancelling is final.

  \<^bold>\<open>Conventions.\<close> Errors are values of a sum type whose left side is the error; the texts of
  messages are dropped where nothing depends on them. Records and datatypes carry the names of the
  source. \<open>usize\<close> is \<open>nat\<close> with the 64-bit bound where the code checks it, \<open>i64\<close> is \<open>int\<close> with the
  wrap-around written out, and bytes and slot ids are words.

  \<^bold>\<open>Parameters.\<close> Code outside the repository is an argument of the definitions: LZ4, CRC32C, protobuf,
  the chrono calendar, Arrow's batch constructors and its IPC streams. What is assumed of them is
  named in the theory that uses them (for instance \<open>record_batch_law\<close> and \<open>exchange_laws\<close>), and the
  witnesses instantiate them with concrete functions.

  \<^bold>\<open>Bounds and fuel.\<close> The driver loop takes the list of what each iteration reads from outside, and
  a call is proved to return once one iteration sees the time slice used up or an error. The index
  tree has the depth limit of the code, 16, and the walk is proved to succeed exactly up to it. The
  blocking loops of a receiver take the list of their waits. The other loops are total functions
  with termination proofs.

  \<^bold>\<open>What the proofs brought to light.\<close> A dependency behind an operator without precondition is not
  waited for; timestamps from Julian day \<open>2 ^ 24\<close> on are stored as other timestamps; failing a
  fragment can lose the wake-up of a parked driver; type unification depends on the order of its
  arguments for 8-bit integers; decimal multiplication can give a scale beyond its precision; a
  payload that comes after its fragment ended creates a receiver again.

  \<^bold>\<open>Not modelled.\<close> The senders of exchanges (RPC clients with retries), the operators, expressions,
  hash tables and runtime filters (kernels over Arrow arrays), the SQL front end, the connectors,
  caches, file systems, services and the server (I/O and third-party crates), and the conversion
  between Arrow arrays and page values in the segment reader and writer. Of the scheduler the
  schedule token is left out, and \<open>Dependency::set_blocked\<close>, which has no caller. Of the receivers
  the release of a queue with its last handle is left out.
\<close>

end
